(* ===== verification/Prelude.thy ===== *)
theory Prelude
  imports Main "HOL-Library.AList"
begin

section \<open>Shared vocabulary: errors, fallible steps, machine integers, byte strings\<close>

text \<open>
  What every component of the payment rail uses: the one error type of the program (Go's
  \<open>error\<close> interface as \<open>errors.Is\<close> sees it), the combinator for Go's
  \<open>if err != nil { return err }\<close>, 64-bit signed arithmetic with its wrap-around written
  out, Go maps as association lists, and the generic list lemmas the components share.
\<close>

named_theorems step_elims
  \<comment> \<open>elimination rules that take a successful run apart into its successful steps\<close>
named_theorems query_effects
  \<comment> \<open>what a successful database statement does to the tables\<close>

subsection \<open>Types\<close>

text \<open>
  A Go \<open>string\<close> and a Go \<open>[]byte\<close> are both sequences of bytes, and so is HOL's
  \<open>string\<close>. A \<open>uuid.UUID\<close> is a 16-byte array compared bytewise from the left, which is
  the order of the numbers the arrays denote; it is modelled as that number. A
  \<open>time.Time\<close> is a count of nanoseconds since the Unix epoch.
\<close>

type_synonym bytes = string
type_synonym uuid = nat
type_synonym time = int

text \<open>
  Errors. The sentinels keep the names of the source; \<open>PqError\<close> carries the SQLSTATE code of
  a \<open>*pq.Error\<close>, \<open>DbError\<close> is a failed round trip to the database, \<open>OpError\<close> any other
  operational failure (named by its message). Contexts added with \<open>%w\<close> do not change what
  \<open>errors.Is\<close> answers and are not kept; \<open>Joined\<close> is \<open>errors.Join\<close>.
\<close>

datatype err =
    ErrInvalidEntry | ErrUnbalanced | ErrInsufficientFunds | ErrDuplicateEntry
  | ErrPaymentNotFound | ErrPaymentNotCancelable
  | ErrDenied | ErrVelocityExceeded | ErrSelfApproval | ErrUnknownApprover
  | ErrApprovalNotFound | ErrAlreadyApproved
  | ErrUnknownKey | ErrChainMismatch | ErrMalformedTx | ErrSpendLimitExceeded
  | ErrInvalidIntent | ErrUnsupportedAsset | ErrSignerRejected | ErrBroadcast
  | ErrNonceUnavailable | ErrGasEstimation | ErrGasCapExceeded | ErrFeeCapExceeded
  | ErrPoisonMessage | NotFound
  | ErrNoRows | PqError string | DbError | OpError string
  | Joined err err

fun errorsIs :: "err \<Rightarrow> err \<Rightarrow> bool" where
  "errorsIs (Joined a b) t \<longleftrightarrow> errorsIs a t \<or> errorsIs b t"
| "errorsIs e t \<longleftrightarrow> e = t"

type_synonym 'a result = "err + 'a"

subsection \<open>Fallible steps over a state\<close>

text \<open>
  \<open>chk m k\<close> is the Go idiom
  \<^verbatim>\<open>x, err := m; if err != nil { return err }; k(x)\<close>: the result of a step and the state it
  leaves, then the rest of the function. The state survives an error, because effects outside a
  transaction do.
\<close>

definition chk :: "('e + 'a) \<times> 'w \<Rightarrow> ('a \<Rightarrow> 'w \<Rightarrow> ('e + 'b) \<times> 'w) \<Rightarrow> ('e + 'b) \<times> 'w" where
  "chk m k = (case m of (Inl e, w) \<Rightarrow> (Inl e, w) | (Inr x, w) \<Rightarrow> k x w)"

lemma chk_simps [simp]:
  "chk (Inl e, w) k = (Inl e, w)"
  "chk (Inr x, w) k = k x w"
  by (simp_all add: chk_def)

lemma chk_okE [step_elims]:
  assumes "chk m k = (Inr y, w')"
  obtains x w1 where "m = (Inr x, w1)" "k x w1 = (Inr y, w')"
  using assms by (auto simp: chk_def split: prod.splits sum.splits)

lemma chk_errE:
  assumes "chk m k = (Inl e, w')"
  obtains "m = (Inl e, w')" | x w1 where "m = (Inr x, w1)" "k x w1 = (Inl e, w')"
  using assms by (auto simp: chk_def split: prod.splits sum.splits)

text \<open>An error rewritten on the way out, and the outcome of a step without its value.\<close>

definition map_err :: "(err \<Rightarrow> err) \<Rightarrow> 'a result \<times> 'w \<Rightarrow> 'a result \<times> 'w" where
  "map_err f r = (case r of (Inl e, w) \<Rightarrow> (Inl (f e), w) | (Inr x, w) \<Rightarrow> (Inr x, w))"

lemma map_err_ok [simp]: "map_err f r = (Inr x, w) \<longleftrightarrow> r = (Inr x, w)"
  by (auto simp: map_err_def split: prod.splits sum.splits)

definition outcome :: "'a result \<times> 'w \<Rightarrow> unit result" where
  "outcome r = (case fst r of Inl x \<Rightarrow> Inl x | Inr _ \<Rightarrow> Inr ())"

lemma outcome_simps [simp]:
  "outcome (Inl x, w) = Inl x" "outcome (Inr y, w) = Inr ()"
  by (simp_all add: outcome_def)

text \<open>The same idiom where \<open>sql.ErrNoRows\<close> is not a failure: \<open>k0\<close> then says how the function returns.\<close>

definition chk_found :: "'a result \<times> 'w \<Rightarrow> ('w \<Rightarrow> 'b result \<times> 'w) \<Rightarrow> ('a \<Rightarrow> 'w \<Rightarrow> 'b result \<times> 'w) \<Rightarrow> 'b result \<times> 'w" where
  "chk_found m k0 k =
     (case m of (Inl e, w) \<Rightarrow> if errorsIs e ErrNoRows then k0 w else (Inl e, w) | (Inr x, w) \<Rightarrow> k x w)"

lemma chk_found_simps [simp]:
  "chk_found (Inl e, w) k0 k = (if errorsIs e ErrNoRows then k0 w else (Inl e, w))"
  "chk_found (Inr x, w) k0 k = k x w"
  by (simp_all add: chk_found_def)

lemma chk_found_okE:
  assumes "chk_found m k0 k = (Inr y, w')"
  obtains (found) x w1 where "m = (Inr x, w1)" "k x w1 = (Inr y, w')"
  | (absent) e w1 where "m = (Inl e, w1)" "errorsIs e ErrNoRows" "k0 w1 = (Inr y, w')"
  using assms by (auto simp: chk_found_def split: prod.splits sum.splits if_splits)

text \<open>An early return on a pure check.\<close>

definition guard :: "bool \<Rightarrow> 'e \<Rightarrow> 'e + unit" where
  "guard b e = (if b then Inl e else Inr ())"

lemma guard_simps [simp]:
  "guard True e = Inl e" "guard False e = Inr ()"
  by (simp_all add: guard_def)

lemma guard_ok [simp]: "guard b e = Inr x \<longleftrightarrow> \<not> b"
  by (cases b) auto

lemma guard_err [simp]: "guard b e = Inl e' \<longleftrightarrow> b \<and> e' = e"
  by (cases b) auto

subsection \<open>Signed 64-bit integers\<close>

text \<open>
  An \<open>int64\<close> is an \<open>int\<close> within its bounds; \<open>+\<close> and \<open>-\<close> of the source are followed by
  \<open>wrap64\<close>, the reduction to two's complement.
\<close>

definition int64 :: "int \<Rightarrow> bool" where
  "int64 x \<longleftrightarrow> - 9223372036854775808 \<le> x \<and> x < 9223372036854775808"

definition wrap64 :: "int \<Rightarrow> int" where
  "wrap64 x = (x + 9223372036854775808) mod 18446744073709551616 - 9223372036854775808"

lemma wrap64_id [simp]: "int64 x \<Longrightarrow> wrap64 x = x"
  by (simp add: wrap64_def int64_def)

lemma wrap64_bounds: "int64 (wrap64 x)"
proof -
  have "0 \<le> (x + 9223372036854775808) mod 18446744073709551616"
    and "(x + 9223372036854775808) mod 18446744073709551616 < 18446744073709551616"
    by simp_all
  then show ?thesis by (simp add: wrap64_def int64_def)
qed

lemma wrap64_add_left [simp]: "wrap64 (wrap64 x + y) = wrap64 (x + y)"
proof -
  have "(((x + 9223372036854775808) mod 18446744073709551616 - 9223372036854775808 + y)
          + 9223372036854775808) mod 18446744073709551616
      = ((x + 9223372036854775808) mod 18446744073709551616 + y) mod 18446744073709551616"
    by (simp add: algebra_simps)
  also have "\<dots> = (x + y + 9223372036854775808) mod 18446744073709551616"
    by (simp add: mod_simps algebra_simps)
  finally show ?thesis by (simp add: wrap64_def)
qed

lemma wrap64_add_right [simp]: "wrap64 (x + wrap64 y) = wrap64 (x + y)"
  using wrap64_add_left [of y x] by (simp add: add.commute)

lemma wrap64_diff_left [simp]: "wrap64 (wrap64 x - y) = wrap64 (x - y)"
  using wrap64_add_left [of x "- y"] by simp

lemma wrap64_nonneg_iff:
  "- 9223372036854775808 \<le> x \<Longrightarrow> x < 18446744073709551616 \<Longrightarrow>
     0 \<le> wrap64 x \<longleftrightarrow> 0 \<le> x \<and> x < 9223372036854775808"
proof (cases "x < 9223372036854775808")
  case True
  assume "- 9223372036854775808 \<le> x"
  with True show ?thesis by (simp add: int64_def)
next
  case False
  assume "x < 18446744073709551616"
  with False have "(x + 9223372036854775808) mod 18446744073709551616
      = x + 9223372036854775808 - 18446744073709551616"
    by (auto simp: mod_pos_pos_trivial intro!: int_mod_pos_eq [where q = 1])
  with False \<open>x < 18446744073709551616\<close> show ?thesis by (simp add: wrap64_def)
qed

text \<open>The conversion to \<open>int32\<close>.\<close>

definition wrap32 :: "int \<Rightarrow> int" where
  "wrap32 x = (x + 2147483648) mod 4294967296 - 2147483648"

lemma wrap32_small: "0 \<le> x \<Longrightarrow> x < 2147483648 \<Longrightarrow> wrap32 x = x"
  by (simp add: wrap32_def)

subsection \<open>Decimal and hexadecimal text\<close>

definition digit :: "nat \<Rightarrow> char" where
  "digit d = ''0123456789abcdef'' ! (d mod 16)"

fun decimal :: "nat \<Rightarrow> string" where
  "decimal n = (if n < 10 then [digit n] else decimal (n div 10) @ [digit (n mod 10)])"

declare decimal.simps [simp del]

text \<open>The verb \<open>%d\<close> and \<open>strconv.Itoa\<close>.\<close>

definition itoa :: "int \<Rightarrow> string" where
  "itoa x = (if x < 0 then ''-'' @ decimal (nat (- x)) else decimal (nat x))"

text \<open>\<open>hex.EncodeToString\<close>.\<close>

definition hex_Encode :: "string \<Rightarrow> string" where
  "hex_Encode bs = concat (map (\<lambda>b. [digit (of_char b div 16), digit (of_char b mod 16)]) bs)"

subsection \<open>Go maps as association lists\<close>

text \<open>\<open>m[k]\<close> on a map with numeric values is 0 for an absent key.\<close>

definition get0 :: "('k \<times> int) list \<Rightarrow> 'k \<Rightarrow> int" where
  "get0 m k = (case map_of m k of None \<Rightarrow> 0 | Some v \<Rightarrow> v)"

lemma get0_simps [simp]:
  "get0 [] k = 0"
  "get0 ((k', v) # m) k = (if k = k' then v else get0 m k)"
  by (simp_all add: get0_def)

lemma get0_update [simp]:
  "get0 (AList.update k v m) k' = (if k' = k then v else get0 m k')"
  by (simp add: get0_def update_conv')

lemma set_keys_update [simp]:
  "fst ` set (AList.update k v m) = insert k (fst ` set m)"
  using dom_update [of k v m] by (simp add: dom_map_of_conv_image_fst)

lemma in_alist_get0: "distinct (map fst m) \<Longrightarrow> (k, v) \<in> set m \<Longrightarrow> get0 m k = v"
  by (simp add: get0_def)

lemma list_ex_alist:
  "distinct (map fst m) \<Longrightarrow> list_ex (\<lambda>(k, v). P v) m \<longleftrightarrow> (\<exists>k \<in> fst ` set m. P (get0 m k))"
  by (force simp: list_ex_iff in_alist_get0)

subsection \<open>Lists of rows\<close>

lemma sum_list_filter_split:
  "sum_list (map f xs) =
     sum_list (map f (filter P xs)) + sum_list (map f (filter (\<lambda>x. \<not> P x) xs))"
  for f :: "'a \<Rightarrow> 'b::comm_monoid_add"
  by (induction xs) (auto simp: ac_simps)

lemma find_Some_in: "List.find P xs = Some x \<Longrightarrow> x \<in> set xs \<and> P x"
  by (auto simp: find_Some_iff)

lemma find_by_key:
  assumes "distinct (map f xs)" "x \<in> set xs" "f x = k"
  shows "List.find (\<lambda>y. f y = k) xs = Some x"
  using assms by (induction xs) auto

lemma find_append:
  "List.find P (xs @ ys) = (case List.find P xs of Some x \<Rightarrow> Some x | None \<Rightarrow> List.find P ys)"
  by (induction xs) auto

lemma find_none_append [simp]:
  "List.find P xs = None \<Longrightarrow> List.find P (xs @ ys) = List.find P ys"
  by (simp add: find_append)

lemma sum_list_ge_member:
  "(\<And>x. x \<in> set xs \<Longrightarrow> 0 \<le> f x) \<Longrightarrow> x \<in> set xs \<Longrightarrow> f x \<le> sum_list (map f xs)"
  for f :: "'a \<Rightarrow> int"
proof (induction xs)
  case (Cons a xs)
  have "0 \<le> sum_list (map f xs)" 
    by (rule sum_list_nonneg) (use Cons.prems(1) in auto)
  with Cons show ?case by fastforce
qed simp

text \<open>Guarded updates of one row: the rows a statement's \<open>WHERE\<close> clause selects are replaced.\<close>

definition update_where :: "('a \<Rightarrow> bool) \<Rightarrow> ('a \<Rightarrow> 'a) \<Rightarrow> 'a list \<Rightarrow> 'a list" where
  "update_where P f xs = map (\<lambda>x. if P x then f x else x) xs"

lemma update_where_simps [simp]:
  "update_where P f [] = []"
  "update_where P f (x # xs) = (if P x then f x else x) # update_where P f xs"
  by (simp_all add: update_where_def)

lemma length_update_where [simp]: "length (update_where P f xs) = length xs"
  by (simp add: update_where_def)

lemma map_key_update_where [simp]:
  "(\<And>x. k (f x) = k x) \<Longrightarrow> map k (update_where P f xs) = map k xs"
  by (simp add: update_where_def)

lemma set_update_where:
  "set (update_where P f xs) = {x \<in> set xs. \<not> P x} \<union> f ` {x \<in> set xs. P x}"
  by (auto simp: update_where_def)

lemma update_where_none: "(\<And>x. x \<in> set xs \<Longrightarrow> \<not> P x) \<Longrightarrow> update_where P f xs = xs"
  by (induction xs) auto

subsection \<open>Big-endian bytes and joins\<close>

fun be_bytes :: "nat \<Rightarrow> nat \<Rightarrow> bytes" where
  "be_bytes 0 x = []"
| "be_bytes (Suc n) x = be_bytes n (x div 256) @ [char_of (x mod 256)]"

lemma length_be_bytes [simp]: "length (be_bytes n x) = n"
  by (induction n x rule: be_bytes.induct) simp_all

text \<open>Joining two tables on a key of the second gives at most one row per row of the first.\<close>

lemma distinct_join:
  assumes "distinct (map f xs)" "distinct (map g ys)" "\<And>x y. h (c x y) = f x"
  shows "distinct (map h (concat (map (\<lambda>x. map (c x) (filter (\<lambda>y. g y = k x) ys)) xs)))"
  using assms(1)
proof (induction xs)
  case (Cons x xs)
  have "length (filter (\<lambda>y. g y = k x) ys) \<le> 1"
    using assms(2) by (induction ys) (auto simp: filter_empty_conv image_iff)
  then have "distinct (map (\<lambda>y. f x) (filter (\<lambda>y. g y = k x) ys))"
    by (cases "filter (\<lambda>y. g y = k x) ys") auto
  then show ?case using Cons by (auto simp: assms(3) comp_def)
qed simp

end
