(* ===== verification/GoStd.thy ===== *)
theory GoStd
  imports Prelude "HOL-Library.Word"
begin

section \<open>The standard library: big integers, numerals and strings\<close>

text \<open>
  The functions of \<open>math/big\<close>, \<open>strconv\<close> and \<open>strings\<close> that signer, chain adapter, policy
  and configuration use. A \<open>*big.Int\<close> is an \<open>int\<close>, and an \<open>int option\<close> where the source
  tests it for nil; a \<open>uint64\<close> is a 64-bit word. Byte sequences are big-endian, as
  \<open>SetBytes\<close>, \<open>Bytes\<close> and \<open>FillBytes\<close> of the package read and write them.
\<close>

type_synonym uint64 = "64 word"

subsection \<open>Big-endian bytes\<close>

definition SetBytes :: "bytes \<Rightarrow> int" where
  "SetBytes bs = int (foldl (\<lambda>a b. 256 * a + of_char b) 0 bs)"

text \<open>\<open>FillBytes\<close> into a buffer of \<open>n\<close> bytes panics when the value does not fit.\<close>

definition FillBytes :: "nat \<Rightarrow> int \<Rightarrow> bytes option" where
  "FillBytes n x = (if \<bar>x\<bar> < 256 ^ n then Some (be_bytes n (nat \<bar>x\<bar>)) else None)"

text \<open>\<open>Bytes\<close>: the shortest big-endian encoding of the absolute value.\<close>

fun min_bytes :: "nat \<Rightarrow> bytes" where
  "min_bytes x = (if x = 0 then [] else min_bytes (x div 256) @ [char_of (x mod 256)])"

declare min_bytes.simps [simp del]

definition big_Bytes :: "int \<Rightarrow> bytes" where
  "big_Bytes x = min_bytes (nat \<bar>x\<bar>)"

fun bit_len :: "nat \<Rightarrow> nat" where
  "bit_len x = (if x = 0 then 0 else Suc (bit_len (x div 2)))"

declare bit_len.simps [simp del]

definition BitLen :: "int \<Rightarrow> nat" where
  "BitLen x = bit_len (nat \<bar>x\<bar>)"

lemma SetBytes_Nil [simp]: "SetBytes [] = 0"
  by (simp add: SetBytes_def)

lemma SetBytes_snoc [simp]: "SetBytes (bs @ [b]) = 256 * SetBytes bs + int (of_char b)"
  by (simp add: SetBytes_def)

lemma SetBytes_nonneg [simp]: "0 \<le> SetBytes bs"
  by (simp add: SetBytes_def)

lemma SetBytes_less: "SetBytes bs < 256 ^ length bs"
proof (induction bs rule: rev_induct)
  case (snoc b bs)
  have "(of_char b :: nat) < 256" by (metis of_char_mod_256 mod_less_divisor zero_less_numeral)
  then have "int (of_char b) < 256" by linarith
  moreover have "SetBytes (bs @ [b]) = 256 * SetBytes bs + int (of_char b)" by (rule SetBytes_snoc)
  ultimately have "SetBytes (bs @ [b]) < 256 * (256 ^ length bs)" using snoc by linarith
  then show ?case by simp
qed simp

lemma SetBytes_be_bytes: "SetBytes (be_bytes n x) = int (x mod 256 ^ n)"
proof (induction n x rule: be_bytes.induct)
  case (2 n x)
  have "x mod 256 ^ Suc n = 256 * (x div 256 mod 256 ^ n) + x mod 256"
    by (metis mod_mult2_eq power_Suc)
  with 2 show ?case by simp
qed simp

lemma SetBytes_FillBytes: "FillBytes n x = Some bs \<Longrightarrow> SetBytes bs = \<bar>x\<bar> \<and> length bs = n"
  by (auto simp: FillBytes_def SetBytes_be_bytes nat_less_iff split: if_splits)

lemma SetBytes_min_bytes: "SetBytes (min_bytes x) = int x"
proof (induction x rule: min_bytes.induct)
  case (1 x)
  show ?case
  proof (cases "x = 0")
    case False
    then have "SetBytes (min_bytes x) = int (256 * (x div 256) + x mod 256)"
      by (subst min_bytes.simps) (simp only: 1 [OF False] if_False SetBytes_snoc of_char_of of_nat_add of_nat_mult of_nat_numeral mod_mod_trivial)
    then show ?thesis by (simp only: mult_div_mod_eq)
  qed (simp add: min_bytes.simps)
qed

lemma SetBytes_big_Bytes [simp]: "SetBytes (big_Bytes x) = \<bar>x\<bar>"
  by (simp add: big_Bytes_def SetBytes_min_bytes)

lemma length_min_bytes: "x < 256 ^ n \<Longrightarrow> length (min_bytes x) \<le> n"
proof (induction n arbitrary: x)
  case 0
  then show ?case by (subst min_bytes.simps) simp
next
  case (Suc n)
  then have "x div 256 < 256 ^ n" by (simp add: less_mult_imp_div_less mult.commute)
  from Suc.IH [OF this] show ?case by (subst min_bytes.simps) simp
qed

lemma length_min_bytes_iff: "length (min_bytes x) \<le> n \<longleftrightarrow> x < 256 ^ n"
proof
  assume "length (min_bytes x) \<le> n"
  have "SetBytes (min_bytes x) < 256 ^ length (min_bytes x)" by (rule SetBytes_less)
  also have "\<dots> \<le> 256 ^ n" using \<open>length (min_bytes x) \<le> n\<close> by simp
  finally show "x < 256 ^ n"
    by (simp add: SetBytes_min_bytes)
qed (rule length_min_bytes)

lemma bit_len_le: "bit_len x \<le> n \<longleftrightarrow> x < 2 ^ n"
proof (induction n arbitrary: x)
  case 0
  then show ?case by (subst bit_len.simps) simp
next
  case (Suc n)
  show ?case by (subst bit_len.simps) (use Suc [of "x div 2"] in auto)
qed

lemma BitLen_le: "BitLen x \<le> n \<longleftrightarrow> \<bar>x\<bar> < 2 ^ n"
  unfolding BitLen_def bit_len_le by (metis abs_ge_zero int_nat_eq nat_less_numeral_power_cancel_iff of_nat_less_numeral_power_cancel_iff)

text \<open>A uint256: what fits 256 bits is what fits 32 bytes.\<close>

lemma BitLen_256: "BitLen x \<le> 256 \<longleftrightarrow> length (big_Bytes x) \<le> 32"
  unfolding BitLen_def bit_len_le big_Bytes_def length_min_bytes_iff by simp

lemma BitLen_SetBytes: "length bs \<le> 32 \<Longrightarrow> BitLen (SetBytes bs) \<le> 256"
proof -
  assume le: "length bs \<le> 32"
  have "SetBytes bs < 256 ^ length bs" by (rule SetBytes_less)
  also have "\<dots> \<le> 256 ^ 32" using le by (intro power_increasing) simp_all
  finally show ?thesis unfolding BitLen_le by simp
qed

subsection \<open>Decimal numerals\<close>

definition digit_val :: "char \<Rightarrow> nat option" where
  "digit_val c = (if 48 \<le> (of_char c :: nat) \<and> (of_char c :: nat) \<le> 57 then Some (of_char c - 48) else None)"

fun digits_val :: "nat \<Rightarrow> string \<Rightarrow> nat option" where
  "digits_val a [] = Some a"
| "digits_val a (c # cs) = (case digit_val c of None \<Rightarrow> None | Some d \<Rightarrow> digits_val (10 * a + d) cs)"

definition unsigned :: "string \<Rightarrow> nat option" where
  "unsigned s = (if s = [] then None else digits_val 0 s)"

text \<open>\<open>SetString(s, 10)\<close> of \<open>math/big\<close>: an optional sign and at least one decimal digit.\<close>

definition SetString :: "string \<Rightarrow> int option" where
  "SetString s =
     (case s of [] \<Rightarrow> None
      | c # cs \<Rightarrow>
          if c = CHR ''-'' then map_option (\<lambda>n. - int n) (unsigned cs)
          else if c = CHR ''+'' then map_option int (unsigned cs)
          else map_option int (unsigned s))"

text \<open>\<open>strconv.Atoi\<close> and \<open>strconv.ParseUint(s, 10, 64)\<close>.\<close>

definition Atoi :: "string \<Rightarrow> int option" where
  "Atoi s = (case SetString s of None \<Rightarrow> None | Some x \<Rightarrow> if int64 x then Some x else None)"

definition ParseUint :: "string \<Rightarrow> uint64 option" where
  "ParseUint s = (case unsigned s of None \<Rightarrow> None
     | Some n \<Rightarrow> if n < 18446744073709551616 then Some (of_nat n) else None)"

lemma digit_val_digit: "d < 10 \<Longrightarrow> digit_val (digit d) = Some d"
proof -
  assume "d < 10"
  then have "d \<in> {0,1,2,3,4,5,6,7,8,9}" by auto
  then show ?thesis by (auto simp: digit_def digit_val_def)
qed

lemma digits_val_append:
  "digits_val a (s @ t) = (case digits_val a s of None \<Rightarrow> None | Some b \<Rightarrow> digits_val b t)"
  by (induction a s rule: digits_val.induct) (auto split: option.splits)

lemma digits_val_decimal: "digits_val 0 (decimal n) = Some n"
proof (induction n rule: decimal.induct)
  case (1 n)
  show ?case
    by (subst decimal.simps) (use 1 in \<open>auto simp: digits_val_append digit_val_digit\<close>)
qed

lemma decimal_nonempty [simp]: "decimal n \<noteq> []"
  by (subst decimal.simps) simp

lemma unsigned_decimal [simp]: "unsigned (decimal n) = Some n"
  by (simp add: unsigned_def digits_val_decimal)

lemma decimal_head: "\<exists>d cs. d < 10 \<and> decimal n = digit d # cs"
proof (induction n rule: decimal.induct)
  case (1 n)
  show ?case
  proof (cases "n < 10")
    case True
    then show ?thesis by (subst decimal.simps) auto
  next
    case False
    with 1 obtain d cs where "d < 10" "decimal (n div 10) = digit d # cs" by blast
    with False show ?thesis by (subst decimal.simps) auto
  qed
qed

lemma digit_not_sign: "d < 10 \<Longrightarrow> digit d \<noteq> CHR ''-'' \<and> digit d \<noteq> CHR ''+''"
proof -
  assume "d < 10"
  then have "d \<in> {0,1,2,3,4,5,6,7,8,9}" by auto
  then show ?thesis by (auto simp: digit_def)
qed

lemma SetString_itoa: "SetString (itoa x) = Some x"
proof (cases "x < 0")
  case False
  obtain d cs where d: "d < 10" "decimal (nat x) = digit d # cs" using decimal_head by blast
  have "unsigned (digit d # cs) = Some (nat x)" using unsigned_decimal [of "nat x"] d by simp
  with d False digit_not_sign [OF d(1)] show ?thesis by (simp add: itoa_def SetString_def)
qed (simp add: itoa_def SetString_def)

subsection \<open>Strings\<close>

text \<open>
  White space of \<open>strings.TrimSpace\<close>: the six ASCII characters and the UTF-8 encodings of the other
  code points of \<open>unicode.IsSpace\<close>.
\<close>

definition spaces :: "string list" where
  "spaces = [[CHR 0x09], [CHR 0x0A], [CHR 0x0B], [CHR 0x0C], [CHR 0x0D], [CHR 0x20],
     [CHR 0xC2, CHR 0x85], [CHR 0xC2, CHR 0xA0], [CHR 0xE1, CHR 0x9A, CHR 0x80]] @
     map (\<lambda>b. [CHR 0xE2, CHR 0x80, b]) [CHR 0x80, CHR 0x81, CHR 0x82, CHR 0x83, CHR 0x84, CHR 0x85, CHR 0x86, CHR 0x87,
       CHR 0x88, CHR 0x89, CHR 0x8A, CHR 0xA8, CHR 0xA9, CHR 0xAF] @
     [[CHR 0xE2, CHR 0x81, CHR 0x9F], [CHR 0xE3, CHR 0x80, CHR 0x80]]"

definition HasPrefix :: "string \<Rightarrow> string \<Rightarrow> bool" where
  "HasPrefix s p \<longleftrightarrow> take (length p) s = p"

definition TrimPrefix :: "string \<Rightarrow> string \<Rightarrow> string" where
  "TrimPrefix s p = (if HasPrefix s p then drop (length p) s else s)"

function trim_left :: "string list \<Rightarrow> string \<Rightarrow> string" where
  "trim_left ws s = (case List.find (\<lambda>p. p \<noteq> [] \<and> HasPrefix s p) ws of
     None \<Rightarrow> s | Some p \<Rightarrow> trim_left ws (drop (length p) s))"
  by pat_completeness auto

termination
proof (relation "measure (\<lambda>(ws, s). length s)")
  fix ws s p
  assume "List.find (\<lambda>p. p \<noteq> [] \<and> HasPrefix s p) ws = Some p"
  then have "p \<noteq> []" "take (length p) s = p" by (auto dest: find_Some_in simp: HasPrefix_def)
  then have "0 < length p" "s \<noteq> []" by auto
  then show "((ws, drop (length p) s), (ws, s)) \<in> measure (\<lambda>(ws, s). length s)" by simp
qed simp

declare trim_left.simps [simp del]

definition TrimSpace :: "string \<Rightarrow> string" where
  "TrimSpace s = rev (trim_left (map rev spaces) (rev (trim_left spaces s)))"

text \<open>\<open>strings.Split\<close> on a one-byte separator.\<close>

fun split_on :: "char \<Rightarrow> string \<Rightarrow> string list" where
  "split_on c [] = [[]]"
| "split_on c (x # xs) = (if x = c then [] # split_on c xs
     else (case split_on c xs of [] \<Rightarrow> [[x]] | s # ss \<Rightarrow> (x # s) # ss))"

end
