(* ===== verification/Database.thy ===== *)
theory Database
  imports Prelude
begin

section \<open>The database: rows, tables, round trips and transactions\<close>

text \<open>
  The rows of \<open>internal/db/models.go\<close>, the state every service works on, and the two ways the
  code touches it: a single statement (\<open>query\<close>) and a transaction (\<open>ExecTx\<close> of
  \<open>internal/ledger/store_sql.go\<close>).

  Everything the outside world chooses is in the record \<open>env\<close>: which round trips fail, the
  random identifiers, the clock, and the functions of third-party packages. All theorems hold for
  every \<open>env\<close>; what a theorem needs of it is a hypothesis of that theorem. \<open>tick\<close> counts the
  interactions with the outside, so that each of them can have a different answer.
\<close>

subsection \<open>Rows\<close>

record Account =
  acc_id :: uuid
  acc_name :: string
  acc_kind :: string
  acc_asset :: string
  acc_status :: string
  acc_created :: time

record JournalEntry =
  je_id :: uuid
  je_kind :: string
  je_ref :: string
  je_asset :: string
  je_created :: time

record EntryLine =
  el_id :: nat
  el_entry :: uuid
  el_account :: uuid
  el_direction :: string
  el_amount :: int

record Payment =
  pay_id :: uuid
  pay_status :: string
  pay_asset :: string
  pay_amount :: int
  pay_source :: uuid
  pay_dest :: uuid
  pay_entry :: uuid
  pay_reversal :: "uuid option"
  pay_created :: time
  pay_canceled :: "time option"

record IdempotencyKey =
  ik_key :: string
  ik_hash :: bytes
  ik_status :: string
  ik_resp_status :: "int option"
  ik_resp_body :: bytes
  ik_payment :: "uuid option"
  ik_created :: time
  ik_completed :: "time option"

record Settlement =
  st_id :: uuid
  st_payment :: uuid
  st_tx :: string
  st_status :: string
  st_entry :: "uuid option"
  st_created :: time
  st_updated :: time
  st_block_hash :: "string option"
  st_block_number :: "int option"

record Outbox =
  ob_id :: uuid
  ob_type :: string
  ob_aggregate :: string
  ob_payload :: bytes
  ob_created :: time
  ob_sent :: "time option"

record AuditLog =
  al_seq :: int
  al_prev :: bytes
  al_hash :: bytes
  al_actor :: string
  al_action :: string
  al_agg_type :: string
  al_agg_id :: string
  al_occurred :: time
  al_payload :: bytes

record PaymentApproval =
  ap_id :: uuid
  ap_to :: string
  ap_amount :: int
  ap_asset :: string
  ap_key :: string
  ap_payment :: "uuid option"
  ap_proposer :: string
  ap_approver :: "string option"
  ap_status :: string
  ap_tx :: "string option"
  ap_created :: time

record VelocityEvent =
  ve_id :: uuid
  ve_key :: string
  ve_amount :: int
  ve_occurred :: time

record WebhookSubscription =
  ws_id :: uuid
  ws_url :: string
  ws_types :: "string list"
  ws_secret :: string
  ws_active :: bool
  ws_created :: time

record WebhookDelivery =
  wd_id :: uuid
  wd_event :: uuid
  wd_sub :: uuid
  wd_type :: string
  wd_payload :: bytes
  wd_status :: string
  wd_attempts :: int
  wd_next :: time
  wd_code :: "int option"
  wd_error :: "string option"
  wd_created :: time
  wd_updated :: time

text \<open>The tables of \<open>db/migrations\<close>, each a list of rows in insertion order.\<close>

record tables =
  accounts :: "Account list"
  journal :: "JournalEntry list"
  elines :: "EntryLine list"
  payments :: "Payment list"
  idem :: "IdempotencyKey list"
  settlements :: "Settlement list"
  outbox :: "Outbox list"
  audit :: "AuditLog list"
  approvals :: "PaymentApproval list"
  velocity :: "VelocityEvent list"
  subscriptions :: "WebhookSubscription list"
  deliveries :: "WebhookDelivery list"

subsection \<open>The outside world\<close>

text \<open>
  A JSON document as the struct tags of the source build it (\<open>encoding/json\<close>); its text is
  \<open>json_Marshal\<close> of the environment.
\<close>

datatype json = JString string | JNumber int | JTime time | JArray "json list" | JObject "(string \<times> json) list"

text \<open>A Kafka message (\<open>internal/outbox/producer.go\<close>) and a webhook request on the wire.\<close>

record Message =
  msg_key :: bytes
  msg_value :: bytes

record Post =
  po_url :: string
  po_body :: bytes
  po_sig :: string
  po_event :: string
  po_attempt :: int

record env =
  fault :: "nat \<Rightarrow> bool"
  fresh :: "nat \<Rightarrow> nat \<Rightarrow> uuid"
  clock :: "nat \<Rightarrow> time"
  uuid_String :: "uuid \<Rightarrow> string"
  uuid_Parse :: "string \<Rightarrow> uuid option"
  json_Marshal :: "json \<Rightarrow> bytes result"
  jsonb :: "bytes \<Rightarrow> bytes option"
  sha256 :: "bytes \<Rightarrow> bytes"
  timestamptz :: "time \<Rightarrow> time"
  locked :: "nat \<Rightarrow> uuid \<Rightarrow> bool"
  kafka_lost :: "nat \<Rightarrow> (nat \<Rightarrow> bool) option"

record world =
  db :: tables
  tick :: nat
  started :: "time option"
  topic :: "Message list"
  posts :: "Post list"

subsection \<open>One round trip\<close>

text \<open>
  A statement draws tick \<open>n\<close>; it fails as a whole when the connection does, and otherwise
  computes its result and the new tables, or the error the server answers with. \<open>fresh E n i\<close> is
  the random uuid of the \<open>i\<close>-th row the statement inserts. The server's \<open>now()\<close> is the start of
  the open transaction (\<open>started\<close>), or the statement's own time outside of one.
\<close>

definition pg_now :: "env \<Rightarrow> world \<Rightarrow> time" where
  "pg_now E w = (case started w of None \<Rightarrow> clock E (tick w) | Some t \<Rightarrow> t)"

definition query :: "env \<Rightarrow> (nat \<Rightarrow> time \<Rightarrow> tables \<Rightarrow> ('a \<times> tables) result) \<Rightarrow> world \<Rightarrow> 'a result \<times> world" where
  "query E f w =
     (if fault E (tick w) then (Inl DbError, w\<lparr>tick := Suc (tick w)\<rparr>)
      else case f (tick w) (pg_now E w) (db w) of
             Inl e \<Rightarrow> (Inl e, w\<lparr>tick := Suc (tick w)\<rparr>)
           | Inr (x, t) \<Rightarrow> (Inr x, w\<lparr>db := t, tick := Suc (tick w)\<rparr>))"

lemma query_okE [step_elims]:
  assumes "query E f w = (Inr x, w')"
  obtains t where "\<not> fault E (tick w)" "f (tick w) (pg_now E w) (db w) = Inr (x, t)"
    "w' = w\<lparr>db := t, tick := Suc (tick w)\<rparr>"
  using assms by (auto simp: query_def split: if_splits sum.splits)

lemma query_Inr:
  "query E f w = (Inr x, w') \<longleftrightarrow> \<not> fault E (tick w) \<and>
     (\<exists>t. f (tick w) (pg_now E w) (db w) = Inr (x, t) \<and> w' = w\<lparr>db := t, tick := Suc (tick w)\<rparr>)"
  by (auto simp: query_def split: sum.splits)

lemma if_Inl_Inr: "(if b then Inl e else r) = Inr x \<longleftrightarrow> \<not> b \<and> r = Inr x"
  by simp

lemmas statement_Inr = query_Inr Let_def if_Inl_Inr sum.inject prod.inject

lemma query_err_db: "query E f w = (Inl e, w') \<Longrightarrow> db w' = db w"
  by (auto simp: query_def split: if_splits sum.splits)

lemma query_no_fault:
  "\<not> fault E (tick w) \<Longrightarrow> f (tick w) (pg_now E w) (db w) = Inr (x, t) \<Longrightarrow>
     query E f w = (Inr x, w\<lparr>db := t, tick := Suc (tick w)\<rparr>)"
  by (simp add: query_def)

text \<open>Go's own draws: \<open>uuid.New()\<close> and \<open>time.Now()\<close>.\<close>

definition uuid_New :: "env \<Rightarrow> world \<Rightarrow> uuid \<times> world" where
  "uuid_New E w = (fresh E (tick w) 0, w\<lparr>tick := Suc (tick w)\<rparr>)"

definition time_Now :: "env \<Rightarrow> world \<Rightarrow> time \<times> world" where
  "time_Now E w = (clock E (tick w), w\<lparr>tick := Suc (tick w)\<rparr>)"

text \<open>What no statement touches: the open transaction and the logs outside the database.\<close>

definition same_outside :: "world \<Rightarrow> world \<Rightarrow> bool" where
  "same_outside w w' \<longleftrightarrow> started w' = started w \<and> topic w' = topic w \<and> posts w' = posts w"

lemma same_outside_refl [simp]: "same_outside w w"
  by (simp add: same_outside_def)

lemma same_outside_trans [trans]: "same_outside u v \<Longrightarrow> same_outside v w \<Longrightarrow> same_outside u w"
  by (simp add: same_outside_def)

lemma same_outside_upd [simp]:
  "same_outside w (w'\<lparr>tick := n\<rparr>) \<longleftrightarrow> same_outside w w'"
  "same_outside w (w'\<lparr>db := t\<rparr>) \<longleftrightarrow> same_outside w w'"
  by (simp_all add: same_outside_def)

lemma query_same_outside: "same_outside w (snd (query E f w))"
  by (auto simp: query_def split: sum.splits)

lemma pg_now_started: "started w = Some s \<Longrightarrow> pg_now E w = s"
  by (simp add: pg_now_def)

text \<open>Statements that only read.\<close>

definition reading :: "env \<Rightarrow> (tables \<Rightarrow> 'a result) \<Rightarrow> world \<Rightarrow> 'a result \<times> world" where
  "reading E f = query E (\<lambda>n now t. case f t of Inl e \<Rightarrow> Inl e | Inr x \<Rightarrow> Inr (x, t))"

lemma reading_okE [step_elims]:
  assumes "reading E f w = (Inr x, w')"
  obtains "\<not> fault E (tick w)" "f (db w) = Inr x" "w' = w\<lparr>tick := Suc (tick w)\<rparr>"
  using assms by (auto simp: reading_def elim!: query_okE split: sum.splits)

lemma reading_db: "db (snd (reading E f w)) = db w"
  by (auto simp: reading_def query_def split: sum.splits)

lemma reading_err: "reading E f w = (Inl e, w') \<Longrightarrow> w' = w\<lparr>tick := Suc (tick w)\<rparr>"
  by (auto simp: reading_def query_def split: if_splits sum.splits)

text \<open>An environment in which no round trip fails.\<close>

definition no_faults :: "env \<Rightarrow> bool" where
  "no_faults E \<longleftrightarrow> (\<forall>n. \<not> fault E n)"

lemma reading_run:
  "no_faults E \<Longrightarrow> reading E f w = (f (db w), w\<lparr>tick := Suc (tick w)\<rparr>)"
  by (auto simp: reading_def query_def no_faults_def split: sum.splits)

text \<open>The answer to a \<open>:one\<close> query: the row, or \<open>sql.ErrNoRows\<close>.\<close>

definition one_row :: "'a option \<Rightarrow> 'a result" where
  "one_row r = (case r of None \<Rightarrow> Inl ErrNoRows | Some x \<Rightarrow> Inr x)"

lemma one_row_simps [simp]:
  "one_row None = Inl ErrNoRows" "one_row (Some x) = Inr x"
  "one_row r = Inr x \<longleftrightarrow> r = Some x"
  by (auto simp: one_row_def split: option.splits)

text \<open>Violated constraints, by their SQLSTATE codes: unique, foreign key, check, out of range.\<close>

abbreviation unique_violation :: err where "unique_violation \<equiv> PqError ''23505''"
abbreviation foreign_key_violation :: err where "foreign_key_violation \<equiv> PqError ''23503''"
abbreviation check_violation :: err where "check_violation \<equiv> PqError ''23514''"
abbreviation numeric_out_of_range :: err where "numeric_out_of_range \<equiv> PqError ''22003''"
abbreviation invalid_json_text :: err where "invalid_json_text \<equiv> PqError ''22P02''"

subsection \<open>Transactions\<close>

text \<open>
  \<open>SQLStore.ExecTx\<close>: BEGIN, the closure, then COMMIT, or ROLLBACK when the closure returned an
  error. Either way the server keeps the tables as they were unless the COMMIT succeeds; effects of
  the closure outside the database (\<open>topic\<close>, \<open>posts\<close>) stay. A failed rollback is joined onto the
  closure's error.
\<close>

definition tx_begin :: "env \<Rightarrow> world \<Rightarrow> world" where
  "tx_begin E w = w\<lparr>tick := Suc (tick w), started := Some (clock E (tick w))\<rparr>"

definition tx_end :: "world \<Rightarrow> world" where
  "tx_end w = w\<lparr>tick := Suc (tick w), started := None\<rparr>"

lemma tx_begin_simps [simp]:
  "db (tx_begin E w) = db w" "tick (tx_begin E w) = Suc (tick w)"
  "started (tx_begin E w) = Some (clock E (tick w))"
  "topic (tx_begin E w) = topic w" "posts (tx_begin E w) = posts w"
  by (simp_all add: tx_begin_def)

lemma tx_end_simps [simp]:
  "db (tx_end w) = db w" "tick (tx_end w) = Suc (tick w)" "started (tx_end w) = None"
  "topic (tx_end w) = topic w" "posts (tx_end w) = posts w"
  by (simp_all add: tx_end_def)

definition ExecTx :: "env \<Rightarrow> (world \<Rightarrow> 'a result \<times> world) \<Rightarrow> world \<Rightarrow> 'a result \<times> world" where
  "ExecTx E fn w =
     (if fault E (tick w) then (Inl DbError, w\<lparr>tick := Suc (tick w)\<rparr>)
      else case fn (tx_begin E w) of
             (Inl e, w2) \<Rightarrow>
               (Inl (if fault E (tick w2) then Joined e DbError else e),
                (tx_end w2)\<lparr>db := db w\<rparr>)
           | (Inr x, w2) \<Rightarrow>
               if fault E (tick w2) then (Inl DbError, (tx_end w2)\<lparr>db := db w\<rparr>)
               else (Inr x, tx_end w2))"

text \<open>
  What \<open>ledger.Store\<close> promises its clients: a transaction that reports an error leaves the tables
  as they were, and one that succeeds leaves what its closure left.
\<close>

locale tx_store =
  fixes exec :: "('w \<Rightarrow> 'a result \<times> 'w) \<Rightarrow> 'w \<Rightarrow> 'a result \<times> 'w"
    and tbl :: "'w \<Rightarrow> tables"
  assumes exec_err: "exec fn w = (Inl e, w') \<Longrightarrow> tbl w' = tbl w"
    and exec_ok: "exec fn w = (Inr x, w') \<Longrightarrow>
      \<exists>w1 w2. tbl w1 = tbl w \<and> fn w1 = (Inr x, w2) \<and> tbl w' = tbl w2"
begin

lemma exec_okE:
  assumes "exec fn w = (Inr x, w')"
  obtains w1 w2 where "tbl w1 = tbl w" "fn w1 = (Inr x, w2)" "tbl w' = tbl w2"
  using exec_ok [OF assms] by blast

lemma exec_invariant:
  assumes "\<And>w1 x w2. I (tbl w1) \<Longrightarrow> fn w1 = (Inr x, w2) \<Longrightarrow> I (tbl w2)"
    and "I (tbl w)"
  shows "I (tbl (snd (exec fn w)))"
proof (cases "fst (exec fn w)")
  case (Inl e)
  then have "exec fn w = (Inl e, snd (exec fn w))" by (cases "exec fn w") simp
  then show ?thesis using exec_err assms(2) by simp
next
  case (Inr x)
  then have "exec fn w = (Inr x, snd (exec fn w))" by (cases "exec fn w") simp
  then show ?thesis using assms by (metis exec_ok)
qed

end

interpretation sql: tx_store "ExecTx E" db for E
proof unfold_locales
  fix fn :: "world \<Rightarrow> 'a result \<times> world" and w w' :: world and e and x
  show "ExecTx E fn w = (Inl e, w') \<Longrightarrow> db w' = db w"
    by (auto simp: ExecTx_def split: if_splits sum.splits prod.splits)
  show "ExecTx E fn w = (Inr x, w') \<Longrightarrow>
      \<exists>w1 w2. db w1 = db w \<and> fn w1 = (Inr x, w2) \<and> db w' = db w2"
    by (rule exI [of _ "tx_begin E w"])
      (auto simp: ExecTx_def split: if_splits sum.splits prod.splits)
qed

lemma ExecTx_run:
  assumes "\<not> fault E (tick w)" "fn (tx_begin E w) = (Inr x, w2)" "\<not> fault E (tick w2)"
  shows "ExecTx E fn w = (Inr x, tx_end w2)"
  using assms by (simp add: ExecTx_def)

text \<open>The error of a failed transaction answers \<open>errors.Is\<close> as the closure's error does.\<close>

lemma ExecTx_error:
  assumes "ExecTx E fn w = (Inl e, w')"
  shows "e = DbError \<or> (\<exists>e0 w2. fn (tx_begin E w) = (Inl e0, w2) \<and>
           (\<forall>t. errorsIs e0 t \<longrightarrow> errorsIs e t))"
  using assms by (force simp: ExecTx_def split: if_splits sum.splits prod.splits)

text \<open>Where a transaction can end, and what each end leaves.\<close>

lemma ExecTx_cases:
  assumes "ExecTx E fn w = (r, w')"
  obtains (no_begin) "r = Inl DbError" "db w' = db w" "topic w' = topic w" "posts w' = posts w"
  | (failed) e e' w2 where "fn (tx_begin E w) = (Inl e, w2)" "r = Inl e'" "db w' = db w"
      "topic w' = topic w2" "posts w' = posts w2" "\<forall>t. errorsIs e t \<longrightarrow> errorsIs e' t"
  | (no_commit) x w2 where "fn (tx_begin E w) = (Inr x, w2)" "r = Inl DbError" "db w' = db w"
      "topic w' = topic w2" "posts w' = posts w2"
  | (committed) x w2 where "fn (tx_begin E w) = (Inr x, w2)" "r = Inr x" "w' = tx_end w2"
proof (cases "fault E (tick w)")
  case True
  then have "r = Inl DbError" "w' = w\<lparr>tick := Suc (tick w)\<rparr>"
    using assms by (simp_all add: ExecTx_def)
  then show thesis by (intro no_begin) simp_all
next
  case nf: False
  obtain c w2 where fn: "fn (tx_begin E w) = (c, w2)" by (rule prod.exhaust)
  show thesis
  proof (cases c)
    case (Inl e)
    then have "r = Inl (if fault E (tick w2) then Joined e DbError else e)" "w' = (tx_end w2)\<lparr>db := db w\<rparr>"
      using assms nf fn by (simp_all add: ExecTx_def)
    with fn Inl show thesis
      by (intro failed [of e w2 "if fault E (tick w2) then Joined e DbError else e"]) simp_all
  next
    case (Inr x)
    show thesis
    proof (cases "fault E (tick w2)")
      case True
      then have "r = Inl DbError" "w' = (tx_end w2)\<lparr>db := db w\<rparr>"
        using assms nf fn Inr by (simp_all add: ExecTx_def)
      with fn Inr show thesis by (intro no_commit [of x w2]) simp_all
    next
      case False
      then have "r = Inr x" "w' = tx_end w2"
        using assms nf fn Inr by (simp_all add: ExecTx_def)
      with fn Inr show thesis by (intro committed [of x w2]) simp_all
    qed
  qed
qed

text \<open>
  The same boundary as the stores of \<open>cmd/paymentrailctl\<close> write it: BEGIN, a deferred ROLLBACK whose
  error is ignored, and COMMIT at the end.
\<close>

definition tx_scope :: "env \<Rightarrow> (world \<Rightarrow> 'a result \<times> world) \<Rightarrow> world \<Rightarrow> 'a result \<times> world" where
  "tx_scope E fn w =
     (if fault E (tick w) then (Inl DbError, w\<lparr>tick := Suc (tick w)\<rparr>)
      else case fn (tx_begin E w) of
             (Inl e, w2) \<Rightarrow> (Inl e, (tx_end w2)\<lparr>db := db w\<rparr>)
           | (Inr x, w2) \<Rightarrow>
               if fault E (tick w2) then (Inl DbError, (tx_end w2)\<lparr>db := db w\<rparr>)
               else (Inr x, tx_end w2))"

interpretation pool: tx_store "tx_scope E" db for E
proof unfold_locales
  fix fn :: "world \<Rightarrow> 'a result \<times> world" and w w' :: world and e and x
  show "tx_scope E fn w = (Inl e, w') \<Longrightarrow> db w' = db w"
    by (auto simp: tx_scope_def split: if_splits sum.splits prod.splits)
  show "tx_scope E fn w = (Inr x, w') \<Longrightarrow>
      \<exists>w1 w2. db w1 = db w \<and> fn w1 = (Inr x, w2) \<and> db w' = db w2"
    by (rule exI [of _ "tx_begin E w"])
      (auto simp: tx_scope_def split: if_splits sum.splits prod.splits)
qed

lemma tx_scope_ok:
  "tx_scope E fn w = (Inr x, w') \<longleftrightarrow> \<not> fault E (tick w) \<and>
     (\<exists>w2. fn (tx_begin E w) = (Inr x, w2) \<and> \<not> fault E (tick w2) \<and> w' = tx_end w2)"
  by (auto simp: tx_scope_def split: sum.splits prod.splits)

lemma tx_scope_err:
  "tx_scope E fn w = (Inl e, w') \<Longrightarrow> db w' = db w \<and>
     (e = DbError \<or> (\<exists>w2. fn (tx_begin E w) = (Inl e, w2)))"
  by (auto simp: tx_scope_def split: if_splits sum.splits prod.splits)

subsection \<open>A concrete environment\<close>

text \<open>
  An instance of the parameters on which the theorems are exercised: nothing fails, identifiers
  count up from 1000, a uuid prints as that many marks, JSON is rendered by a small printer, and the
  32-byte hash keeps one byte of its input (where an audit preimage has the low byte of its seq).
\<close>

fun render :: "json \<Rightarrow> bytes" where
  "render (JString s) = ''\"'' @ s @ ''\"''"
| "render (JNumber n) = replicate (nat n) (CHR ''1'')"
| "render (JTime n) = replicate (nat n) (CHR ''t'')"
| "render (JArray []) = ''[]''"
| "render (JArray (v # vs)) = ''<'' @ render v @ ''>'' @ render (JArray vs)"
| "render (JObject []) = ''{}''"
| "render (JObject ((k, v) # kvs)) = ''('' @ k @ '':'' @ render v @ '')'' @ render (JObject kvs)"

definition env0 :: env where
  "env0 = \<lparr>fault = (\<lambda>n. False), fresh = (\<lambda>n i. 1000 + 10 * n + i), clock = (\<lambda>n. 1000 * int n),
           uuid_String = (\<lambda>i. replicate i (CHR ''u'')),
           uuid_Parse = (\<lambda>s. if list_all (\<lambda>c. c = CHR ''u'') s then Some (length s) else None),
           json_Marshal = (\<lambda>j. Inr (render j)), jsonb = Some,
           sha256 = (\<lambda>b. replicate 31 (CHR 0x00) @ [if 39 < length b then b ! 39 else CHR 0x00]),
           timestamptz = (\<lambda>t. t), locked = (\<lambda>n i. False), kafka_lost = (\<lambda>n. None)\<rparr>"

lemma env0_simps [simp]:
  "fault env0 n = False" "fresh env0 n i = 1000 + 10 * n + i" "clock env0 n = 1000 * int n"
  "uuid_String env0 i = replicate i (CHR ''u'')" "json_Marshal env0 j = Inr (render j)"
  "jsonb env0 = Some" "timestamptz env0 t = t" "locked env0 n i = False" "kafka_lost env0 n = None"
  by (simp_all add: env0_def)

lemma no_faults0: "no_faults env0"
  by (simp add: no_faults_def)

definition no_tables :: tables where
  "no_tables = \<lparr>accounts = [], journal = [], elines = [], payments = [], idem = [], settlements = [],
     outbox = [], audit = [], approvals = [], velocity = [], subscriptions = [], deliveries = []\<rparr>"

definition idle :: "tables \<Rightarrow> world" where
  "idle t = \<lparr>db = t, tick = 0, started = None, topic = [], posts = []\<rparr>"

lemma idle_simps [simp]:
  "db (idle t) = t" "tick (idle t) = 0" "started (idle t) = None" "topic (idle t) = []"
  "posts (idle t) = []"
  by (simp_all add: idle_def)

end
