(* ===== verification/Frames.thy ===== *)
theory Frames
  imports Database
begin

section \<open>Frames\<close>

text \<open>
  A frame is a reflexive and transitive relation that every statement of an operation respects,
  from the tables it starts with to the tables it leaves; it then holds of the whole operation, on
  every path and in every environment. The locale collects the rules once for any such relation.
\<close>

named_theorems frames \<open>frame rules and the frames of statements and operations\<close>

definition frame :: "(tables \<Rightarrow> tables \<Rightarrow> bool) \<Rightarrow> (world \<Rightarrow> 'a \<times> world) \<Rightarrow> bool" where
  "frame R m \<longleftrightarrow> (\<forall>w. R (db w) (db (snd (m w))))"

lemma frameD: "frame R m \<Longrightarrow> m w = (r, w') \<Longrightarrow> R (db w) (db w')"
  unfolding frame_def by (drule spec [of _ w]) simp

lemma frame_snd: "frame R m \<Longrightarrow> R (db w) (db (snd (m w)))"
  unfolding frame_def by blast

locale table_order =
  fixes R :: "tables \<Rightarrow> tables \<Rightarrow> bool"
  assumes R_refl: "R t t" and R_trans: "R t u \<Longrightarrow> R u v \<Longrightarrow> R t v"
begin

lemma frame_query:
  assumes "\<And>n now t x t'. f n now t = Inr (x, t') \<Longrightarrow> R t t'"
  shows "frame R (query E f)"
  using assms R_refl by (auto simp: frame_def query_def split: sum.splits)

lemma frame_reading [frames]: "frame R (reading E f)"
  by (simp add: frame_def reading_db R_refl)

lemma frame_return [frames]: "frame R (\<lambda>w. (r, w))"
  by (simp add: frame_def R_refl)

lemma frame_chk [frames]:
  assumes "frame R m" "\<And>x. frame R (k x)"
  shows "frame R (\<lambda>w. chk (m w) k)"
  unfolding frame_def
proof
  fix w
  obtain r w1 where m: "m w = (r, w1)" by (rule prod.exhaust)
  have "R (db w) (db w1)" by (rule frameD [OF assms(1) m])
  then show "R (db w) (db (snd (chk (m w) k)))"
    using R_trans frame_snd [OF assms(2)] by (cases r) (auto simp: m)
qed

lemma frame_chk_found [frames]:
  assumes "frame R m" "frame R k0" "\<And>x. frame R (k x)"
  shows "frame R (\<lambda>w. chk_found (m w) k0 k)"
  unfolding frame_def
proof
  fix w
  obtain r w1 where m: "m w = (r, w1)" by (rule prod.exhaust)
  have "R (db w) (db w1)" by (rule frameD [OF assms(1) m])
  then show "R (db w) (db (snd (chk_found (m w) k0 k)))"
    using R_trans frame_snd [OF assms(3)] frame_snd [OF assms(2)] by (cases r) (auto simp: m)
qed

lemma frame_map_err [frames]: "frame R m \<Longrightarrow> frame R (\<lambda>w. map_err f (m w))"
  by (simp add: frame_def map_err_def split: prod.splits sum.splits) (metis snd_conv)

lemma frame_if [frames]: "(b \<Longrightarrow> frame R m) \<Longrightarrow> (\<not> b \<Longrightarrow> frame R m') \<Longrightarrow> frame R (\<lambda>w. if b then m w else m' w)"
  by (simp add: frame_def)

lemma frame_option [frames]:
  "frame R m \<Longrightarrow> (\<And>x. frame R (k x)) \<Longrightarrow> frame R (\<lambda>w. case y of None \<Rightarrow> m w | Some x \<Rightarrow> k x w)"
  by (cases y) (simp_all add: frame_def)

lemma frame_sum [frames]:
  "(\<And>e. frame R (m e)) \<Longrightarrow> (\<And>x. frame R (k x)) \<Longrightarrow> frame R (\<lambda>w. case y of Inl e \<Rightarrow> m e w | Inr x \<Rightarrow> k x w)"
  by (cases y) (simp_all add: frame_def)

lemma frame_bind [frames]:
  assumes "frame R m" "\<And>x. frame R (k x)"
  shows "frame R (\<lambda>w. case m w of (x, w') \<Rightarrow> k x w')"
  unfolding frame_def
proof
  fix w
  obtain r w1 where m: "m w = (r, w1)" by (rule prod.exhaust)
  then show "R (db w) (db (snd (case m w of (x, w') \<Rightarrow> k x w')))"
    using R_trans [OF frameD [OF assms(1) m]] frame_snd [OF assms(2)] by simp
qed

lemma frame_pair [frames]: "(\<And>a b. frame R (k a b)) \<Longrightarrow> frame R (case x of (a, b) \<Rightarrow> k a b)"
  by (cases x) simp

lemma frame_draws [frames]: "frame R (uuid_New E)" "frame R (time_Now E)"
  by (simp_all add: frame_def uuid_New_def time_Now_def R_refl)

lemma frame_ExecTx [frames]: "frame R m \<Longrightarrow> frame R (ExecTx E m)"
  unfolding frame_def
proof
  fix w assume m: "\<forall>w. R (db w) (db (snd (m w)))"
  obtain r w' where x: "ExecTx E m w = (r, w')" by (rule prod.exhaust)
  then have "R (db w) (db w')"
    using m [rule_format, of "tx_begin E w"] R_refl
    by (cases rule: ExecTx_cases) simp_all
  with x show "R (db w) (db (snd (ExecTx E m w)))" by simp
qed

lemma frame_tx_scope [frames]: "frame R m \<Longrightarrow> frame R (tx_scope E m)"
  unfolding frame_def
proof
  fix w assume m: "\<forall>w. R (db w) (db (snd (m w)))"
  obtain r w2 where x: "m (tx_begin E w) = (r, w2)" by (rule prod.exhaust)
  then have "R (db w) (db w2)" using m [rule_format, of "tx_begin E w"] by simp
  then show "R (db w) (db (snd (tx_scope E m w)))"
    using R_refl by (cases r) (simp_all add: tx_scope_def x)
qed

end

end
