(* ===== verification/Queries.thy ===== *)
theory Queries
  imports Database "HOL-Library.Product_Lexorder"
begin

section \<open>The SQL statements of internal/db\<close>

text \<open>
  One definition per generated query of \<open>internal/db/*.sql.go\<close>: its selection, the rows it
  writes with the columns' defaults, and the constraints of \<open>db/migrations\<close> it can violate.
  Rows whose \<open>ORDER BY\<close> key ties are kept in insertion order. A \<open>:one\<close> query with no row
  answers \<open>ErrNoRows\<close>; an \<open>:execrows\<close> one the number of rows it changed.
\<close>

subsection \<open>Ledger\<close>

definition CreateAccount :: "env \<Rightarrow> string \<Rightarrow> string \<Rightarrow> string \<Rightarrow> world \<Rightarrow> Account result \<times> world" where
  "CreateAccount E name kind asset = query E (\<lambda>n now t.
     if list_ex (\<lambda>a. acc_name a = name \<and> acc_asset a = asset) (accounts t)
        \<or> list_ex (\<lambda>a. acc_id a = fresh E n 0) (accounts t)
     then Inl unique_violation
     else (let a = \<lparr>acc_id = fresh E n 0, acc_name = name, acc_kind = kind, acc_asset = asset,
                    acc_status = ''active'', acc_created = now\<rparr>
           in Inr (a, t\<lparr>accounts := accounts t @ [a]\<rparr>)))"

definition GetAccount :: "env \<Rightarrow> uuid \<Rightarrow> world \<Rightarrow> Account result \<times> world" where
  "GetAccount E i = reading E (\<lambda>t. one_row (List.find (\<lambda>a. acc_id a = i) (accounts t)))"

definition GetAccountByNameAndAsset :: "env \<Rightarrow> string \<Rightarrow> string \<Rightarrow> world \<Rightarrow> Account result \<times> world" where
  "GetAccountByNameAndAsset E name asset = reading E (\<lambda>t.
     one_row (List.find (\<lambda>a. acc_name a = name \<and> acc_asset a = asset) (accounts t)))"

definition GetAccountsForUpdate :: "env \<Rightarrow> uuid list \<Rightarrow> world \<Rightarrow> Account list result \<times> world" where
  "GetAccountsForUpdate E ids = reading E (\<lambda>t.
     Inr (sort_key acc_id (filter (\<lambda>a. acc_id a \<in> set ids) (accounts t))))"

definition signed_amount :: "EntryLine \<Rightarrow> int" where
  "signed_amount l = (if el_direction l = ''credit'' then el_amount l else - el_amount l)"

definition balance :: "tables \<Rightarrow> uuid \<Rightarrow> int" where
  "balance t a = sum_list (map signed_amount (filter (\<lambda>l. el_account l = a) (elines t)))"

definition bigint :: "int \<Rightarrow> int result" where
  "bigint x = (if int64 x then Inr x else Inl numeric_out_of_range)"

definition GetAccountBalance :: "env \<Rightarrow> uuid \<Rightarrow> world \<Rightarrow> int result \<times> world" where
  "GetAccountBalance E a = reading E (\<lambda>t. bigint (balance t a))"

definition InsertJournalEntry :: "env \<Rightarrow> string \<Rightarrow> string \<Rightarrow> string \<Rightarrow> world \<Rightarrow> JournalEntry result \<times> world" where
  "InsertJournalEntry E kind ref asset = query E (\<lambda>n now t.
     if list_ex (\<lambda>j. je_kind j = kind \<and> je_ref j = ref) (journal t)
        \<or> list_ex (\<lambda>j. je_id j = fresh E n 0) (journal t)
     then Inl unique_violation
     else (let j = \<lparr>je_id = fresh E n 0, je_kind = kind, je_ref = ref, je_asset = asset, je_created = now\<rparr>
           in Inr (j, t\<lparr>journal := journal t @ [j]\<rparr>)))"

text \<open>The line's own id is a sequence number that nothing reads; the tick stands for it.\<close>

definition InsertEntryLine :: "env \<Rightarrow> uuid \<Rightarrow> uuid \<Rightarrow> string \<Rightarrow> int \<Rightarrow> world \<Rightarrow> EntryLine result \<times> world" where
  "InsertEntryLine E entry account direction amount = query E (\<lambda>n now t.
     if direction \<notin> {''debit'', ''credit''} \<or> amount \<le> 0 then Inl check_violation
     else if \<not> list_ex (\<lambda>j. je_id j = entry) (journal t)
             \<or> \<not> list_ex (\<lambda>a. acc_id a = account) (accounts t)
     then Inl foreign_key_violation
     else (let l = \<lparr>el_id = n, el_entry = entry, el_account = account, el_direction = direction,
                    el_amount = amount\<rparr>
           in Inr (l, t\<lparr>elines := elines t @ [l]\<rparr>)))"

subsection \<open>Payments\<close>

definition InsertPayment ::
  "env \<Rightarrow> uuid \<Rightarrow> string \<Rightarrow> string \<Rightarrow> int \<Rightarrow> uuid \<Rightarrow> uuid \<Rightarrow> uuid \<Rightarrow> world \<Rightarrow> Payment result \<times> world" where
  "InsertPayment E i status asset amount src dst entry = query E (\<lambda>n now t.
     if status \<notin> {''completed'', ''canceled''} \<or> amount \<le> 0 then Inl check_violation
     else if list_ex (\<lambda>p. pay_id p = i) (payments t) then Inl unique_violation
     else if \<not> list_ex (\<lambda>a. acc_id a = src) (accounts t)
             \<or> \<not> list_ex (\<lambda>a. acc_id a = dst) (accounts t)
             \<or> \<not> list_ex (\<lambda>j. je_id j = entry) (journal t)
     then Inl foreign_key_violation
     else (let p = \<lparr>pay_id = i, pay_status = status, pay_asset = asset, pay_amount = amount,
                    pay_source = src, pay_dest = dst, pay_entry = entry, pay_reversal = None,
                    pay_created = now, pay_canceled = None\<rparr>
           in Inr (p, t\<lparr>payments := payments t @ [p]\<rparr>)))"

definition GetPayment :: "env \<Rightarrow> uuid \<Rightarrow> world \<Rightarrow> Payment result \<times> world" where
  "GetPayment E i = reading E (\<lambda>t. one_row (List.find (\<lambda>p. pay_id p = i) (payments t)))"

text \<open>\<open>LIMIT\<close>: a negative argument is an error of the server (SQLSTATE 2201W).\<close>

definition limit_rows :: "int \<Rightarrow> 'a list \<Rightarrow> 'a list result" where
  "limit_rows k xs = (if k < 0 then Inl (PqError ''2201W'') else Inr (take (nat k) xs))"

definition newest_first :: "Payment list \<Rightarrow> Payment list" where
  "newest_first ps = rev (sort_key (\<lambda>p. (pay_created p, pay_id p)) ps)"

definition ListPaymentsFirstPage :: "env \<Rightarrow> int \<Rightarrow> world \<Rightarrow> Payment list result \<times> world" where
  "ListPaymentsFirstPage E k = reading E (\<lambda>t. limit_rows k (newest_first (payments t)))"

definition ListPaymentsAfter :: "env \<Rightarrow> time \<Rightarrow> uuid \<Rightarrow> int \<Rightarrow> world \<Rightarrow> Payment list result \<times> world" where
  "ListPaymentsAfter E created i k = reading E (\<lambda>t. limit_rows k (newest_first
     (filter (\<lambda>p. (pay_created p, pay_id p) < (timestamptz E created, i)) (payments t))))"

definition CancelPayment :: "env \<Rightarrow> uuid \<Rightarrow> uuid \<Rightarrow> world \<Rightarrow> Payment result \<times> world" where
  "CancelPayment E i reversal = query E (\<lambda>n now t.
     let cancel = (\<lambda>p. p\<lparr>pay_status := ''canceled'', pay_reversal := Some reversal, pay_canceled := Some now\<rparr>);
         hit = (\<lambda>p. pay_id p = i \<and> pay_status p = ''completed'')
     in case List.find hit (payments t) of
          None \<Rightarrow> Inl ErrNoRows
        | Some p \<Rightarrow>
            if \<not> list_ex (\<lambda>j. je_id j = reversal) (journal t) then Inl foreign_key_violation
            else Inr (cancel p, t\<lparr>payments := update_where hit cancel (payments t)\<rparr>))"

subsection \<open>Settlements\<close>

definition InsertSettlement :: "env \<Rightarrow> uuid \<Rightarrow> string \<Rightarrow> world \<Rightarrow> Settlement result \<times> world" where
  "InsertSettlement E payment tx = query E (\<lambda>n now t.
     if list_ex (\<lambda>s. st_tx s = tx) (settlements t) then Inl ErrNoRows
     else if list_ex (\<lambda>s. st_id s = fresh E n 0) (settlements t) then Inl unique_violation
     else if \<not> list_ex (\<lambda>p. pay_id p = payment) (payments t) then Inl foreign_key_violation
     else (let s = \<lparr>st_id = fresh E n 0, st_payment = payment, st_tx = tx, st_status = ''pending'',
                    st_entry = None, st_created = now, st_updated = now,
                    st_block_hash = None, st_block_number = None\<rparr>
           in Inr (s, t\<lparr>settlements := settlements t @ [s]\<rparr>)))"

definition GetSettlementByTxHash :: "env \<Rightarrow> string \<Rightarrow> world \<Rightarrow> Settlement result \<times> world" where
  "GetSettlementByTxHash E tx = reading E (\<lambda>t. one_row (List.find (\<lambda>s. st_tx s = tx) (settlements t)))"

text \<open>The three guarded transitions of one settlement row share their shape.\<close>

definition mark_settlement ::
  "env \<Rightarrow> (Settlement \<Rightarrow> bool) \<Rightarrow> (tables \<Rightarrow> bool) \<Rightarrow> (time \<Rightarrow> Settlement \<Rightarrow> Settlement) \<Rightarrow> world
     \<Rightarrow> Settlement result \<times> world" where
  "mark_settlement E hit fk set_row = query E (\<lambda>n now t.
     case List.find hit (settlements t) of
       None \<Rightarrow> Inl ErrNoRows
     | Some s \<Rightarrow> if \<not> fk t then Inl foreign_key_violation
         else Inr (set_row now s, t\<lparr>settlements := update_where hit (set_row now) (settlements t)\<rparr>))"

definition MarkSettlementSettled ::
  "env \<Rightarrow> string \<Rightarrow> uuid \<Rightarrow> string \<Rightarrow> int \<Rightarrow> world \<Rightarrow> Settlement result \<times> world" where
  "MarkSettlementSettled E tx entry bhash bnum = mark_settlement E
     (\<lambda>s. st_tx s = tx \<and> st_status s \<in> {''pending'', ''reorged''})
     (\<lambda>t. list_ex (\<lambda>j. je_id j = entry) (journal t))
     (\<lambda>now s. s\<lparr>st_status := ''settled'', st_entry := Some entry, st_block_hash := Some bhash,
                st_block_number := Some bnum, st_updated := now\<rparr>)"

definition MarkSettlementReorged :: "env \<Rightarrow> string \<Rightarrow> world \<Rightarrow> Settlement result \<times> world" where
  "MarkSettlementReorged E tx = mark_settlement E
     (\<lambda>s. st_tx s = tx \<and> st_status s = ''settled'') (\<lambda>t. True)
     (\<lambda>now s. s\<lparr>st_status := ''reorged'', st_block_hash := None, st_block_number := None, st_updated := now\<rparr>)"

definition MarkSettlementFinalized :: "env \<Rightarrow> string \<Rightarrow> world \<Rightarrow> Settlement result \<times> world" where
  "MarkSettlementFinalized E tx = mark_settlement E
     (\<lambda>s. st_tx s = tx \<and> st_status s = ''settled'') (\<lambda>t. True)
     (\<lambda>now s. s\<lparr>st_status := ''finalized'', st_updated := now\<rparr>)"

definition ListPendingSettlements :: "env \<Rightarrow> world \<Rightarrow> Settlement list result \<times> world" where
  "ListPendingSettlements E = reading E (\<lambda>t. Inr (sort_key st_created
     (filter (\<lambda>s. st_status s \<in> {''pending'', ''settled'', ''reorged''}) (settlements t))))"

subsection \<open>Outbox\<close>

text \<open>The payload column is JSONB: the server stores its own rendering of the document.\<close>

definition InsertOutboxEvent :: "env \<Rightarrow> uuid \<Rightarrow> string \<Rightarrow> string \<Rightarrow> bytes \<Rightarrow> world \<Rightarrow> unit result \<times> world" where
  "InsertOutboxEvent E i typ agg payload = query E (\<lambda>n now t.
     case jsonb E payload of
       None \<Rightarrow> Inl invalid_json_text
     | Some doc \<Rightarrow>
         if list_ex (\<lambda>o'. ob_id o' = i) (outbox t) then Inl unique_violation
         else Inr ((), t\<lparr>outbox := outbox t @ [\<lparr>ob_id = i, ob_type = typ, ob_aggregate = agg,
                          ob_payload = doc, ob_created = now, ob_sent = None\<rparr>]\<rparr>))"

text \<open>\<open>FOR UPDATE SKIP LOCKED\<close>: rows another session holds are passed over before the limit counts.\<close>

definition ClaimUnsentOutbox :: "env \<Rightarrow> int \<Rightarrow> world \<Rightarrow> Outbox list result \<times> world" where
  "ClaimUnsentOutbox E k = query E (\<lambda>n now t.
     case limit_rows k (filter (\<lambda>r. \<not> locked E n (ob_id r))
            (sort_key ob_created (filter (\<lambda>r. ob_sent r = None) (outbox t)))) of
       Inl e \<Rightarrow> Inl e | Inr rows \<Rightarrow> Inr (rows, t))"

definition MarkOutboxSent :: "env \<Rightarrow> uuid list \<Rightarrow> world \<Rightarrow> nat result \<times> world" where
  "MarkOutboxSent E ids = query E (\<lambda>n now t.
     Inr (length (filter (\<lambda>r. ob_id r \<in> set ids) (outbox t)),
          t\<lparr>outbox := update_where (\<lambda>r. ob_id r \<in> set ids) (\<lambda>r. r\<lparr>ob_sent := Some now\<rparr>) (outbox t)\<rparr>))"

subsection \<open>Audit log\<close>

definition AcquireAuditChainLock :: "env \<Rightarrow> int \<Rightarrow> world \<Rightarrow> unit result \<times> world" where
  "AcquireAuditChainLock E key = reading E (\<lambda>t. Inr ())"

definition GetAuditHead :: "env \<Rightarrow> world \<Rightarrow> (int \<times> bytes) result \<times> world" where
  "GetAuditHead E = reading E (\<lambda>t. case rev (sort_key al_seq (audit t)) of
     [] \<Rightarrow> Inl ErrNoRows | r # _ \<Rightarrow> Inr (al_seq r, al_hash r))"

definition InsertAuditEntry :: "env \<Rightarrow> AuditLog \<Rightarrow> world \<Rightarrow> unit result \<times> world" where
  "InsertAuditEntry E r = query E (\<lambda>n now t.
     if list_ex (\<lambda>r'. al_seq r' = al_seq r \<or> al_hash r' = al_hash r) (audit t)
     then Inl unique_violation
     else Inr ((), t\<lparr>audit := audit t @ [r\<lparr>al_occurred := timestamptz E (al_occurred r)\<rparr>]\<rparr>))"

definition ScanAuditChain :: "env \<Rightarrow> world \<Rightarrow> AuditLog list result \<times> world" where
  "ScanAuditChain E = reading E (\<lambda>t. Inr (sort_key al_seq (audit t)))"

subsection \<open>Idempotency keys\<close>

definition InsertIdempotencyKey :: "env \<Rightarrow> string \<Rightarrow> bytes \<Rightarrow> world \<Rightarrow> IdempotencyKey result \<times> world" where
  "InsertIdempotencyKey E key hash = query E (\<lambda>n now t.
     if list_ex (\<lambda>k. ik_key k = key) (idem t) then Inl ErrNoRows
     else (let k = \<lparr>ik_key = key, ik_hash = hash, ik_status = ''in_flight'', ik_resp_status = None,
                    ik_resp_body = [], ik_payment = None, ik_created = now, ik_completed = None\<rparr>
           in Inr (k, t\<lparr>idem := idem t @ [k]\<rparr>)))"

definition GetIdempotencyKey :: "env \<Rightarrow> string \<Rightarrow> world \<Rightarrow> IdempotencyKey result \<times> world" where
  "GetIdempotencyKey E key = reading E (\<lambda>t. one_row (List.find (\<lambda>k. ik_key k = key) (idem t)))"

definition CompleteIdempotencyKey ::
  "env \<Rightarrow> string \<Rightarrow> int option \<Rightarrow> bytes \<Rightarrow> uuid option \<Rightarrow> world \<Rightarrow> unit result \<times> world" where
  "CompleteIdempotencyKey E key status body payment = query E (\<lambda>n now t.
     Inr ((), t\<lparr>idem := update_where (\<lambda>k. ik_key k = key)
       (\<lambda>k. k\<lparr>ik_status := ''completed'', ik_resp_status := status, ik_resp_body := body,
               ik_payment := payment, ik_completed := Some now\<rparr>) (idem t)\<rparr>))"

definition DeleteIdempotencyKey :: "env \<Rightarrow> string \<Rightarrow> world \<Rightarrow> unit result \<times> world" where
  "DeleteIdempotencyKey E key = query E (\<lambda>n now t.
     Inr ((), t\<lparr>idem := filter (\<lambda>k. ik_key k \<noteq> key) (idem t)\<rparr>))"

definition DeleteExpiredIdempotencyKeys :: "env \<Rightarrow> time \<Rightarrow> world \<Rightarrow> nat result \<times> world" where
  "DeleteExpiredIdempotencyKeys E before = query E (\<lambda>n now t.
     Inr (length (filter (\<lambda>k. ik_created k < timestamptz E before) (idem t)),
          t\<lparr>idem := filter (\<lambda>k. \<not> ik_created k < timestamptz E before) (idem t)\<rparr>))"

subsection \<open>Velocity events and approvals\<close>

definition AcquireVelocityLock :: "env \<Rightarrow> int \<Rightarrow> world \<Rightarrow> unit result \<times> world" where
  "AcquireVelocityLock E key = reading E (\<lambda>t. Inr ())"

definition SumVelocityWindow :: "env \<Rightarrow> string \<Rightarrow> time \<Rightarrow> world \<Rightarrow> (int \<times> int) result \<times> world" where
  "SumVelocityWindow E key since = reading E (\<lambda>t.
     let evs = filter (\<lambda>v. ve_key v = key \<and> timestamptz E since \<le> ve_occurred v) (velocity t);
         s = sum_list (map ve_amount evs)
     in if int64 (int (length evs)) \<and> int64 s then Inr (int (length evs), s)
        else Inl numeric_out_of_range)"

definition InsertVelocityEvent :: "env \<Rightarrow> string \<Rightarrow> int \<Rightarrow> time \<Rightarrow> world \<Rightarrow> unit result \<times> world" where
  "InsertVelocityEvent E key amount at = query E (\<lambda>n now t.
     if amount \<le> 0 then Inl check_violation
     else if list_ex (\<lambda>v. ve_id v = fresh E n 0) (velocity t) then Inl unique_violation
     else Inr ((), t\<lparr>velocity := velocity t @ [\<lparr>ve_id = fresh E n 0, ve_key = key,
                      ve_amount = amount, ve_occurred = timestamptz E at\<rparr>]\<rparr>))"

definition InsertPaymentApproval ::
  "env \<Rightarrow> string \<Rightarrow> int \<Rightarrow> string \<Rightarrow> string \<Rightarrow> uuid option \<Rightarrow> string \<Rightarrow> world \<Rightarrow> uuid result \<times> world" where
  "InsertPaymentApproval E to amount asset key payment proposer = query E (\<lambda>n now t.
     if amount \<le> 0 then Inl check_violation
     else if list_ex (\<lambda>a. ap_id a = fresh E n 0) (approvals t) then Inl unique_violation
     else Inr (fresh E n 0, t\<lparr>approvals := approvals t @ [\<lparr>ap_id = fresh E n 0, ap_to = to,
            ap_amount = amount, ap_asset = asset, ap_key = key, ap_payment = payment,
            ap_proposer = proposer, ap_approver = None, ap_status = ''pending'', ap_tx = None,
            ap_created = now\<rparr>]\<rparr>))"

definition GetApprovalForUpdate :: "env \<Rightarrow> uuid \<Rightarrow> world \<Rightarrow> PaymentApproval result \<times> world" where
  "GetApprovalForUpdate E i = reading E (\<lambda>t. one_row (List.find (\<lambda>a. ap_id a = i) (approvals t)))"

text \<open>The guarded updates of an approval row: how many rows the guard selected is the answer.\<close>

definition mark_approval ::
  "env \<Rightarrow> (PaymentApproval \<Rightarrow> bool) \<Rightarrow> (PaymentApproval \<Rightarrow> PaymentApproval) \<Rightarrow> world \<Rightarrow> nat result \<times> world" where
  "mark_approval E hit set_row = query E (\<lambda>n now t.
     Inr (length (filter hit (approvals t)), t\<lparr>approvals := update_where hit set_row (approvals t)\<rparr>))"

definition MarkApprovalApproved :: "env \<Rightarrow> uuid \<Rightarrow> string \<Rightarrow> world \<Rightarrow> nat result \<times> world" where
  "MarkApprovalApproved E i approver = mark_approval E
     (\<lambda>a. ap_id a = i \<and> ap_status a = ''pending'')
     (\<lambda>a. a\<lparr>ap_status := ''approved'', ap_approver := Some approver\<rparr>)"

definition MarkApprovalBroadcast :: "env \<Rightarrow> uuid \<Rightarrow> string \<Rightarrow> world \<Rightarrow> nat result \<times> world" where
  "MarkApprovalBroadcast E i tx = mark_approval E
     (\<lambda>a. ap_id a = i \<and> ap_status a = ''approved'' \<and> ap_tx a = None) (\<lambda>a. a\<lparr>ap_tx := Some tx\<rparr>)"

definition ReopenApproval :: "env \<Rightarrow> uuid \<Rightarrow> world \<Rightarrow> nat result \<times> world" where
  "ReopenApproval E i = mark_approval E
     (\<lambda>a. ap_id a = i \<and> ap_status a = ''approved'' \<and> ap_tx a = None)
     (\<lambda>a. a\<lparr>ap_status := ''pending'', ap_approver := None\<rparr>)"

subsection \<open>Reconciliation\<close>

record ReconcileRow =
  rr_id :: uuid
  rr_created :: time
  rr_status :: string
  rr_asset :: string
  rr_amount :: int

text \<open>The join of settlements with their payments, restricted to value that is on chain.\<close>

definition reconcile_rows :: "tables \<Rightarrow> ReconcileRow list" where
  "reconcile_rows t = sort_key (\<lambda>r. (rr_created r, rr_id r))
     (concat (map (\<lambda>s. map (\<lambda>p. \<lparr>rr_id = st_id s, rr_created = st_created s, rr_status = st_status s,
                                   rr_asset = pay_asset p, rr_amount = pay_amount p\<rparr>)
                        (filter (\<lambda>p. pay_id p = st_payment s) (payments t)))
        (filter (\<lambda>s. st_status s \<in> {''settled'', ''finalized''}) (settlements t))))"

definition ListSettlementsForReconcileFirstPage :: "env \<Rightarrow> int \<Rightarrow> world \<Rightarrow> ReconcileRow list result \<times> world" where
  "ListSettlementsForReconcileFirstPage E k = reading E (\<lambda>t. limit_rows k (reconcile_rows t))"

definition ListSettlementsForReconcileAfter ::
  "env \<Rightarrow> time \<Rightarrow> uuid \<Rightarrow> int \<Rightarrow> world \<Rightarrow> ReconcileRow list result \<times> world" where
  "ListSettlementsForReconcileAfter E created i k = reading E (\<lambda>t. limit_rows k
     (filter (\<lambda>r. (timestamptz E created, i) < (rr_created r, rr_id r)) (reconcile_rows t)))"

definition SumNonHouseLiabilities :: "env \<Rightarrow> string \<Rightarrow> world \<Rightarrow> int result \<times> world" where
  "SumNonHouseLiabilities E asset = reading E (\<lambda>t. bigint (sum_list (map signed_amount
     (concat (map (\<lambda>l. map (\<lambda>a. l)
        (filter (\<lambda>a. acc_id a = el_account l \<and> acc_kind a \<noteq> ''onchain_settlement'' \<and> acc_asset a = asset)
           (accounts t))) (elines t))))))"

subsection \<open>Webhooks\<close>

text \<open>One delivery per active subscription to the event's type, skipping those that exist.\<close>

fun fan_out_rows :: "env \<Rightarrow> nat \<Rightarrow> time \<Rightarrow> uuid \<Rightarrow> string \<Rightarrow> bytes \<Rightarrow> nat \<Rightarrow> WebhookSubscription list
    \<Rightarrow> WebhookDelivery list \<Rightarrow> (nat \<times> WebhookDelivery list) result" where
  "fan_out_rows E n now event typ doc i [] ds = Inr (i, ds)"
| "fan_out_rows E n now event typ doc i (s # ss) ds =
     (if \<not> (ws_active s \<and> typ \<in> set (ws_types s))
         \<or> list_ex (\<lambda>d. wd_event d = event \<and> wd_sub d = ws_id s) ds
      then fan_out_rows E n now event typ doc i ss ds
      else if list_ex (\<lambda>d. wd_id d = fresh E n i) ds then Inl unique_violation
      else fan_out_rows E n now event typ doc (Suc i) ss
             (ds @ [\<lparr>wd_id = fresh E n i, wd_event = event, wd_sub = ws_id s, wd_type = typ,
                     wd_payload = doc, wd_status = ''pending'', wd_attempts = 0, wd_next = now,
                     wd_code = None, wd_error = None, wd_created = now, wd_updated = now\<rparr>]))"

definition FanOutDelivery :: "env \<Rightarrow> uuid \<Rightarrow> string \<Rightarrow> bytes \<Rightarrow> world \<Rightarrow> nat result \<times> world" where
  "FanOutDelivery E event typ payload = query E (\<lambda>n now t.
     case jsonb E payload of
       None \<Rightarrow> Inl invalid_json_text
     | Some doc \<Rightarrow>
         (case fan_out_rows E n now event typ doc 0 (subscriptions t) (deliveries t) of
            Inl e \<Rightarrow> Inl e | Inr (k, ds) \<Rightarrow> Inr (k, t\<lparr>deliveries := ds\<rparr>)))"

record ClaimedDelivery =
  cd_id :: uuid
  cd_event :: uuid
  cd_attempts :: int
  cd_payload :: bytes
  cd_url :: string
  cd_secret :: string

definition due_ids :: "env \<Rightarrow> nat \<Rightarrow> time \<Rightarrow> int \<Rightarrow> tables \<Rightarrow> uuid list result" where
  "due_ids E n now k t = limit_rows k (filter (\<lambda>i. \<not> locked E n i) (map wd_id (sort_key wd_next
     (filter (\<lambda>d. wd_status d = ''pending'' \<and> wd_next d \<le> now) (deliveries t)))))"

text \<open>
  The claim pushes the next attempt of the claimed rows past the lease (in seconds; times are
  nanoseconds) and returns each joined with its subscription.
\<close>

definition ClaimDueDeliveries :: "env \<Rightarrow> int \<Rightarrow> int \<Rightarrow> world \<Rightarrow> ClaimedDelivery list result \<times> world" where
  "ClaimDueDeliveries E lease k = query E (\<lambda>n now t.
     case due_ids E n now k t of
       Inl e \<Rightarrow> Inl e
     | Inr ids \<Rightarrow>
        (let has_sub = (\<lambda>d. list_ex (\<lambda>s. ws_id s = wd_sub d) (subscriptions t))
         in Inr (concat (map (\<lambda>d. map (\<lambda>s. \<lparr>cd_id = wd_id d, cd_event = wd_event d,
                     cd_attempts = wd_attempts d, cd_payload = wd_payload d, cd_url = ws_url s,
                     cd_secret = ws_secret s\<rparr>)
                   (filter (\<lambda>s. ws_id s = wd_sub d) (subscriptions t)))
                 (filter (\<lambda>d. wd_id d \<in> set ids) (deliveries t))),
               t\<lparr>deliveries := update_where (\<lambda>d. wd_id d \<in> set ids \<and> has_sub d)
                  (\<lambda>d. d\<lparr>wd_next := now + lease * 1000000000, wd_updated := now\<rparr>) (deliveries t)\<rparr>)))"

definition mark_delivery ::
  "env \<Rightarrow> (WebhookDelivery \<Rightarrow> bool) \<Rightarrow> (time \<Rightarrow> WebhookDelivery \<Rightarrow> WebhookDelivery) \<Rightarrow> world \<Rightarrow> nat result \<times> world" where
  "mark_delivery E hit set_row = query E (\<lambda>n now t.
     Inr (length (filter hit (deliveries t)), t\<lparr>deliveries := update_where hit (set_row now) (deliveries t)\<rparr>))"

definition MarkDeliverySucceeded :: "env \<Rightarrow> uuid \<Rightarrow> int \<Rightarrow> int option \<Rightarrow> world \<Rightarrow> nat result \<times> world" where
  "MarkDeliverySucceeded E i attempts code = mark_delivery E (\<lambda>d. wd_id d = i)
     (\<lambda>now d. d\<lparr>wd_status := ''delivered'', wd_attempts := attempts, wd_code := code,
                wd_error := None, wd_updated := now\<rparr>)"

definition MarkDeliveryRetry ::
  "env \<Rightarrow> uuid \<Rightarrow> int \<Rightarrow> time \<Rightarrow> int option \<Rightarrow> string option \<Rightarrow> world \<Rightarrow> nat result \<times> world" where
  "MarkDeliveryRetry E i attempts next_at code msg = mark_delivery E (\<lambda>d. wd_id d = i)
     (\<lambda>now d. d\<lparr>wd_attempts := attempts, wd_next := timestamptz E next_at, wd_code := code,
                wd_error := msg, wd_updated := now\<rparr>)"

definition MarkDeliveryDeadLettered ::
  "env \<Rightarrow> uuid \<Rightarrow> int \<Rightarrow> int option \<Rightarrow> string option \<Rightarrow> world \<Rightarrow> nat result \<times> world" where
  "MarkDeliveryDeadLettered E i attempts code msg = mark_delivery E (\<lambda>d. wd_id d = i)
     (\<lambda>now d. d\<lparr>wd_status := ''dead_letter'', wd_attempts := attempts, wd_code := code,
                wd_error := msg, wd_updated := now\<rparr>)"

definition ReplayDeadLettered :: "env \<Rightarrow> uuid \<Rightarrow> world \<Rightarrow> nat result \<times> world" where
  "ReplayDeadLettered E sub = mark_delivery E (\<lambda>d. wd_status d = ''dead_letter'' \<and> wd_sub d = sub)
     (\<lambda>now d. d\<lparr>wd_status := ''pending'', wd_attempts := 0, wd_next := now, wd_error := None,
                wd_updated := now\<rparr>)"

end
