(* ===== verification/Ledger.thy ===== *)
theory Ledger
  imports Queries
begin

section \<open>The double-entry ledger\<close>

text \<open>
  \<open>internal/ledger\<close>: the pure balancing rules of \<open>balance.go\<close>, and the posting of an entry
  inside a transaction of \<open>ledger.go\<close>. The invariant \<open>ledger_ok\<close> says what a sound ledger is:
  every journal entry but an opening balance sums to zero, every line is positive and posts to an existing account in the
  entry's asset, every balance lies in \<open>[0, 2^63)\<close>. The lemmas show which postings are accepted,
  exactly what an accepted one writes, that a refused one writes nothing, and that the invariant
  survives.
\<close>

subsection \<open>Entries\<close>

abbreviation Debit :: string where "Debit \<equiv> ''debit''"
abbreviation Credit :: string where "Credit \<equiv> ''credit''"

record Line =
  ln_account :: uuid
  ln_direction :: string
  ln_amount :: int

record Entry =
  en_kind :: string
  en_ref :: string
  en_asset :: string
  en_lines :: "Line list"

subsection \<open>The pure rules (balance.go)\<close>

primrec balanced_loop :: "Line list \<Rightarrow> int \<Rightarrow> int \<Rightarrow> (int \<times> int) result" where
  "balanced_loop [] debits credits = Inr (debits, credits)"
| "balanced_loop (l # ls) debits credits =
     (if ln_amount l \<le> 0 then Inl ErrInvalidEntry
      else if ln_direction l = Debit then balanced_loop ls (wrap64 (debits + ln_amount l)) credits
      else if ln_direction l = Credit then balanced_loop ls debits (wrap64 (credits + ln_amount l))
      else Inl ErrInvalidEntry)"

definition Balanced :: "Line list \<Rightarrow> unit result" where
  "Balanced lines =
     (if lines = [] then Inl ErrInvalidEntry
      else case balanced_loop lines 0 0 of
             Inl e \<Rightarrow> Inl e
           | Inr (debits, credits) \<Rightarrow> if debits \<noteq> credits then Inl ErrUnbalanced else Inr ())"

primrec apply_loop :: "Line list \<Rightarrow> (uuid \<times> int) list \<Rightarrow> (uuid \<times> int) list result" where
  "apply_loop [] next = Inr next"
| "apply_loop (l # ls) next =
     (if ln_direction l = Credit then
        apply_loop ls (AList.update (ln_account l) (wrap64 (get0 next (ln_account l) + ln_amount l)) next)
      else if ln_direction l = Debit then
        apply_loop ls (AList.update (ln_account l) (wrap64 (get0 next (ln_account l) - ln_amount l)) next)
      else Inl ErrInvalidEntry)"

definition ApplyToBalances :: "(uuid \<times> int) list \<Rightarrow> Line list \<Rightarrow> (uuid \<times> int) list result" where
  "ApplyToBalances cur lines =
     (case apply_loop lines cur of
        Inl e \<Rightarrow> Inl e
      | Inr next \<Rightarrow> if list_ex (\<lambda>(i, bal). bal < 0) next then Inl ErrInsufficientFunds else Inr next)"

subsection \<open>Posting (ledger.go)\<close>

definition validate :: "Entry \<Rightarrow> unit result" where
  "validate e = (if en_kind e = [] \<or> en_asset e = [] \<or> en_ref e = [] then Inl ErrInvalidEntry
                 else Balanced (en_lines e))"

text \<open>The loop's \<open>seen\<close> set always holds exactly the ids collected so far.\<close>

primrec account_ids_loop :: "Line list \<Rightarrow> uuid list \<Rightarrow> uuid list" where
  "account_ids_loop [] ids = ids"
| "account_ids_loop (l # ls) ids =
     account_ids_loop ls (if ln_account l \<in> set ids then ids else ids @ [ln_account l])"

definition accountIDs :: "Line list \<Rightarrow> uuid list" where
  "accountIDs lines = sort (account_ids_loop lines [])"

primrec check_accounts_loop :: "(uuid \<rightharpoonup> Account) \<Rightarrow> string \<Rightarrow> uuid list \<Rightarrow> unit result" where
  "check_accounts_loop byID asset [] = Inr ()"
| "check_accounts_loop byID asset (i # ids) =
     (case byID i of
        None \<Rightarrow> Inl ErrInvalidEntry
      | Some a \<Rightarrow> if acc_status a \<noteq> ''active'' then Inl ErrInvalidEntry
                  else if acc_asset a \<noteq> asset then Inl ErrInvalidEntry
                  else check_accounts_loop byID asset ids)"

definition checkAccounts :: "Account list \<Rightarrow> uuid list \<Rightarrow> string \<Rightarrow> unit result" where
  "checkAccounts accs ids asset =
     check_accounts_loop (fold (\<lambda>a m. m(acc_id a \<mapsto> a)) accs Map.empty) asset ids"

definition mapInsertError :: "err \<Rightarrow> err" where
  "mapInsertError e = (if errorsIs e unique_violation then ErrDuplicateEntry else e)"

primrec read_balances :: "env \<Rightarrow> uuid list \<Rightarrow> (uuid \<times> int) list \<Rightarrow> world \<Rightarrow> (uuid \<times> int) list result \<times> world" where
  "read_balances E [] cur w = (Inr cur, w)"
| "read_balances E (i # ids) cur w =
     chk (GetAccountBalance E i w) (\<lambda>bal w. read_balances E ids (AList.update i bal cur) w)"

primrec insert_lines :: "env \<Rightarrow> uuid \<Rightarrow> Line list \<Rightarrow> world \<Rightarrow> unit result \<times> world" where
  "insert_lines E je [] w = (Inr (), w)"
| "insert_lines E je (l # ls) w =
     chk (InsertEntryLine E je (ln_account l) (ln_direction l) (ln_amount l) w)
       (\<lambda>_ w. insert_lines E je ls w)"

definition PostWithin :: "env \<Rightarrow> Entry \<Rightarrow> world \<Rightarrow> JournalEntry result \<times> world" where
  "PostWithin E e w =
     chk (validate e, w) (\<lambda>_ w.
     let ids = accountIDs (en_lines e) in
     chk (GetAccountsForUpdate E ids w) (\<lambda>accs w.
     chk (checkAccounts accs ids (en_asset e), w) (\<lambda>_ w.
     chk (read_balances E ids [] w) (\<lambda>cur w.
     chk (ApplyToBalances cur (en_lines e), w) (\<lambda>_ w.
     chk (map_err mapInsertError (InsertJournalEntry E (en_kind e) (en_ref e) (en_asset e) w)) (\<lambda>je w.
     chk (insert_lines E (je_id je) (en_lines e) w) (\<lambda>_ w.
       (Inr je, w))))))))"

definition PostEntry :: "env \<Rightarrow> Entry \<Rightarrow> world \<Rightarrow> JournalEntry result \<times> world" where
  "PostEntry E e w = chk (validate e, w) (\<lambda>_ w. ExecTx E (PostWithin E e) w)"

subsection \<open>What the ledger promises\<close>

text \<open>The signed amount of a line, and the effect of a list of lines on one account.\<close>

definition line_signed :: "Line \<Rightarrow> int" where
  "line_signed l = (if ln_direction l = Credit then ln_amount l else - ln_amount l)"

definition net_effect :: "Line list \<Rightarrow> uuid \<Rightarrow> int" where
  "net_effect ls a = sum_list (map line_signed (filter (\<lambda>l. ln_account l = a) ls))"

definition well_formed :: "Line list \<Rightarrow> bool" where
  "well_formed ls \<longleftrightarrow> ls \<noteq> [] \<and> (\<forall>l \<in> set ls. 0 < ln_amount l \<and> ln_direction l \<in> {Debit, Credit})"

definition side :: "string \<Rightarrow> Line list \<Rightarrow> int" where
  "side d ls = sum_list (map ln_amount (filter (\<lambda>l. ln_direction l = d) ls))"

text \<open>Each side of a posting sums to an \<open>int64\<close>.\<close>

definition fits :: "Line list \<Rightarrow> bool" where
  "fits ls \<longleftrightarrow> side Debit ls < 9223372036854775808 \<and> side Credit ls < 9223372036854775808"

definition account_ok :: "tables \<Rightarrow> string \<Rightarrow> uuid \<Rightarrow> bool" where
  "account_ok t asset i \<longleftrightarrow>
     (\<exists>a \<in> set (accounts t). acc_id a = i \<and> acc_status a = ''active'' \<and> acc_asset a = asset)"

definition entry_sum :: "tables \<Rightarrow> uuid \<Rightarrow> int" where
  "entry_sum t je = sum_list (map signed_amount (filter (\<lambda>l. el_entry l = je) (elines t)))"

definition line_ok :: "tables \<Rightarrow> EntryLine \<Rightarrow> bool" where
  "line_ok t l \<longleftrightarrow> 0 < el_amount l \<and> el_direction l \<in> {Debit, Credit} \<and>
     (\<exists>j \<in> set (journal t). \<exists>a \<in> set (accounts t).
        je_id j = el_entry l \<and> acc_id a = el_account l \<and> je_asset j = acc_asset a)"

text \<open>
  Opening balances are journal entries of kind \<open>opening\<close> with a lone credit line, written by
  operators and not by \<open>PostEntry\<close>; every other entry sums to zero.
\<close>

definition ledger_ok :: "tables \<Rightarrow> bool" where
  "ledger_ok t \<longleftrightarrow>
     distinct (map acc_id (accounts t)) \<and>
     distinct (map je_id (journal t)) \<and>
     distinct (map (\<lambda>j. (je_kind j, je_ref j)) (journal t)) \<and>
     (\<forall>l \<in> set (elines t). line_ok t l) \<and>
     (\<forall>j \<in> set (journal t). je_kind j \<noteq> ''opening'' \<longrightarrow> entry_sum t (je_id j) = 0) \<and>
     (\<forall>a. 0 \<le> balance t a \<and> balance t a < 9223372036854775808)"

text \<open>
  The abstract contract of a posting: when an entry may be posted to given tables, and what tables
  a posting leaves.
\<close>

definition row_of :: "EntryLine \<Rightarrow> uuid \<times> uuid \<times> string \<times> int" where
  "row_of l = (el_entry l, el_account l, el_direction l, el_amount l)"

definition posted :: "Entry \<Rightarrow> JournalEntry \<Rightarrow> tables \<Rightarrow> tables \<Rightarrow> bool" where
  "posted e je t t' \<longleftrightarrow>
     je_kind je = en_kind e \<and> je_ref je = en_ref e \<and> je_asset je = en_asset e \<and>
     (\<exists>ls. map row_of ls = map (\<lambda>l. (je_id je, ln_account l, ln_direction l, ln_amount l)) (en_lines e) \<and>
           t' = t\<lparr>journal := journal t @ [je], elines := elines t @ ls\<rparr>)"

definition postable :: "Entry \<Rightarrow> tables \<Rightarrow> bool" where
  "postable e t \<longleftrightarrow>
     validate e = Inr () \<and>
     (\<forall>a \<in> ln_account ` set (en_lines e). account_ok t (en_asset e) a \<and> int64 (balance t a) \<and>
        0 \<le> wrap64 (balance t a + net_effect (en_lines e) a)) \<and>
     (\<forall>j \<in> set (journal t). \<not> (je_kind j = en_kind e \<and> je_ref j = en_ref e))"

subsection \<open>Lemmas on the pure rules\<close>

lemma wrap64_eq_iff: "int64 x \<Longrightarrow> int64 y \<Longrightarrow> wrap64 x = wrap64 y \<longleftrightarrow> x = y"
  by simp

lemma balanced_loop_ok:
  "int64 d \<Longrightarrow> int64 c \<Longrightarrow> balanced_loop ls d c = Inr (d', c') \<longleftrightarrow>
     (\<forall>l \<in> set ls. 0 < ln_amount l \<and> ln_direction l \<in> {Debit, Credit}) \<and>
     d' = wrap64 (d + side Debit ls) \<and> c' = wrap64 (c + side Credit ls)"
  by (induction ls arbitrary: d c) (auto simp: side_def wrap64_bounds add.assoc)

lemma Balanced_ok:
  "Balanced ls = Inr () \<longleftrightarrow> well_formed ls \<and> wrap64 (side Debit ls) = wrap64 (side Credit ls)"
proof (cases "balanced_loop ls 0 0")
  case (Inl e)
  then have "\<not> (\<forall>l \<in> set ls. 0 < ln_amount l \<and> ln_direction l \<in> {Debit, Credit})"
    using balanced_loop_ok [of 0 0 ls "wrap64 (side Debit ls)" "wrap64 (side Credit ls)"]
    by (auto simp: int64_def)
  with Inl show ?thesis by (auto simp: Balanced_def well_formed_def)
next
  case (Inr p)
  then obtain d c where p: "balanced_loop ls 0 0 = Inr (d, c)" by (cases p) auto
  then show ?thesis
    using balanced_loop_ok [of 0 0 ls d c] by (auto simp: Balanced_def well_formed_def int64_def)
qed

lemma side_nonneg: "well_formed ls \<Longrightarrow> 0 \<le> side d ls"
  unfolding side_def well_formed_def by (rule sum_list_nonneg) auto

lemma signed_sides: "well_formed ls \<Longrightarrow> sum_list (map line_signed ls) = side Credit ls - side Debit ls"
proof -
  have "\<forall>l \<in> set ls. ln_direction l \<in> {Debit, Credit} \<Longrightarrow>
      sum_list (map line_signed ls) = side Credit ls - side Debit ls"
    by (induction ls) (auto simp: side_def line_signed_def)
  then show "well_formed ls \<Longrightarrow> sum_list (map line_signed ls) = side Credit ls - side Debit ls"
    by (auto simp: well_formed_def)
qed

lemma sides_int64: "well_formed ls \<Longrightarrow> fits ls \<Longrightarrow> int64 (side Debit ls) \<and> int64 (side Credit ls)"
  using side_nonneg [of ls Debit] side_nonneg [of ls Credit] by (auto simp: fits_def int64_def)

lemma Balanced_exact: "fits ls \<Longrightarrow> Balanced ls = Inr () \<longleftrightarrow> well_formed ls \<and> side Debit ls = side Credit ls"
  using sides_int64 [of ls] by (auto simp: Balanced_ok wrap64_eq_iff)

lemma net_effect_bound:
  assumes "well_formed ls" shows "- side Debit ls \<le> net_effect ls a" "net_effect ls a \<le> side Credit ls"
proof -
  have "\<forall>l \<in> set ls. 0 < ln_amount l \<and> ln_direction l \<in> {Debit, Credit} \<Longrightarrow>
      - side Debit ls \<le> net_effect ls a \<and> net_effect ls a \<le> side Credit ls"
    by (induction ls) (auto simp: net_effect_def side_def line_signed_def)
  with assms show "- side Debit ls \<le> net_effect ls a" "net_effect ls a \<le> side Credit ls"
    by (auto simp: well_formed_def)
qed

lemma net_effect_Cons:
  "net_effect (l # ls) a = (if ln_account l = a then line_signed l else 0) + net_effect ls a"
  by (simp add: net_effect_def)

lemma net_effect_untouched: "a \<notin> ln_account ` set ls \<Longrightarrow> net_effect ls a = 0"
  by (induction ls) (auto simp: net_effect_def)

lemma apply_loop_ok:
  assumes "\<forall>a. int64 (get0 cur a)" "\<forall>l \<in> set ls. ln_direction l \<in> {Debit, Credit}"
  shows "\<exists>next. apply_loop ls cur = Inr next \<and> 
           (\<forall>a. get0 next a = wrap64 (get0 cur a + net_effect ls a)) \<and>
           fst ` set next = fst ` set cur \<union> ln_account ` set ls \<and>
           (distinct (map fst cur) \<longrightarrow> distinct (map fst next))"
  using assms
proof (induction ls arbitrary: cur)
  case Nil
  then show ?case by (simp add: net_effect_def)
next
  case (Cons l ls)
  define cur' where "cur' = AList.update (ln_account l)
      (wrap64 (get0 cur (ln_account l) + line_signed l)) cur"
  have step: "apply_loop (l # ls) cur = apply_loop ls cur'"
    using Cons.prems by (auto simp: cur'_def line_signed_def)
  have "\<forall>a. int64 (get0 cur' a)"
    using Cons.prems by (simp add: cur'_def wrap64_bounds)
  then obtain "next" where n: "apply_loop ls cur' = Inr next"
      "\<forall>a. get0 next a = wrap64 (get0 cur' a + net_effect ls a)"
      "fst ` set next = fst ` set cur' \<union> ln_account ` set ls"
      "distinct (map fst cur') \<longrightarrow> distinct (map fst next)"
    using Cons.IH [of cur'] Cons.prems by auto
  have "\<forall>a. get0 next a = wrap64 (get0 cur a + net_effect (l # ls) a)"
    using n(2) by (auto simp: cur'_def net_effect_Cons add.assoc)
  moreover have "distinct (map fst cur) \<longrightarrow> distinct (map fst next)"
    using n(4) distinct_update [of cur] by (auto simp: cur'_def)
  ultimately show ?case using step n(1,3) by (auto simp: cur'_def)
qed

lemma ApplyToBalances_ok:
  assumes "\<forall>a. int64 (get0 cur a)" "well_formed ls" "distinct (map fst cur)"
  shows "(\<exists>next. ApplyToBalances cur ls = Inr next) \<longleftrightarrow>
    (\<forall>a \<in> fst ` set cur \<union> ln_account ` set ls. 0 \<le> wrap64 (get0 cur a + net_effect ls a))"
    and "ApplyToBalances cur ls = Inl e \<Longrightarrow> e = ErrInsufficientFunds"
proof -
  have dirs: "\<forall>l \<in> set ls. ln_direction l \<in> {Debit, Credit}"
    using assms(2) by (simp add: well_formed_def)
  obtain "next" where n: "apply_loop ls cur = Inr next"
      "\<forall>a. get0 next a = wrap64 (get0 cur a + net_effect ls a)"
      "fst ` set next = fst ` set cur \<union> ln_account ` set ls" "distinct (map fst next)"
    using apply_loop_ok [OF assms(1) dirs] assms(3) by auto
  have neg: "list_ex (\<lambda>(i, bal). bal < 0) next \<longleftrightarrow>
      \<not> (\<forall>a \<in> fst ` set cur \<union> ln_account ` set ls. 0 \<le> wrap64 (get0 cur a + net_effect ls a))"
    unfolding list_ex_alist [OF n(4), of "\<lambda>v. v < 0"] n(3) using n(2) by (simp add: not_le)
  show "(\<exists>next. ApplyToBalances cur ls = Inr next) \<longleftrightarrow>
    (\<forall>a \<in> fst ` set cur \<union> ln_account ` set ls. 0 \<le> wrap64 (get0 cur a + net_effect ls a))"
    unfolding ApplyToBalances_def n(1) by (simp add: neg)
  show "ApplyToBalances cur ls = Inl e \<Longrightarrow> e = ErrInsufficientFunds"
    using n(1) by (auto simp: ApplyToBalances_def split: if_splits)
qed


subsection \<open>Lemmas on posting\<close>

lemma account_ids_loop_set: 
  "set (account_ids_loop ls ids) = set ids \<union> ln_account ` set ls"
  "distinct ids \<Longrightarrow> distinct (account_ids_loop ls ids)"
  by (induction ls arbitrary: ids) auto

lemma accountIDs_set [simp]:
  "set (accountIDs ls) = ln_account ` set ls" "distinct (accountIDs ls)" "sorted (accountIDs ls)"
  by (simp_all add: accountIDs_def account_ids_loop_set)

lemma byID_map_of:
  "fold (\<lambda>a m. m(acc_id a \<mapsto> a)) accs m0 i =
     (case List.find (\<lambda>a. acc_id a = i) (rev accs) of Some a \<Rightarrow> Some a | None \<Rightarrow> m0 i)"
  by (induction accs arbitrary: m0) (auto simp: find_append split: option.splits)

lemma check_accounts_loop_ok:
  "check_accounts_loop m asset ids = Inr () \<longleftrightarrow>
     (\<forall>i \<in> set ids. \<exists>a. m i = Some a \<and> acc_status a = ''active'' \<and> acc_asset a = asset)"
  by (induction ids) (auto split: option.splits)

lemma check_accounts_loop_err: "check_accounts_loop m asset ids = Inl e \<Longrightarrow> e = ErrInvalidEntry"
  by (induction ids) (auto split: option.splits if_splits)

lemma checkAccounts_ok:
  assumes "distinct (map acc_id accs)"
  shows "checkAccounts accs ids asset = Inr () \<longleftrightarrow>
     (\<forall>i \<in> set ids. \<exists>a \<in> set accs. acc_id a = i \<and> acc_status a = ''active'' \<and> acc_asset a = asset)"
proof -
  have "fold (\<lambda>a m. m(acc_id a \<mapsto> a)) accs Map.empty i = Some a \<longleftrightarrow> a \<in> set accs \<and> acc_id a = i" for i a
    using assms find_by_key [of acc_id "rev accs" a i] find_Some_in [of "\<lambda>a. acc_id a = i" "rev accs" a]
    by (auto simp: byID_map_of rev_map [symmetric] split: option.splits)
  then show ?thesis unfolding checkAccounts_def check_accounts_loop_ok by auto
qed

lemma GetAccountBalance_ok [step_elims]:
  assumes "GetAccountBalance E a w = (Inr b, w')"
  obtains "b = balance (db w) a" "int64 b" "w' = w\<lparr>tick := Suc (tick w)\<rparr>"
  using assms unfolding GetAccountBalance_def
  by (auto elim!: reading_okE simp: bigint_def split: if_splits)

lemma read_balances_ok:
  assumes "read_balances E ids cur w = (Inr cur', w')" "distinct (map fst cur)"
  shows "(\<forall>a. get0 cur' a = (if a \<in> set ids then balance (db w) a else get0 cur a))"
    "\<forall>a \<in> set ids. int64 (balance (db w) a)"
    "fst ` set cur' = fst ` set cur \<union> set ids" "distinct (map fst cur')"
    "\<exists>n. w' = w\<lparr>tick := n\<rparr>"
proof -
  have "(\<forall>a. get0 cur' a = (if a \<in> set ids then balance (db w) a else get0 cur a)) \<and>
    (\<forall>a \<in> set ids. int64 (balance (db w) a)) \<and>
    fst ` set cur' = fst ` set cur \<union> set ids \<and> distinct (map fst cur') \<and> (\<exists>n. w' = w\<lparr>tick := n\<rparr>)"
    using assms
  proof (induction ids arbitrary: cur w)
    case Nil
    then show ?case by (auto intro: exI [of _ "tick w"])
  next
    case (Cons i ids)
    from Cons.prems(1) obtain b w1 where b: "GetAccountBalance E i w = (Inr b, w1)"
      and r: "read_balances E ids (AList.update i b cur) w1 = (Inr cur', w')"
      by (auto elim: chk_okE)
    from b have w1: "b = balance (db w) i" "int64 b" "w1 = w\<lparr>tick := Suc (tick w)\<rparr>"
      by (auto elim: GetAccountBalance_ok)
    show ?case using Cons.IH [OF r] Cons.prems(2) w1 by (auto simp: distinct_update)
  qed
  then show "(\<forall>a. get0 cur' a = (if a \<in> set ids then balance (db w) a else get0 cur a))"
    "\<forall>a \<in> set ids. int64 (balance (db w) a)"
    "fst ` set cur' = fst ` set cur \<union> set ids" "distinct (map fst cur')"
    "\<exists>n. w' = w\<lparr>tick := n\<rparr>"
    by blast+
qed


lemma InsertEntryLine_ok:
  assumes "InsertEntryLine E je a d m w = (Inr l, w')"
  shows "row_of l = (je, a, d, m)" "db w' = (db w)\<lparr>elines := elines (db w) @ [l]\<rparr>" "same_outside w w'"
  using assms unfolding InsertEntryLine_def
  by (auto elim!: query_okE simp: row_of_def Let_def split: if_splits)

lemma insert_lines_ok:
  assumes "insert_lines E je ls w = (Inr u, w')"
  shows "\<exists>rs. map row_of rs = map (\<lambda>l. (je, ln_account l, ln_direction l, ln_amount l)) ls \<and>
     db w' = (db w)\<lparr>elines := elines (db w) @ rs\<rparr> \<and> same_outside w w'"
  using assms
proof (induction ls arbitrary: w)
  case Nil
  then show ?case by simp
next
  case (Cons l ls)
  from Cons.prems obtain r w1
    where r: "InsertEntryLine E je (ln_account l) (ln_direction l) (ln_amount l) w = (Inr r, w1)"
      and rest: "insert_lines E je ls w1 = (Inr u, w')"
    by (auto elim: chk_okE)
  from Cons.IH [OF rest] obtain rs
    where "map row_of rs = map (\<lambda>l. (je, ln_account l, ln_direction l, ln_amount l)) ls"
      "db w' = (db w1)\<lparr>elines := elines (db w1) @ rs\<rparr>" "same_outside w1 w'"
    by blast
  then show ?case
    using InsertEntryLine_ok [OF r] by (intro exI [of _ "r # rs"]) (auto intro: same_outside_trans)
qed

lemma InsertJournalEntry_ok:
  assumes "InsertJournalEntry E k r a w = (Inr je, w')"
  shows "je_kind je = k" "je_ref je = r" "je_asset je = a" "je_id je \<notin> je_id ` set (journal (db w))"
    "\<forall>j \<in> set (journal (db w)). \<not> (je_kind j = k \<and> je_ref j = r)"
    "db w' = (db w)\<lparr>journal := journal (db w) @ [je]\<rparr>" "same_outside w w'"
  using assms unfolding InsertJournalEntry_def
  by (auto elim!: query_okE simp: Let_def list_ex_iff split: if_splits) blast

lemma locked_accounts_ok:
  assumes "distinct (map acc_id (accounts t))"
  shows "checkAccounts (sort_key acc_id (filter (\<lambda>a. acc_id a \<in> set ids) (accounts t))) ids asset = Inr ()
    \<longleftrightarrow> (\<forall>i \<in> set ids. account_ok t asset i)"
proof -
  have "distinct (map acc_id (filter (\<lambda>a. acc_id a \<in> set ids) (accounts t)))"
    using assms by (simp add: distinct_map inj_on_def)
  then have "distinct (map acc_id (sort_key acc_id (filter (\<lambda>a. acc_id a \<in> set ids) (accounts t))))"
    by (simp add: distinct_map)
  from checkAccounts_ok [OF this, of ids asset] show ?thesis by (auto simp: account_ok_def)
qed

lemma account_ok_exists: "account_ok t asset i \<Longrightarrow> i \<in> acc_id ` set (accounts t)"
  by (auto simp: account_ok_def)

lemma validate_ok: "validate e = Inr () \<Longrightarrow> well_formed (en_lines e)"
  by (auto simp: validate_def Balanced_ok split: if_splits)

lemma ApplyToBalances_read:
  assumes "\<forall>a. get0 cur a = (if a \<in> ln_account ` set ls then balance t a else 0)"
    "\<forall>a \<in> ln_account ` set ls. int64 (balance t a)"
    "fst ` set cur = ln_account ` set ls" "distinct (map fst cur)" "well_formed ls"
  shows "(\<exists>next. ApplyToBalances cur ls = Inr next) \<longleftrightarrow>
    (\<forall>a \<in> ln_account ` set ls. 0 \<le> wrap64 (balance t a + net_effect ls a))"
proof -
  have "\<forall>a. int64 (get0 cur a)" using assms(1,2) by (auto simp: int64_def)
  then show ?thesis using ApplyToBalances_ok(1) [OF _ assms(5,4)] assms(1,3) by simp
qed

lemma PostWithin_ok:
  assumes "PostWithin E e w = (Inr je, w')" "distinct (map acc_id (accounts (db w)))"
  shows "postable e (db w)" "posted e je (db w) (db w')" "je_id je \<notin> je_id ` set (journal (db w))"
    "same_outside w w'"
proof -
  let ?ids = "accountIDs (en_lines e)"
  from assms(1) obtain accs w1 cur w2 nxt w3
    where v: "validate e = Inr ()"
      and g: "GetAccountsForUpdate E ?ids w = (Inr accs, w1)"
      and c: "checkAccounts accs ?ids (en_asset e) = Inr ()"
      and b: "read_balances E ?ids [] w1 = (Inr cur, w2)"
      and ap: "ApplyToBalances cur (en_lines e) = Inr nxt"
      and j: "InsertJournalEntry E (en_kind e) (en_ref e) (en_asset e) w2 = (Inr je, w3)"
      and l: "insert_lines E (je_id je) (en_lines e) w3 = (Inr (), w')"
    unfolding PostWithin_def Let_def by (auto elim!: chk_okE)
  from g have accs: "accs = sort_key acc_id (filter (\<lambda>a. acc_id a \<in> set ?ids) (accounts (db w)))"
    and w1: "w1 = w\<lparr>tick := Suc (tick w)\<rparr>"
    unfolding GetAccountsForUpdate_def by (auto elim!: reading_okE)
  note rb = read_balances_ok [OF b, simplified]
  from rb(5) w1 obtain n where w2: "w2 = w\<lparr>tick := n\<rparr>" by auto
  have eff: "\<forall>a \<in> ln_account ` set (en_lines e). 0 \<le> wrap64 (balance (db w) a + net_effect (en_lines e) a)"
    using ApplyToBalances_read [of cur "en_lines e" "db w"] rb ap validate_ok [OF v] w1 by auto
  have jr: "db w2 = db w" "same_outside w w2" using w2 by simp_all
  note ji = InsertJournalEntry_ok [OF j]
  show "postable e (db w)"
    using v c eff rb(2) ji(5) jr w1
    unfolding postable_def accs locked_accounts_ok [OF assms(2)] by auto
  show "posted e je (db w) (db w')"
    using insert_lines_ok [OF l] ji jr unfolding posted_def by auto
  show "je_id je \<notin> je_id ` set (journal (db w))" using ji(4) jr by simp
  show "same_outside w w'"
    using insert_lines_ok [OF l] ji(7) jr by (auto intro: same_outside_trans)
qed


subsection \<open>The invariant\<close>

lemma ledger_okD:
  assumes "ledger_ok t"
  shows "distinct (map acc_id (accounts t))" "distinct (map je_id (journal t))"
    "distinct (map (\<lambda>j. (je_kind j, je_ref j)) (journal t))"
    "\<And>l. l \<in> set (elines t) \<Longrightarrow> line_ok t l"
    "\<And>j. j \<in> set (journal t) \<Longrightarrow> je_kind j \<noteq> ''opening'' \<Longrightarrow> entry_sum t (je_id j) = 0"
    "\<And>a. 0 \<le> balance t a" "\<And>a. balance t a < 9223372036854775808"
  using assms by (simp_all add: ledger_ok_def)

lemma line_ok_mono:
  "line_ok t l \<Longrightarrow> set (journal t) \<subseteq> set (journal t') \<Longrightarrow> accounts t' = accounts t \<Longrightarrow> line_ok t' l"
  unfolding line_ok_def by auto

lemma signed_amount_row:
  "row_of r = (j, ln_account l, ln_direction l, ln_amount l) \<Longrightarrow> signed_amount r = line_signed l"
  by (auto simp: row_of_def signed_amount_def line_signed_def)

lemma rows_account_sum:
  "map row_of rs = map (\<lambda>l. (j, ln_account l, ln_direction l, ln_amount l)) ls \<Longrightarrow>
     sum_list (map signed_amount (filter (\<lambda>r. el_account r = a) rs)) = net_effect ls a"
proof (induction ls arbitrary: rs)
  case (Cons l ls)
  then obtain r rs' where rs: "rs = r # rs'" by (cases rs) auto
  with Cons.prems have r: "row_of r = (j, ln_account l, ln_direction l, ln_amount l)"
    and t: "map row_of rs' = map (\<lambda>l. (j, ln_account l, ln_direction l, ln_amount l)) ls" by simp_all
  from r have "el_account r = ln_account l" by (simp add: row_of_def)
  with Cons.IH [OF t] signed_amount_row [OF r] show ?case by (simp add: rs net_effect_Cons)
qed (simp add: net_effect_def)

lemma rows_entry_sum:
  "map row_of rs = map (\<lambda>l. (j, ln_account l, ln_direction l, ln_amount l)) ls \<Longrightarrow>
     sum_list (map signed_amount (filter (\<lambda>r. el_entry r = i) rs)) =
       (if i = j then sum_list (map line_signed ls) else 0)"
proof (induction ls arbitrary: rs)
  case (Cons l ls)
  then obtain r rs' where rs: "rs = r # rs'" by (cases rs) auto
  with Cons.prems have r: "row_of r = (j, ln_account l, ln_direction l, ln_amount l)"
    and t: "map row_of rs' = map (\<lambda>l. (j, ln_account l, ln_direction l, ln_amount l)) ls" by simp_all
  from r have "el_entry r = j" by (simp add: row_of_def)
  with Cons.IH [OF t] signed_amount_row [OF r] show ?case by (auto simp: rs)
qed simp

lemma posted_balance: "posted e je t t' \<Longrightarrow> balance t' a = balance t a + net_effect (en_lines e) a"
  by (auto simp: posted_def balance_def rows_account_sum)

lemma posted_entry_sum:
  "posted e je t t' \<Longrightarrow>
     entry_sum t' i = entry_sum t i + (if i = je_id je then sum_list (map line_signed (en_lines e)) else 0)"
  by (auto simp: posted_def entry_sum_def rows_entry_sum)

lemma no_lines_of_new_entry:
  assumes "ledger_ok t" "i \<notin> je_id ` set (journal t)" shows "entry_sum t i = 0"
proof -
  have "el_entry l \<noteq> i" if "l \<in> set (elines t)" for l
  proof -
    from ledger_okD(4) [OF assms(1) that] obtain j where "j \<in> set (journal t)" "je_id j = el_entry l"
      by (auto simp: line_ok_def)
    with assms(2) show ?thesis by force
  qed
  then have "filter (\<lambda>l. el_entry l = i) (elines t) = []" by (simp add: filter_empty_conv)
  then show ?thesis by (simp add: entry_sum_def)
qed

lemma posted_line:
  assumes "posted e je t t'" "r \<in> set (elines t')" "r \<notin> set (elines t)"
  obtains l where "l \<in> set (en_lines e)" "row_of r = (je_id je, ln_account l, ln_direction l, ln_amount l)"
proof -
  let ?f = "\<lambda>l. (je_id je, ln_account l, ln_direction l, ln_amount l)"
  from assms(1) obtain rs where rs: "map row_of rs = map ?f (en_lines e)" "elines t' = elines t @ rs"
    by (auto simp: posted_def)
  then have "r \<in> set rs" using assms(2,3) by simp
  then have "row_of r \<in> set (map row_of rs)" by simp
  then have "row_of r \<in> set (map ?f (en_lines e))" by (simp only: rs(1))
  then obtain l where "l \<in> set (en_lines e)" "row_of r = ?f l" unfolding set_map by blast
  then show thesis by (rule that)
qed

lemma posted_tables:
  assumes "posted e je t t'"
  shows "accounts t' = accounts t" "journal t' = journal t @ [je]" "payments t' = payments t"
    "settlements t' = settlements t" "outbox t' = outbox t" "audit t' = audit t" "idem t' = idem t"
    "approvals t' = approvals t" "velocity t' = velocity t" "subscriptions t' = subscriptions t"
    "deliveries t' = deliveries t" "set (elines t) \<subseteq> set (elines t')"
  using assms by (auto simp: posted_def)

lemma posted_ledger_ok:
  assumes "ledger_ok t" "postable e t" "posted e je t t'" "je_id je \<notin> je_id ` set (journal t)"
    "fits (en_lines e)"
  shows "ledger_ok t'"
proof -
  have wf: "well_formed (en_lines e)" and bal: "Balanced (en_lines e) = Inr ()"
    using assms(2) validate_ok by (auto simp: postable_def validate_def split: if_splits)
  note T = posted_tables [OF assms(3)]
  have je: "je_kind je = en_kind e" "je_ref je = en_ref e" "je_asset je = en_asset e"
    using assms(3) by (simp_all add: posted_def)
  have "sum_list (map line_signed (en_lines e)) = 0"
    using bal signed_sides [OF wf] by (simp add: Balanced_exact [OF assms(5)])
  then have sums: "\<forall>j \<in> set (journal t'). je_kind j \<noteq> ''opening'' \<longrightarrow> entry_sum t' (je_id j) = 0"
    using ledger_okD(5) [OF assms(1)] no_lines_of_new_entry [OF assms(1,4)]
    by (simp add: posted_entry_sum [OF assms(3)] T(2))
  have bals: "0 \<le> balance t' a \<and> balance t' a < 9223372036854775808" for a
  proof (cases "a \<in> ln_account ` set (en_lines e)")
    case True
    note ledger_okD(6,7) [OF assms(1), of a]
    moreover have "- 9223372036854775808 < net_effect (en_lines e) a" "net_effect (en_lines e) a < 9223372036854775808"
      using net_effect_bound [OF wf, of a] assms(5) by (auto simp: fits_def)
    moreover have "0 \<le> wrap64 (balance t a + net_effect (en_lines e) a)"
      using assms(2) True by (auto simp: postable_def)
    ultimately show ?thesis
      using wrap64_nonneg_iff [of "balance t a + net_effect (en_lines e) a"]
      by (simp add: posted_balance [OF assms(3)])
  next
    case False
    then show ?thesis
      using ledger_okD(6,7) [OF assms(1), of a] net_effect_untouched [OF False]
      by (simp add: posted_balance [OF assms(3)])
  qed
  have lines: "line_ok t' l" if "l \<in> set (elines t')" for l
  proof (cases "l \<in> set (elines t)")
    case True
    with ledger_okD(4) [OF assms(1)] line_ok_mono T(1,2) show ?thesis by (metis Un_upper1 set_append)
  next
    case False
    from posted_line [OF assms(3) that this] obtain k where
      k: "k \<in> set (en_lines e)" "row_of l = (je_id je, ln_account k, ln_direction k, ln_amount k)" by blast
    then have "account_ok t (en_asset e) (ln_account k)" "0 < ln_amount k" "ln_direction k \<in> {Debit, Credit}"
      using assms(2) wf by (auto simp: postable_def well_formed_def)
    with k je show ?thesis
      unfolding line_ok_def T(1,2) by (auto simp: account_ok_def row_of_def)
  qed
  have "distinct (map (\<lambda>j. (je_kind j, je_ref j)) (journal t'))"
    using ledger_okD(3) [OF assms(1)] assms(2) je by (auto simp: T(2) postable_def)
  moreover have "distinct (map je_id (journal t'))" "distinct (map acc_id (accounts t'))"
    using ledger_okD(1,2) [OF assms(1)] assms(4) by (auto simp: T(1,2))
  ultimately show ?thesis using sums bals lines unfolding ledger_ok_def by blast
qed


subsection \<open>Runs without faults\<close>

lemma read_balances_run:
  "no_faults E \<Longrightarrow> \<forall>a \<in> set ids. int64 (balance (db w) a) \<Longrightarrow>
     \<exists>cur' n. read_balances E ids cur w = (Inr cur', w\<lparr>tick := n\<rparr>)"
proof (induction ids arbitrary: cur w)
  case Nil
  then show ?case by (auto intro: exI [of _ "tick w"])
next
  case (Cons i ids)
  have "GetAccountBalance E i w = (Inr (balance (db w) i), w\<lparr>tick := Suc (tick w)\<rparr>)"
    using Cons.prems by (simp add: GetAccountBalance_def reading_run bigint_def)
  then show ?case
    using Cons.IH [of "w\<lparr>tick := Suc (tick w)\<rparr>" "AList.update i (balance (db w) i) cur"] Cons.prems
    by simp
qed

lemma insert_lines_run:
  assumes "no_faults E" "\<forall>l \<in> set ls. 0 < ln_amount l \<and> ln_direction l \<in> {Debit, Credit} \<and>
      ln_account l \<in> acc_id ` set (accounts (db w))" "je \<in> je_id ` set (journal (db w))"
  shows "\<exists>w'. insert_lines E je ls w = (Inr (), w')"
  using assms
proof (induction ls arbitrary: w)
  case Nil
  then show ?case by simp
next
  case (Cons l ls)
  then have "\<exists>r. InsertEntryLine E je (ln_account l) (ln_direction l) (ln_amount l) w =
      (Inr r, w\<lparr>db := (db w)\<lparr>elines := elines (db w) @ [r]\<rparr>, tick := Suc (tick w)\<rparr>)"
    by (auto simp: InsertEntryLine_def query_def no_faults_def Let_def list_ex_iff)
  then obtain r where "InsertEntryLine E je (ln_account l) (ln_direction l) (ln_amount l) w =
      (Inr r, w\<lparr>db := (db w)\<lparr>elines := elines (db w) @ [r]\<rparr>, tick := Suc (tick w)\<rparr>)" ..
  then show ?case
    using Cons.IH [of "w\<lparr>db := (db w)\<lparr>elines := elines (db w) @ [r]\<rparr>, tick := Suc (tick w)\<rparr>"] Cons.prems
    by simp
qed

text \<open>What the documentation of \<open>PostEntry\<close> promises, as a decision on the tables alone.\<close>

definition post_outcome :: "Entry \<Rightarrow> tables \<Rightarrow> unit result" where
  "post_outcome e t =
     (case validate e of Inl x \<Rightarrow> Inl x | Inr _ \<Rightarrow>
        if \<not> list_all (account_ok t (en_asset e)) (map ln_account (en_lines e)) then Inl ErrInvalidEntry
        else if \<not> list_all (\<lambda>a. let b = balance t a + net_effect (en_lines e) a
                                  in 0 \<le> b \<and> b < 9223372036854775808) (map ln_account (en_lines e))
        then Inl ErrInsufficientFunds
        else if list_ex (\<lambda>j. je_kind j = en_kind e \<and> je_ref j = en_ref e) (journal t)
        then Inl ErrDuplicateEntry else Inr ())"

lemma InsertJournalEntry_run:
  assumes "no_faults E" "fresh E (tick w) 0 \<notin> je_id ` set (journal (db w))"
  shows "if list_ex (\<lambda>j. je_kind j = k \<and> je_ref j = r) (journal (db w))
    then map_err mapInsertError (InsertJournalEntry E k r a w) = (Inl ErrDuplicateEntry, w\<lparr>tick := Suc (tick w)\<rparr>)
    else \<exists>je. InsertJournalEntry E k r a w =
      (Inr je, w\<lparr>db := (db w)\<lparr>journal := journal (db w) @ [je]\<rparr>, tick := Suc (tick w)\<rparr>)"
  using assms
  by (auto simp: InsertJournalEntry_def query_def no_faults_def Let_def list_ex_iff map_err_def
      mapInsertError_def intro: rev_image_eqI)

lemma balances_decision:
  assumes "ledger_ok t" "well_formed ls" "fits ls"
  shows "0 \<le> wrap64 (balance t a + net_effect ls a) \<longleftrightarrow>
     0 \<le> balance t a + net_effect ls a \<and> balance t a + net_effect ls a < 9223372036854775808"
  using ledger_okD(6,7) [OF assms(1), of a] net_effect_bound [OF assms(2), of a] assms(3)
  unfolding fits_def by (intro wrap64_nonneg_iff) linarith+

lemma PostWithin_ledger_ok:
  assumes "PostWithin E e w = (Inr je, w')" "ledger_ok (db w)" "fits (en_lines e)"
  shows "ledger_ok (db w')"
  by (rule posted_ledger_ok [OF assms(2) PostWithin_ok(1,2,3) [OF assms(1) ledger_okD(1)] assms(3)])
    (rule assms(2))+

lemma checkAccounts_err: "checkAccounts accs ids asset = Inl x \<Longrightarrow> x = ErrInvalidEntry"
  unfolding checkAccounts_def by (rule check_accounts_loop_err)

lemma PostWithin_outcome:
  assumes nf: "no_faults E" and ok: "ledger_ok (db w)"
    and gr: "fits (en_lines e)"
    and fr: "\<forall>n. fresh E n 0 \<notin> je_id ` set (journal (db w))"
  shows "outcome (PostWithin E e w) = post_outcome e (db w)"
proof (cases "validate e")
  case (Inl x)
  then show ?thesis by (simp add: PostWithin_def post_outcome_def)
next
  case v: (Inr u)
  then have v': "validate e = Inr ()" by simp
  note wf = validate_ok [OF v']
  let ?ids = "accountIDs (en_lines e)" and ?t = "db w"
  let ?accs = "sort_key acc_id (filter (\<lambda>a. acc_id a \<in> set ?ids) (accounts ?t))"
  let ?w1 = "w\<lparr>tick := Suc (tick w)\<rparr>"
  have run: "PostWithin E e w =
     chk (checkAccounts ?accs ?ids (en_asset e), ?w1) (\<lambda>_ w.
     chk (read_balances E ?ids [] w) (\<lambda>cur w.
     chk (ApplyToBalances cur (en_lines e), w) (\<lambda>_ w.
     chk (map_err mapInsertError (InsertJournalEntry E (en_kind e) (en_ref e) (en_asset e) w)) (\<lambda>je w.
     chk (insert_lines E (je_id je) (en_lines e) w) (\<lambda>_ w. (Inr je, w))))))"
    using v by (simp add: PostWithin_def GetAccountsForUpdate_def reading_run [OF nf] Let_def)
  note acc = locked_accounts_ok [OF ledger_okD(1) [OF ok], of ?ids "en_asset e"]
  show ?thesis
  proof (cases "list_all (account_ok ?t (en_asset e)) (map ln_account (en_lines e))")
    case False
    then have "checkAccounts ?accs ?ids (en_asset e) \<noteq> Inr ()"
      using acc by (auto simp: list_all_iff)
    then have "checkAccounts ?accs ?ids (en_asset e) = Inl ErrInvalidEntry"
      by (cases "checkAccounts ?accs ?ids (en_asset e)") (auto dest: checkAccounts_err)
    then show ?thesis using False v by (simp add: run post_outcome_def)
  next
    case accs: True
    then have c: "checkAccounts ?accs ?ids (en_asset e) = Inr ()"
      using acc by (auto simp: list_all_iff)
    have "\<forall>a \<in> set ?ids. int64 (balance (db ?w1) a)"
      using ledger_okD(6,7) [OF ok] by (auto simp: int64_def intro: order_trans [of _ 0])
    then obtain cur n where rb: "read_balances E ?ids [] ?w1 = (Inr cur, ?w1\<lparr>tick := n\<rparr>)"
      using read_balances_run [OF nf] by blast
    note cur = read_balances_ok [OF rb, simplified]
    have dec: "(\<exists>next. ApplyToBalances cur (en_lines e) = Inr next) \<longleftrightarrow>
        list_all (\<lambda>a. let b = balance ?t a + net_effect (en_lines e) a
                      in 0 \<le> b \<and> b < 9223372036854775808) (map ln_account (en_lines e))"
      using ApplyToBalances_read [of cur "en_lines e" ?t] cur wf balances_decision [OF ok wf gr]
      by (simp add: list_all_iff Let_def)
    show ?thesis
    proof (cases "ApplyToBalances cur (en_lines e)")
      case (Inl x)
      have "\<forall>a. int64 (get0 cur a)" using cur(1,2) by (auto simp: int64_def)
      with Inl have "x = ErrInsufficientFunds" using ApplyToBalances_ok(2) [OF _ wf cur(4)] by blast
      with Inl v accs c rb dec show ?thesis by (simp add: run post_outcome_def)
    next
      case ap: (Inr nxt)
      let ?w2 = "w\<lparr>tick := n\<rparr>"
      note ij = InsertJournalEntry_run [OF nf, of ?w2 "en_kind e" "en_ref e" "en_asset e"]
      show ?thesis
      proof (cases "list_ex (\<lambda>j. je_kind j = en_kind e \<and> je_ref j = en_ref e) (journal ?t)")
        case True
        with ij fr ap v accs c rb dec show ?thesis by (simp add: run post_outcome_def)
      next
        case False
        with ij fr obtain je where je: "InsertJournalEntry E (en_kind e) (en_ref e) (en_asset e) ?w2 =
            (Inr je, ?w2\<lparr>db := ?t\<lparr>journal := journal ?t @ [je]\<rparr>, tick := Suc n\<rparr>)" by auto
        let ?w3 = "?w2\<lparr>db := ?t\<lparr>journal := journal ?t @ [je]\<rparr>, tick := Suc n\<rparr>"
        have "\<exists>w'. insert_lines E (je_id je) (en_lines e) ?w3 = (Inr (), w')"
          using wf accs
          by (intro insert_lines_run [OF nf])
            (auto simp: well_formed_def list_all_iff dest: account_ok_exists)
        with je ap False v accs c rb dec show ?thesis by (auto simp: run post_outcome_def map_err_def)
      qed
    qed
  qed
qed


subsection \<open>Postings as transactions\<close>

lemma PostEntry_effect:
  assumes "distinct (map acc_id (accounts (db w)))"
  shows "case PostEntry E e w of
      (Inl x, w') \<Rightarrow> db w' = db w
    | (Inr je, w') \<Rightarrow> postable e (db w) \<and> posted e je (db w) (db w') \<and>
        je_id je \<notin> je_id ` set (journal (db w))"
proof (cases "PostEntry E e w")
  case (Pair r w')
  show ?thesis
  proof (cases r)
    case (Inl x)
    with Pair show ?thesis
      unfolding PostEntry_def by (auto elim!: chk_errE dest: sql.exec_err)
  next
    case (Inr je)
    with Pair have "ExecTx E (PostWithin E e) w = (Inr je, w')"
      unfolding PostEntry_def by (auto elim!: chk_okE)
    then obtain w1 w2 where "db w1 = db w" "PostWithin E e w1 = (Inr je, w2)" "db w' = db w2"
      by (rule sql.exec_okE)
    with PostWithin_ok [of E e w1 je w2] assms Pair Inr show ?thesis by simp
  qed
qed

text \<open>The total of an asset over all accounts that hold it.\<close>

definition holds_asset :: "tables \<Rightarrow> string \<Rightarrow> uuid \<Rightarrow> bool" where
  "holds_asset t s i \<longleftrightarrow> list_ex (\<lambda>a. acc_id a = i \<and> acc_asset a = s) (accounts t)"

definition asset_total :: "tables \<Rightarrow> string \<Rightarrow> int" where
  "asset_total t s = sum_list (map signed_amount (filter (\<lambda>l. holds_asset t s (el_account l)) (elines t)))"

lemma rows_filter_sum:
  "map row_of rs = map (\<lambda>l. (j, ln_account l, ln_direction l, ln_amount l)) ls \<Longrightarrow>
     sum_list (map signed_amount (filter (\<lambda>r. P (el_account r)) rs)) =
     sum_list (map line_signed (filter (\<lambda>l. P (ln_account l)) ls))"
proof (induction ls arbitrary: rs)
  case (Cons l ls)
  then obtain r rs' where rs: "rs = r # rs'" by (cases rs) auto
  with Cons.prems have r: "row_of r = (j, ln_account l, ln_direction l, ln_amount l)"
    and t: "map row_of rs' = map (\<lambda>l. (j, ln_account l, ln_direction l, ln_amount l)) ls" by simp_all
  from r have "el_account r = ln_account l" by (simp add: row_of_def)
  with Cons.IH [OF t] signed_amount_row [OF r] show ?case by (simp add: rs)
qed simp

lemma account_ok_holds:
  assumes "distinct (map acc_id (accounts t))" "account_ok t asset i"
  shows "holds_asset t s i \<longleftrightarrow> s = asset"
  using assms by (auto simp: account_ok_def holds_asset_def list_ex_iff distinct_map inj_on_def)

lemma posted_asset_total:
  assumes "ledger_ok t" "postable e t" "posted e je t t'" "fits (en_lines e)"
  shows "asset_total t' s = asset_total t s"
proof -
  from assms(3) obtain rs where rs: "elines t' = elines t @ rs" "accounts t' = accounts t"
      "map row_of rs = map (\<lambda>l. (je_id je, ln_account l, ln_direction l, ln_amount l)) (en_lines e)"
    by (auto simp: posted_def)
  have wf: "well_formed (en_lines e)" and bal: "Balanced (en_lines e) = Inr ()"
    using assms(2) validate_ok by (auto simp: postable_def validate_def split: if_splits)
  have "\<forall>l \<in> set (en_lines e). holds_asset t s (ln_account l) \<longleftrightarrow> s = en_asset e"
    using assms(2) account_ok_holds [OF ledger_okD(1) [OF assms(1)]] by (auto simp: postable_def)
  then have "filter (\<lambda>l. holds_asset t s (ln_account l)) (en_lines e) =
      (if s = en_asset e then en_lines e else [])"
    by (auto simp: filter_id_conv filter_empty_conv)
  moreover have "sum_list (map line_signed (en_lines e)) = 0"
    using bal signed_sides [OF wf] by (simp add: Balanced_exact [OF assms(4)])
  ultimately have "sum_list (map signed_amount (filter (\<lambda>r. holds_asset t s (el_account r)) rs)) = 0"
    by (simp add: rows_filter_sum [OF rs(3)])
  then show ?thesis by (simp add: asset_total_def rs(1,2) holds_asset_def)
qed

subsection \<open>A small ledger\<close>

text \<open>Two USDC accounts and the house account, the first holding an opening balance of 100.\<close>

definition bank :: tables where
  "bank = no_tables\<lparr>
     accounts := [\<lparr>acc_id = 1, acc_name = ''alice'', acc_kind = ''user'', acc_asset = ''USDC'',
                   acc_status = ''active'', acc_created = 0\<rparr>,
                  \<lparr>acc_id = 2, acc_name = ''bob'', acc_kind = ''user'', acc_asset = ''USDC'',
                   acc_status = ''active'', acc_created = 0\<rparr>,
                  \<lparr>acc_id = 3, acc_name = ''onchain_settlement'', acc_kind = ''onchain_settlement'',
                   acc_asset = ''USDC'', acc_status = ''active'', acc_created = 0\<rparr>],
     journal := [\<lparr>je_id = 10, je_kind = ''opening'', je_ref = ''o1'', je_asset = ''USDC'', je_created = 0\<rparr>],
     elines := [\<lparr>el_id = 0, el_entry = 10, el_account = 1, el_direction = ''credit'', el_amount = 100\<rparr>]\<rparr>"

lemma bank_ledger_ok: "ledger_ok bank"
  by (simp add: bank_def no_tables_def ledger_ok_def line_ok_def balance_def signed_amount_def)

abbreviation transfer_lines :: "uuid \<Rightarrow> uuid \<Rightarrow> int \<Rightarrow> Line list" where
  "transfer_lines a b m \<equiv>
     [\<lparr>ln_account = a, ln_direction = Debit, ln_amount = m\<rparr>,
      \<lparr>ln_account = b, ln_direction = Credit, ln_amount = m\<rparr>]"

definition demo_entry :: "int \<Rightarrow> Entry" where
  "demo_entry m = \<lparr>en_kind = ''transfer'', en_ref = ''t1'', en_asset = ''USDC'',
     en_lines = transfer_lines 1 2 m\<rparr>"

subsection \<open>Properties\<close>

text \<open>
  C16. \<open>Balanced\<close> decides what its documentation says, on every posting whose debits and whose
  credits each sum to an \<open>int64\<close>: it accepts exactly the non-empty lists of positive debit and credit lines whose debits
  equal their credits.
\<close>
theorem Balanced_spec:
  assumes "fits ls"
  shows "Balanced ls = Inr () \<longleftrightarrow>
    ls \<noteq> [] \<and> (\<forall>l \<in> set ls. 0 < ln_amount l \<and> ln_direction l \<in> {Debit, Credit}) \<and>
    side Debit ls = side Credit ls"
  using Balanced_exact [OF assms] by (auto simp: well_formed_def)

theorem Balanced_spec_witness:
  "Balanced (transfer_lines 1 2 50) = Inr () \<and> side Debit (transfer_lines 1 2 50) = 50"
  using Balanced_spec [of "transfer_lines 1 2 50"] by (simp add: fits_def side_def)


text \<open>
  C14. A posting is all or nothing: if \<open>PostEntry\<close> returns an entry, the tables differ from the
  old ones by exactly that journal entry and one row per line, and the entry was postable; if it
  returns an error, whatever the cause and wherever the transaction failed, no table changed.
\<close>
theorem PostEntry_atomic:
  assumes "distinct (map acc_id (accounts (db w)))"
  shows "case PostEntry E e w of
      (Inl x, w') \<Rightarrow> db w' = db w
    | (Inr je, w') \<Rightarrow> postable e (db w) \<and> posted e je (db w) (db w') \<and>
        je_id je \<notin> je_id ` set (journal (db w))"
  using PostEntry_effect [OF assms] .

theorem PostEntry_atomic_witness:
  "case PostEntry env0 (demo_entry 40) (idle bank) of
      (Inl x, w') \<Rightarrow> db w' = bank
    | (Inr je, w') \<Rightarrow> posted (demo_entry 40) je bank (db w') \<and> je_id je \<notin> je_id ` set (journal bank)"
  using PostEntry_atomic [where w = "idle bank" and E = env0 and e = "demo_entry 40"]
  by (auto simp: bank_def split: prod.splits sum.splits)



text \<open>
  Value is conserved: on a sound ledger \<open>PostEntry\<close> leaves the total of every asset, summed
  over all accounts that hold it, as it was, whatever it returns.
\<close>
theorem PostEntry_conserves:
  assumes "ledger_ok (db w)" "fits (en_lines e)"
  shows "asset_total (db (snd (PostEntry E e w))) asset = asset_total (db w) asset"
  using PostEntry_effect [OF ledger_okD(1) [OF assms(1)], where E = E and e = e]
    posted_asset_total [OF assms(1) _ _ assms(2)]
  by (auto split: prod.splits sum.splits)

theorem PostEntry_conserves_witness:
  "asset_total (db (snd (PostEntry env0 (demo_entry 40) (idle bank)))) ''USDC'' = 100"
  using PostEntry_conserves [of "idle bank" "demo_entry 40" env0 "''USDC''"] bank_ledger_ok
  by (simp add: fits_def side_def demo_entry_def asset_total_def holds_asset_def bank_def signed_amount_def)



end
