(* ===== verification/Outbox.thy ===== *)
theory Outbox
  imports Queries
begin

section \<open>The transactional outbox\<close>

text \<open>
  \<open>internal/outbox\<close> and the Kafka producer of \<open>cmd/outboxrelay\<close>: \<open>Emit\<close> appends an event to the
  outbox table within the caller's transaction; the relay claims unsent rows, publishes them and
  marks them sent, all inside one transaction. The lemmas show that no event is marked sent without
  having been published (whatever fails, and however often), that nothing is published that was
  not emitted, and that without failures enough ticks publish every event exactly once, oldest
  first.
\<close>

subsection \<open>Emitting (event.go, envelope.go)\<close>

record Event =
  ev_type :: string
  ev_aggregate :: string
  ev_data :: json

abbreviation schemaVersion :: int where "schemaVersion \<equiv> 1"
abbreviation DefaultBatchSize :: int where "DefaultBatchSize \<equiv> 100"

text \<open>\<open>strings.SplitN(t, ".", 2)[0]\<close>: the part before the first dot.\<close>

definition aggregate_type :: "string \<Rightarrow> string" where
  "aggregate_type t = takeWhile (\<lambda>c. c \<noteq> CHR ''.'') t"

definition envelope :: "env \<Rightarrow> uuid \<Rightarrow> time \<Rightarrow> Event \<Rightarrow> json" where
  "envelope E i now e = JObject
     [(''id'', JString (uuid_String E i)), (''type'', JString (ev_type e)),
      (''aggregate_type'', JString (aggregate_type (ev_type e))),
      (''aggregate_id'', JString (ev_aggregate e)), (''occurred_at'', JTime now),
      (''schema_version'', JNumber schemaVersion), (''data'', ev_data e)]"

definition Emit :: "env \<Rightarrow> Event \<Rightarrow> world \<Rightarrow> unit result \<times> world" where
  "Emit E e w =
     (let (i, w) = uuid_New E w; (now, w) = time_Now E w
      in chk (json_Marshal E (envelope E i now e), w) (\<lambda>payload w.
         InsertOutboxEvent E i (ev_type e) (ev_aggregate e) payload w))"

subsection \<open>The relay (relay.go)\<close>

text \<open>
  The producer is an interface of the source, so it is an argument. The Kafka one either writes the
  whole batch or fails with some of its messages already on the topic.
\<close>

type_synonym publisher = "Message list \<Rightarrow> world \<Rightarrow> unit result \<times> world"

definition Publish :: "env \<Rightarrow> publisher" where
  "Publish E msgs w =
     (if msgs = [] then (Inr (), w)
      else case kafka_lost E (tick w) of
        None \<Rightarrow> (Inr (), w\<lparr>tick := Suc (tick w), topic := topic w @ msgs\<rparr>)
      | Some landed \<Rightarrow>
          (Inl (OpError ''kafka''),
           w\<lparr>tick := Suc (tick w), topic := topic w @ nths msgs {i. landed i}\<rparr>))"

definition message :: "Outbox \<Rightarrow> Message" where
  "message r = \<lparr>msg_key = ob_aggregate r, msg_value = ob_payload r\<rparr>"

definition drainBatch :: "env \<Rightarrow> publisher \<Rightarrow> int \<Rightarrow> world \<Rightarrow> nat result \<times> world" where
  "drainBatch E pub batch w =
     chk (ClaimUnsentOutbox E batch w) (\<lambda>rows w.
       if rows = [] then (Inr 0, w)
       else chk (pub (map message rows) w) (\<lambda>_ w.
            chk (MarkOutboxSent E (map ob_id rows) w) (\<lambda>_ w. (Inr (length rows), w))))"

text \<open>One tick of the loop: an error is logged and the loop goes on.\<close>

definition relay_tick :: "env \<Rightarrow> publisher \<Rightarrow> int \<Rightarrow> world \<Rightarrow> world" where
  "relay_tick E pub batch w = snd (ExecTx E (drainBatch E pub batch) w)"

text \<open>\<open>Relay.Run\<close> until the context is cancelled, which here happens after \<open>n\<close> ticks.\<close>

primrec relay_Run :: "env \<Rightarrow> publisher \<Rightarrow> int \<Rightarrow> nat \<Rightarrow> world \<Rightarrow> world" where
  "relay_Run E pub batch 0 w = w"
| "relay_Run E pub batch (Suc n) w = relay_Run E pub batch n (relay_tick E pub batch w)"

subsection \<open>What the relay promises\<close>

definition unsent :: "tables \<Rightarrow> Outbox list" where
  "unsent t = sort_key ob_created (filter (\<lambda>r. ob_sent r = None) (outbox t))"

definition sent_published :: "world \<Rightarrow> bool" where
  "sent_published w \<longleftrightarrow> (\<forall>r \<in> set (outbox (db w)). ob_sent r \<noteq> None \<longrightarrow> message r \<in> set (topic w))"

text \<open>Two outboxes with the same events, possibly with different sent marks.\<close>

definition same_events :: "tables \<Rightarrow> tables \<Rightarrow> bool" where
  "same_events t t' \<longleftrightarrow> map (\<lambda>r. r\<lparr>ob_sent := None\<rparr>) (outbox t') = map (\<lambda>r. r\<lparr>ob_sent := None\<rparr>) (outbox t)"

subsection \<open>One drain\<close>

lemma message_sent [simp]: "message (r\<lparr>ob_sent := s\<rparr>) = message r"
  by (simp add: message_def)

lemma limit_rows_ok: "limit_rows k xs = Inr ys \<longleftrightarrow> 0 \<le> k \<and> ys = take (nat k) xs"
  by (auto simp: limit_rows_def)

lemma ClaimUnsentOutbox_ok:
  assumes "ClaimUnsentOutbox E k w = (Inr rows, w')"
  shows "rows = take (nat k) (filter (\<lambda>r. \<not> locked E (tick w) (ob_id r)) (unsent (db w)))"
    "w' = w\<lparr>tick := Suc (tick w)\<rparr>" "0 \<le> k"
  using assms unfolding ClaimUnsentOutbox_def unsent_def
  by (auto elim!: query_okE simp: limit_rows_ok split: sum.splits)

lemma claimed_rows:
  "r \<in> set (take k (filter P (unsent t))) \<Longrightarrow> r \<in> set (outbox t) \<and> ob_sent r = None"
  by (auto simp: unsent_def dest: in_set_takeD)

definition mark_rows :: "uuid list \<Rightarrow> time \<Rightarrow> tables \<Rightarrow> tables" where
  "mark_rows ids now t =
     t\<lparr>outbox := update_where (\<lambda>r. ob_id r \<in> set ids) (\<lambda>r. r\<lparr>ob_sent := Some now\<rparr>) (outbox t)\<rparr>"

lemma MarkOutboxSent_ok:
  assumes "MarkOutboxSent E ids w = (Inr n, w')"
  shows "db w' = mark_rows ids (pg_now E w) (db w)" "topic w' = topic w"
  using assms unfolding MarkOutboxSent_def mark_rows_def by (auto elim!: query_okE)

lemma same_events_refl [simp]: "same_events t t"
  by (simp add: same_events_def)

lemma same_events_trans [trans]: "same_events t u \<Longrightarrow> same_events u v \<Longrightarrow> same_events t v"
  by (simp add: same_events_def)

lemma mark_rows_same_events: "same_events t (mark_rows ids now t)"
  by (simp add: same_events_def mark_rows_def update_where_def)

lemma same_events_ids: "same_events t t' \<Longrightarrow> map ob_id (outbox t') = map ob_id (outbox t)"
proof -
  assume "same_events t t'"
  then have "map ob_id (map (\<lambda>r. r\<lparr>ob_sent := None\<rparr>) (outbox t')) =
      map ob_id (map (\<lambda>r. r\<lparr>ob_sent := None\<rparr>) (outbox t))" by (simp only: same_events_def)
  then show ?thesis by (simp add: comp_def)
qed

lemma same_events_messages:
  "same_events t t' \<Longrightarrow> message ` set (outbox t') = message ` set (outbox t)"
proof -
  assume "same_events t t'"
  then have "map message (map (\<lambda>r. r\<lparr>ob_sent := None\<rparr>) (outbox t')) =
      map message (map (\<lambda>r. r\<lparr>ob_sent := None\<rparr>) (outbox t))" by (simp only: same_events_def)
  then show ?thesis by (simp add: comp_def) (metis list.set_map)
qed

subsection \<open>The relay over any producer\<close>

text \<open>
  What the relay relies on: a batch reported as published is on the topic, a failed one added at
  most some of its messages, and publishing does not touch the database.
\<close>

locale producer =
  fixes publish :: publisher
  assumes publish_ok: "publish ms w = (Inr u, w') \<Longrightarrow> topic w' = topic w @ ms"
    and publish_err: "publish ms w = (Inl e, w') \<Longrightarrow> \<exists>ms'. topic w' = topic w @ ms' \<and> set ms' \<subseteq> set ms"
    and publish_db: "publish ms w = (r, w') \<Longrightarrow> db w' = db w"
begin

lemma drain_topic:
  assumes "drainBatch E publish k w = (r, w')"
  shows "\<exists>ms. topic w' = topic w @ ms \<and> set ms \<subseteq> message ` set (outbox (db w))"
proof (cases "ClaimUnsentOutbox E k w")
  case (Pair c w1)
  show ?thesis
  proof (cases c)
    case (Inl e)
    with Pair assms have w': "w' = snd (ClaimUnsentOutbox E k w)" by (simp add: drainBatch_def)
    have "topic w' = topic w"
      using query_same_outside unfolding w' ClaimUnsentOutbox_def same_outside_def by blast
    then show ?thesis by (intro exI [of _ "[]"]) simp
  next
    case (Inr rows)
    note claim = ClaimUnsentOutbox_ok [OF Pair [unfolded Inr]]
    have sub: "set (map message rows) \<subseteq> message ` set (outbox (db w))"
      using claimed_rows claim(1) by fastforce
    show ?thesis
    proof (cases "rows = []")
      case True
      with Pair Inr assms claim show ?thesis by (auto simp: drainBatch_def intro: exI [of _ "[]"])
    next
      case False
      obtain p w2 where p: "publish (map message rows) w1 = (p, w2)" by fastforce
      then have "\<exists>ms. topic w2 = topic w1 @ ms \<and> set ms \<subseteq> set (map message rows)"
        using publish_ok publish_err by (cases p) blast+
      moreover have "topic w' = topic w2"
        using assms p Pair Inr False
        by (cases p) (auto simp: drainBatch_def chk_def MarkOutboxSent_def query_def
            split: prod.splits sum.splits if_splits)
      ultimately show ?thesis using sub claim(2) by auto
    qed
  qed
qed

lemma drain_ok:
  assumes "drainBatch E publish k w = (Inr n, w')"
  shows "\<exists>P now. let rows = take (nat k) (filter P (unsent (db w))) in
    db w' = mark_rows (map ob_id rows) now (db w) \<and> topic w' = topic w @ map message rows"
proof -
  from assms obtain rows w1 where c: "ClaimUnsentOutbox E k w = (Inr rows, w1)"
    and rest: "(if rows = [] then (Inr 0, w1)
       else chk (publish (map message rows) w1) (\<lambda>_ w.
            chk (MarkOutboxSent E (map ob_id rows) w) (\<lambda>_ w. (Inr (length rows), w)))) = (Inr n, w')"
    unfolding drainBatch_def by (rule chk_okE)
  note claim = ClaimUnsentOutbox_ok [OF c]
  show ?thesis
  proof (cases "rows = []")
    case True
    then have "db w' = mark_rows (map ob_id rows) 0 (db w)" "topic w' = topic w @ map message rows"
      using rest claim by (auto simp: mark_rows_def update_where_none)
    then show ?thesis
      by (intro exI [of _ "\<lambda>r. \<not> locked E (tick w) (ob_id r)"] exI [of _ 0])
        (simp add: claim(1) Let_def)
  next
    case False
    with rest obtain u w2 m w3 where p: "publish (map message rows) w1 = (Inr u, w2)"
      and m: "MarkOutboxSent E (map ob_id rows) w2 = (Inr m, w3)" "w' = w3"
      by (auto elim!: chk_okE)
    have "db w' = mark_rows (map ob_id rows) (pg_now E w2) (db w)" "topic w' = topic w @ map message rows"
      using publish_ok [OF p] publish_db [OF p] MarkOutboxSent_ok [OF m(1)] claim(2) m(2) by simp_all
    then show ?thesis
      by (intro exI [of _ "\<lambda>r. \<not> locked E (tick w) (ob_id r)"] exI [of _ "pg_now E w2"])
        (simp add: claim(1) Let_def)
  qed
qed


text \<open>A tick either leaves the tables alone or marks rows it has published.\<close>

lemma tick_cases:
  obtains (nothing) ms where "db (relay_tick E publish k w) = db w"
      "topic (relay_tick E publish k w) = topic w @ ms" "set ms \<subseteq> message ` set (outbox (db w))"
  | (drained) P now rows where "rows = take (nat k) (filter P (unsent (db w)))"
      "db (relay_tick E publish k w) = mark_rows (map ob_id rows) now (db w)"
      "topic (relay_tick E publish k w) = topic w @ map message rows"
proof -
  obtain r w' where x: "ExecTx E (drainBatch E publish k) w = (r, w')" by (rule prod.exhaust)
  then have t: "relay_tick E publish k w = w'" by (simp add: relay_tick_def)
  from x show thesis
  proof (cases rule: ExecTx_cases)
    case no_begin
    then have "db (relay_tick E publish k w) = db w" "topic (relay_tick E publish k w) = topic w @ []"
      by (simp_all add: t)
    then show thesis by (rule nothing) simp
  next
    case (failed e e' w2)
    with drain_topic [OF failed(1)] obtain ms where "db (relay_tick E publish k w) = db w"
        "topic (relay_tick E publish k w) = topic w @ ms" "set ms \<subseteq> message ` set (outbox (db w))"
      by (auto simp: t)
    then show thesis by (rule nothing)
  next
    case (no_commit x w2)
    with drain_topic [OF no_commit(1)] obtain ms where "db (relay_tick E publish k w) = db w"
        "topic (relay_tick E publish k w) = topic w @ ms" "set ms \<subseteq> message ` set (outbox (db w))"
      by (auto simp: t)
    then show thesis by (rule nothing)
  next
    case (committed x w2)
    with drain_ok [OF committed(1)] obtain P now where
        "db (relay_tick E publish k w) = mark_rows (map ob_id (take (nat k) (filter P (unsent (db w))))) now (db w)"
        "topic (relay_tick E publish k w) = topic w @ map message (take (nat k) (filter P (unsent (db w))))"
      by (auto simp: t Let_def)
    then show thesis by (rule drained [OF refl])
  qed
qed

lemma tick_topic:
  "\<exists>ms. topic (relay_tick E publish k w) = topic w @ ms \<and> set ms \<subseteq> message ` set (outbox (db w))"
proof (rule tick_cases [of E k w])
  fix P now rows
  assume "rows = take (nat k) (filter P (unsent (db w)))"
    "topic (relay_tick E publish k w) = topic w @ map message rows"
  moreover from this have "set (map message rows) \<subseteq> message ` set (outbox (db w))"
    using claimed_rows by fastforce
  ultimately show ?thesis by blast
qed blast

lemma tick_same_events: "same_events (db w) (db (relay_tick E publish k w))"
  by (rule tick_cases [of E k w]) (simp_all add: mark_rows_same_events)

lemma tick_sent_published:
  assumes "sent_published w" "distinct (map ob_id (outbox (db w)))"
  shows "sent_published (relay_tick E publish k w)"
proof (rule tick_cases [of E k w])
  fix ms
  assume "db (relay_tick E publish k w) = db w" "topic (relay_tick E publish k w) = topic w @ ms"
  with assms(1) show ?thesis by (auto simp: sent_published_def)
next
  fix P now rows
  assume rows: "rows = take (nat k) (filter P (unsent (db w)))"
    and d: "db (relay_tick E publish k w) = mark_rows (map ob_id rows) now (db w)"
    and tp: "topic (relay_tick E publish k w) = topic w @ map message rows"
  have pub: "message r \<in> set (topic w) \<union> message ` set rows"
    if r: "r \<in> set (outbox (db w))" "ob_id r \<in> ob_id ` set rows \<or> ob_sent r \<noteq> None" for r
  proof (cases "ob_id r \<in> ob_id ` set rows")
    case True
    then obtain r' where "r' \<in> set rows" "ob_id r' = ob_id r" by auto
    moreover from this have "r' \<in> set (outbox (db w))" using claimed_rows rows by blast
    ultimately have "r = r'" using assms(2) r(1) by (auto simp: distinct_map inj_on_def)
    with \<open>r' \<in> set rows\<close> show ?thesis by simp
  next
    case False
    with r assms(1) show ?thesis by (auto simp: sent_published_def)
  qed
  show ?thesis
    unfolding sent_published_def d tp
  proof (intro ballI impI)
    fix x
    assume "x \<in> set (outbox (mark_rows (map ob_id rows) now (db w)))" "ob_sent x \<noteq> None"
    then obtain r where "r \<in> set (outbox (db w))" "ob_id r \<in> ob_id ` set rows \<or> ob_sent r \<noteq> None"
        "message x = message r"
      by (auto simp: mark_rows_def update_where_def split: if_splits)
    with pub [of r] show "message x \<in> set (topic w @ map message rows)" by simp
  qed
qed

lemma run_invariant:
  assumes "sent_published w" "distinct (map ob_id (outbox (db w)))"
  shows "sent_published (relay_Run E publish k n w) \<and>
    same_events (db w) (db (relay_Run E publish k n w)) \<and>
    (\<exists>ms. topic (relay_Run E publish k n w) = topic w @ ms \<and> set ms \<subseteq> message ` set (outbox (db w)))"
  using assms
proof (induction n arbitrary: w)
  case 0
  then show ?case by simp
next
  case (Suc n)
  let ?w = "relay_tick E publish k w"
  have se: "same_events (db w) (db ?w)" by (rule tick_same_events)
  have "distinct (map ob_id (outbox (db ?w)))"
    using same_events_ids [OF se] Suc.prems(2) by simp
  from Suc.IH [OF tick_sent_published [OF Suc.prems] this] same_events_trans [OF se]
    same_events_messages [OF se] tick_topic [of E k w]
  show ?case by fastforce
qed

end

interpretation kafka: producer "Publish E" for E
proof unfold_locales
  fix ms w u w' e r
  show "Publish E ms w = (Inr u, w') \<Longrightarrow> topic w' = topic w @ ms"
    by (auto simp: Publish_def split: option.splits if_splits)
  show "Publish E ms w = (Inl e, w') \<Longrightarrow> \<exists>ms'. topic w' = topic w @ ms' \<and> set ms' \<subseteq> set ms"
    by (auto simp: Publish_def dest: in_set_nthsD split: option.splits if_splits)
  show "Publish E ms w = (r, w') \<Longrightarrow> db w' = db w"
    by (auto simp: Publish_def split: option.splits if_splits)
qed

subsection \<open>Runs without failures\<close>

definition all_well :: "env \<Rightarrow> bool" where
  "all_well E \<longleftrightarrow> no_faults E \<and> (\<forall>n. kafka_lost E n = None) \<and> (\<forall>n i. \<not> locked E n i)"

lemma unsent_distinct: "distinct (map ob_id (outbox t)) \<Longrightarrow> distinct (map ob_id (unsent t))"
  by (simp add: unsent_def distinct_map inj_on_def)

lemma filter_not_taken:
  "distinct (map f xs) \<Longrightarrow> filter (\<lambda>x. f x \<notin> f ` set (take k xs)) xs = drop k xs"
proof (induction xs arbitrary: k)
  case (Cons x xs)
  show ?case
  proof (cases k)
    case 0
    then show ?thesis by simp
  next
    case (Suc j)
    have "filter (\<lambda>y. f y \<notin> insert (f x) (f ` set (take j xs))) xs = filter (\<lambda>y. f y \<notin> f ` set (take j xs)) xs"
      using Cons.prems by (intro filter_cong) (auto intro: rev_image_eqI)
    with Cons Suc show ?thesis by simp
  qed
qed simp

lemma unsent_mark_rows: "unsent (mark_rows ids now t) = filter (\<lambda>r. ob_id r \<notin> set ids) (unsent t)"
proof -
  have *: "filter (\<lambda>r. ob_sent r = None)
      (update_where (\<lambda>r. ob_id r \<in> set ids) (\<lambda>r. r\<lparr>ob_sent := Some now\<rparr>) rs) =
    filter (\<lambda>r. ob_id r \<notin> set ids) (filter (\<lambda>r. ob_sent r = None) rs)" for rs
    by (induction rs) auto
  show ?thesis by (simp add: unsent_def mark_rows_def filter_sort * [simplified])
qed

lemma calm_tick:
  assumes "all_well E" "0 \<le> k" "distinct (map ob_id (outbox (db w)))"
  shows "unsent (db (relay_tick E (Publish E) k w)) = drop (nat k) (unsent (db w))"
    "topic (relay_tick E (Publish E) k w) = topic w @ map message (take (nat k) (unsent (db w)))"
proof -
  have nf: "fault E n = False" and kl: "kafka_lost E n = None" and nl: "locked E n i = False" for n i
    using assms(1) by (simp_all add: all_well_def no_faults_def)
  define rows where "rows = take (nat k) (unsent (db w))"
  have c: "ClaimUnsentOutbox E k (tx_begin E w) = (Inr rows, (tx_begin E w)\<lparr>tick := Suc (Suc (tick w))\<rparr>)"
    using assms(2)
    by (simp add: ClaimUnsentOutbox_def query_def nf nl limit_rows_def unsent_def rows_def tx_begin_def)
  have "\<exists>now. db (relay_tick E (Publish E) k w) = mark_rows (map ob_id rows) now (db w) \<and>
      topic (relay_tick E (Publish E) k w) = topic w @ map message rows"
  proof (cases "rows = []")
    case True
    then show ?thesis
      by (simp add: relay_tick_def ExecTx_def nf drainBatch_def c mark_rows_def update_where_none)
  next
    case False
    then show ?thesis
      by (auto simp: relay_tick_def ExecTx_def nf drainBatch_def c Publish_def kl MarkOutboxSent_def
          query_def mark_rows_def)
  qed
  then obtain now where d: "db (relay_tick E (Publish E) k w) = mark_rows (map ob_id rows) now (db w)"
    and t: "topic (relay_tick E (Publish E) k w) = topic w @ map message rows" by blast
  show "unsent (db (relay_tick E (Publish E) k w)) = drop (nat k) (unsent (db w))"
    unfolding d unsent_mark_rows rows_def
    using filter_not_taken [OF unsent_distinct [OF assms(3)]] by simp
  show "topic (relay_tick E (Publish E) k w) = topic w @ map message (take (nat k) (unsent (db w)))"
    using t by (simp add: rows_def)
qed

lemma calm_run:
  assumes "all_well E" "0 \<le> k" "distinct (map ob_id (outbox (db w)))"
  shows "unsent (db (relay_Run E (Publish E) k n w)) = drop (n * nat k) (unsent (db w)) \<and>
    topic (relay_Run E (Publish E) k n w) = topic w @ map message (take (n * nat k) (unsent (db w)))"
  using assms(3)
proof (induction n arbitrary: w)
  case (Suc n)
  let ?w = "relay_tick E (Publish E) k w"
  have "distinct (map ob_id (outbox (db ?w)))"
    using same_events_ids [OF kafka.tick_same_events [where E = E and w = w and Ea = E and k = k]] Suc.prems by simp
  from Suc.IH [OF this] calm_tick [OF assms(1,2) Suc.prems] show ?case
    by (simp add: take_add add.commute)
qed simp

subsection \<open>Properties\<close>

text \<open>
  C5. At least once: run the relay for any number of ticks, with database and broker failing at
  arbitrary points (including after a publish and before its commit); a row is then marked sent
  only if its message is on the topic, no event was added, lost or altered, and the topic was only
  appended to, with messages of outbox rows.
\<close>
theorem relay_at_least_once:
  assumes "sent_published w" "distinct (map ob_id (outbox (db w)))"
  shows "sent_published (relay_Run E (Publish E) batch n w) \<and>
    same_events (db w) (db (relay_Run E (Publish E) batch n w)) \<and>
    (\<exists>ms. topic (relay_Run E (Publish E) batch n w) = topic w @ ms \<and>
          set ms \<subseteq> message ` set (outbox (db w)))"
  using assms by (rule kafka.run_invariant)

text \<open>
  C18. When nothing fails, enough ticks drain the outbox completely, and the topic receives every
  unsent event exactly once, oldest first.
\<close>
theorem relay_drains:
  assumes "all_well E" "0 < batch" "distinct (map ob_id (outbox (db w)))"
    "length (unsent (db w)) \<le> n * nat batch"
  shows "unsent (db (relay_Run E (Publish E) batch n w)) = [] \<and>
    topic (relay_Run E (Publish E) batch n w) = topic w @ map message (unsent (db w))"
  using calm_run [OF assms(1) less_imp_le [OF assms(2)] assms(3), of n] assms(4) by simp

definition demo_outbox :: world where
  "demo_outbox = idle (no_tables\<lparr>outbox :=
     [\<lparr>ob_id = 1, ob_type = ''payment.created'', ob_aggregate = ''a'', ob_payload = ''x'', ob_created = 7, ob_sent = None\<rparr>,
      \<lparr>ob_id = 2, ob_type = ''payment.created'', ob_aggregate = ''b'', ob_payload = ''y'', ob_created = 5, ob_sent = None\<rparr>]\<rparr>)"

theorem relay_at_least_once_witness:
  "sent_published (relay_Run (env0\<lparr>fault := (\<lambda>n. n = 4)\<rparr>) (Publish (env0\<lparr>fault := (\<lambda>n. n = 4)\<rparr>)) 1 3 demo_outbox)"
  using relay_at_least_once [of demo_outbox "env0\<lparr>fault := (\<lambda>n. n = 4)\<rparr>" 1 3]
  by (simp add: demo_outbox_def sent_published_def)

theorem relay_drains_witness:
  "topic (relay_Run env0 (Publish env0) 1 2 demo_outbox) =
     [\<lparr>msg_key = ''b'', msg_value = ''y''\<rparr>, \<lparr>msg_key = ''a'', msg_value = ''x''\<rparr>]"
  using relay_drains [of env0 1 demo_outbox 2]
  by (simp add: demo_outbox_def all_well_def no_faults_def unsent_def message_def)

end
