(* ===== verification/AuditChain.thy ===== *)
theory AuditChain
  imports Queries
begin

section \<open>The hash-chained audit log\<close>

text \<open>
  \<open>internal/audit\<close>: \<open>Append\<close> chains one row onto the log inside the caller's transaction, and
  \<open>Verify\<close> walks the rows. SHA-256 is a parameter (\<open>sha256\<close> of the environment). The lemmas show
  that the canonical form determines the fields it encodes, that a log built by \<open>Append\<close> always
  verifies, and that two logs that verify with the same head hash record the same history unless
  they exhibit a hash collision.
\<close>

subsection \<open>The canonical form and the hash (audit.go)\<close>

record AuditEntry =
  ae_actor :: string
  ae_action :: string
  ae_agg_type :: string
  ae_agg_id :: string
  ae_occurred :: "time option"
  ae_data :: json

abbreviation chainAdvisoryKey :: int where "chainAdvisoryKey \<equiv> 8516588576188130913"

definition genesisPrevHash :: bytes where
  "genesisPrevHash = replicate 32 (CHR 0x00)"

text \<open>\<open>binary.BigEndian.PutUint64\<close>, and the conversion of an \<open>int64\<close> to \<open>uint64\<close>.\<close>

definition writeUint64 :: "int \<Rightarrow> bytes" where
  "writeUint64 v = be_bytes 8 (nat (v mod 18446744073709551616))"

definition writeField :: "bytes \<Rightarrow> bytes" where
  "writeField b = writeUint64 (int (length b)) @ b"

definition canonical :: "int \<Rightarrow> string \<Rightarrow> string \<Rightarrow> string \<Rightarrow> string \<Rightarrow> int \<Rightarrow> bytes \<Rightarrow> bytes" where
  "canonical seq actor action aggType aggID occurredMicros payload =
     writeUint64 seq @ writeUint64 occurredMicros @ writeField actor @ writeField action @
     writeField aggType @ writeField aggID @ writeField payload"

definition entryHash :: "(bytes \<Rightarrow> bytes) \<Rightarrow> bytes \<Rightarrow> bytes \<Rightarrow> bytes" where
  "entryHash sha prevHash canonicalBytes = sha (prevHash @ canonicalBytes)"

text \<open>\<open>Truncate(time.Microsecond)\<close> and \<open>UnixMicro()\<close> on times in nanoseconds.\<close>

definition truncMicro :: "time \<Rightarrow> time" where "truncMicro t = t div 1000 * 1000"
definition UnixMicro :: "time \<Rightarrow> int" where "UnixMicro t = t div 1000"

subsection \<open>Appending\<close>

definition Append :: "env \<Rightarrow> AuditEntry \<Rightarrow> world \<Rightarrow> unit result \<times> world" where
  "Append E e w =
     (let (occurred, w) = (case ae_occurred e of Some t \<Rightarrow> (t, w) | None \<Rightarrow> time_Now E w);
          occurred = truncMicro occurred
      in chk (json_Marshal E (ae_data e), w) (\<lambda>payload w.
         chk (AcquireAuditChainLock E chainAdvisoryKey w) (\<lambda>_ w.
         let (head, w) = GetAuditHead E w
         in chk (case head of
                   Inl x \<Rightarrow> if errorsIs x ErrNoRows then Inr (1, genesisPrevHash) else Inl x
                 | Inr (s, h) \<Rightarrow> Inr (wrap64 (s + 1), h), w) (\<lambda>(seq, prev) w.
            let pre = canonical seq (ae_actor e) (ae_action e) (ae_agg_type e) (ae_agg_id e)
                        (UnixMicro occurred) payload
            in InsertAuditEntry E
                 \<lparr>al_seq = seq, al_prev = prev, al_hash = entryHash (sha256 E) prev pre,
                  al_actor = ae_actor e, al_action = ae_action e, al_agg_type = ae_agg_type e,
                  al_agg_id = ae_agg_id e, al_occurred = occurred, al_payload = payload\<rparr> w))))"

subsection \<open>Verifying (verify.go)\<close>

datatype kind = KindGap | KindBrokenLink | KindHashMismatch | KindHeadMismatch

record TamperError =
  te_seq :: int
  te_kind :: kind

record VerifyResult =
  vr_count :: int
  vr_head_seq :: int
  vr_head_hash :: bytes
  vr_ok :: bool

definition row_pre :: "AuditLog \<Rightarrow> bytes" where
  "row_pre r = canonical (al_seq r) (al_actor r) (al_action r) (al_agg_type r) (al_agg_id r)
     (UnixMicro (al_occurred r)) (al_payload r)"

text \<open>
  The loop: \<open>prev\<close> is \<open>None\<close> at index 0, where the links are not compared, and afterwards the
  previous row's seq and hash. It returns the first violation, if any.
\<close>

primrec verify_loop :: "(bytes \<Rightarrow> bytes) \<Rightarrow> (int \<times> bytes) option \<Rightarrow> AuditLog list \<Rightarrow> TamperError option" where
  "verify_loop sha prev [] = None"
| "verify_loop sha prev (r # rs) =
     (case (case prev of None \<Rightarrow> None
            | Some (prevSeq, prevHash) \<Rightarrow>
                if al_seq r \<noteq> wrap64 (prevSeq + 1) then Some KindGap
                else if al_prev r \<noteq> prevHash then Some KindBrokenLink else None) of
        Some k \<Rightarrow> Some \<lparr>te_seq = al_seq r, te_kind = k\<rparr>
      | None \<Rightarrow> if al_hash r \<noteq> entryHash sha (al_prev r) (row_pre r)
                then Some \<lparr>te_seq = al_seq r, te_kind = KindHashMismatch\<rparr>
                else verify_loop sha (Some (al_seq r, al_hash r)) rs)"

abbreviation zero_result :: VerifyResult where
  "zero_result \<equiv> \<lparr>vr_count = 0, vr_head_seq = 0, vr_head_hash = [], vr_ok = False\<rparr>"

text \<open>\<open>expect\<close> is the anchor of \<open>WithExpectedHead\<close>, if the option was given.\<close>

definition Verify :: "(bytes \<Rightarrow> bytes) \<Rightarrow> AuditLog list \<Rightarrow> bytes option \<Rightarrow> VerifyResult \<times> TamperError option" where
  "Verify sha rows expect =
     (case rows of
        [] \<Rightarrow> if expect \<noteq> None \<and> the expect \<noteq> []
              then (zero_result, Some \<lparr>te_seq = 0, te_kind = KindHeadMismatch\<rparr>)
              else (zero_result\<lparr>vr_ok := True\<rparr>, None)
      | first # _ \<Rightarrow>
          if al_seq first \<noteq> 1 \<or> al_prev first \<noteq> genesisPrevHash
          then (zero_result, Some \<lparr>te_seq = al_seq first, te_kind = KindBrokenLink\<rparr>)
          else case verify_loop sha None rows of
            Some t \<Rightarrow> (zero_result, Some t)
          | None \<Rightarrow>
              (let res = \<lparr>vr_count = int (length rows), vr_head_seq = al_seq (last rows),
                          vr_head_hash = al_hash (last rows), vr_ok = True\<rparr>
               in if expect \<noteq> None \<and> the expect \<noteq> vr_head_hash res
                  then (res\<lparr>vr_ok := False\<rparr>, Some \<lparr>te_seq = vr_head_seq res, te_kind = KindHeadMismatch\<rparr>)
                  else (res, None)))"

subsection \<open>The canonical form determines its fields\<close>

lemma be_bytes_inj: "be_bytes k v = be_bytes k v' \<Longrightarrow> v mod 256 ^ k = v' mod 256 ^ k"
proof (induction k arbitrary: v v')
  case (Suc k)
  from Suc.prems have eq: "be_bytes k (v div 256) = be_bytes k (v' div 256)"
    and c: "(char_of (v mod 256) :: char) = char_of (v' mod 256)"
    unfolding be_bytes.simps append1_eq_conv by blast+
  from c have "of_char (char_of (v mod 256) :: char) = (of_char (char_of (v' mod 256) :: char) :: nat)"
    by (rule arg_cong)
  then have "v mod 256 = v' mod 256" by (simp only: of_char_of mod_mod_trivial)
  with Suc.IH [OF eq] show ?case by (simp only: power_Suc mod_mult2_eq)
next
  case 0
  show ?case by (simp only: power_0 mod_by_1)
qed

lemma length_writeUint64 [simp]: "length (writeUint64 v) = 8"
  by (simp add: writeUint64_def)

lemma nat_mod_bound: "nat (a mod 18446744073709551616) < 256 ^ 8"
proof -
  have "a mod 18446744073709551616 < 18446744073709551616" by simp
  then have "nat (a mod 18446744073709551616) < nat 18446744073709551616"
    by (subst nat_less_eq_zless) simp_all
  then show ?thesis by simp
qed

lemma writeUint64_inj:
  assumes "int64 a" "int64 b" "writeUint64 a = writeUint64 b"
  shows "a = b"
proof -
  have "nat (a mod 18446744073709551616) mod 256 ^ 8 = nat (b mod 18446744073709551616) mod 256 ^ 8"
    using assms(3) unfolding writeUint64_def by (rule be_bytes_inj)
  then have "nat (a mod 18446744073709551616) = nat (b mod 18446744073709551616)"
    by (simp only: mod_less [OF nat_mod_bound])
  then have "a mod 18446744073709551616 = b mod 18446744073709551616"
    by (subst (asm) eq_nat_nat_iff) simp_all
  then have "(a + 9223372036854775808) mod 18446744073709551616 = (b + 9223372036854775808) mod 18446744073709551616"
    by (rule mod_add_cong) simp
  then have "wrap64 a = wrap64 b" by (simp only: wrap64_def)
  with assms(1,2) show "a = b" by simp
qed

lemma writeUint64_append:
  assumes "writeUint64 a @ x = writeUint64 b @ y" "int64 a" "int64 b"
  shows "a = b \<and> x = y"
proof -
  have "writeUint64 a = writeUint64 b \<and> x = y"
    using assms(1) by (subst (asm) append_eq_append_conv) simp_all
  with writeUint64_inj [OF assms(2,3)] show ?thesis by blast
qed

lemma writeField_append:
  assumes "writeField a @ x = writeField b @ y" "int64 (int (length a))" "int64 (int (length b))"
  shows "a = b \<and> x = y"
proof -
  from assms(1) have "writeUint64 (int (length a)) @ (a @ x) = writeUint64 (int (length b)) @ (b @ y)"
    by (simp only: writeField_def append_assoc)
  from writeUint64_append [OF this assms(2,3)] have "int (length a) = int (length b)" "a @ x = b @ y" by blast+
  then show ?thesis by simp
qed

text \<open>The ranges Go's types give the fields of an entry.\<close>

definition go_fields :: "int \<Rightarrow> string \<Rightarrow> string \<Rightarrow> string \<Rightarrow> string \<Rightarrow> int \<Rightarrow> bytes \<Rightarrow> bool" where
  "go_fields seq actor action aggType aggID micros payload \<longleftrightarrow>
     int64 seq \<and> int64 micros \<and>
     list_all (\<lambda>b. int64 (int (length b))) [actor, action, aggType, aggID, payload]"

lemma canonical_inj:
  assumes "go_fields s a1 a2 a3 a4 m p" "go_fields s' a1' a2' a3' a4' m' p'"
    "canonical s a1 a2 a3 a4 m p = canonical s' a1' a2' a3' a4' m' p'"
  shows "(s, a1, a2, a3, a4, m, p) = (s', a1', a2', a3', a4', m', p')"
proof -
  have l: "int64 s" "int64 s'" "int64 m" "int64 m'"
    "int64 (int (length a1))" "int64 (int (length a1'))" "int64 (int (length a2))"
    "int64 (int (length a2'))" "int64 (int (length a3))" "int64 (int (length a3'))"
    "int64 (int (length a4))" "int64 (int (length a4'))" "int64 (int (length p))"
    "int64 (int (length p'))"
    using assms(1,2) by (simp_all add: go_fields_def)
  note s = writeUint64_append [OF assms(3) [unfolded canonical_def] l(1,2)]
  note m = writeUint64_append [OF conjunct2 [OF s] l(3,4)]
  note r1 = writeField_append [OF conjunct2 [OF m] l(5,6)]
  note r2 = writeField_append [OF conjunct2 [OF r1] l(7,8)]
  note r3 = writeField_append [OF conjunct2 [OF r2] l(9,10)]
  note r4 = writeField_append [OF conjunct2 [OF r3] l(11,12)]
  have "writeField p @ [] = writeField p' @ []" using r4 by simp
  note r5 = writeField_append [OF this l(13,14)]
  from s m r1 r2 r3 r4 r5 show ?thesis by (simp only:)
qed

subsection \<open>Chains\<close>

primrec chain :: "(bytes \<Rightarrow> bytes) \<Rightarrow> int \<Rightarrow> bytes \<Rightarrow> AuditLog list \<Rightarrow> bool" where
  "chain sha s h [] = True"
| "chain sha s h (r # rs) \<longleftrightarrow> al_seq r = wrap64 (s + 1) \<and> al_prev r = h \<and>
     al_hash r = entryHash sha (al_prev r) (row_pre r) \<and> chain sha (al_seq r) (al_hash r) rs"

lemma verify_loop_chain: "verify_loop sha (Some (s, h)) rs = None \<longleftrightarrow> chain sha s h rs"
  by (induction rs arbitrary: s h) auto

lemma verify_loop_first:
  "al_seq r = 1 \<Longrightarrow> al_prev r = genesisPrevHash \<Longrightarrow>
     verify_loop sha None (r # rs) = None \<longleftrightarrow> chain sha 0 genesisPrevHash (r # rs)"
  by (auto simp: verify_loop_chain wrap64_def)

lemma Verify_chain:
  "snd (Verify sha rows expect) = None \<longleftrightarrow> chain sha 0 genesisPrevHash rows \<and>
     (case expect of None \<Rightarrow> True | Some h \<Rightarrow> h = (if rows = [] then [] else al_hash (last rows)))"
proof (cases rows)
  case Nil
  then show ?thesis by (auto simp: Verify_def split: option.splits)
next
  case (Cons r rs)
  show ?thesis
  proof (cases "al_seq r = 1 \<and> al_prev r = genesisPrevHash")
    case True
    then show ?thesis
      using verify_loop_first [of r sha rs] Cons
      by (cases "verify_loop sha None rows") (auto simp: Verify_def Let_def split: option.splits)
  next
    case False
    then show ?thesis using Cons by (auto simp: Verify_def wrap64_def)
  qed
qed

lemma Verify_result:
  assumes "snd (Verify sha rows expect) = None"
  shows "vr_ok (fst (Verify sha rows expect))" "vr_count (fst (Verify sha rows expect)) = int (length rows)"
  using assms by (auto simp: Verify_def Let_def split: list.splits option.splits if_splits)

definition head_of :: "int \<Rightarrow> bytes \<Rightarrow> AuditLog list \<Rightarrow> int \<times> bytes" where
  "head_of s h rs = (if rs = [] then (s, h) else (al_seq (last rs), al_hash (last rs)))"

lemma chain_append:
  "chain sha s h (rs @ [r]) \<longleftrightarrow> chain sha s h rs \<and> al_seq r = wrap64 (fst (head_of s h rs) + 1) \<and>
     al_prev r = snd (head_of s h rs) \<and> al_hash r = entryHash sha (al_prev r) (row_pre r)"
  by (induction rs arbitrary: s h) (auto simp: head_of_def)

lemma chain_seqs:
  "chain sha s h rs \<Longrightarrow> 0 \<le> s \<Longrightarrow> s + int (length rs) < 9223372036854775808 \<Longrightarrow>
     map al_seq rs = map (\<lambda>i. s + 1 + int i) [0..<length rs]"
proof (induction rs arbitrary: s h)
  case (Cons r rs)
  then have s: "al_seq r = s + 1" by (simp add: int64_def)
  from Cons.prems(1) have "chain sha (al_seq r) (al_hash r) rs" unfolding chain.simps by blast
  then have "chain sha (s + 1) (al_hash r) rs" by (simp only: s)
  from Cons.IH [OF this] Cons.prems(2,3)
  have "map al_seq rs = map (\<lambda>i. s + 1 + 1 + int i) [0..<length rs]" by simp
  with s show ?case by (simp add: upt_rec [of 0] map_Suc_upt [symmetric] comp_def add.assoc del: upt_Suc)
qed simp

lemma chain_head_seq:
  "chain sha 0 g rs \<Longrightarrow> int (length rs) < 9223372036854775808 \<Longrightarrow> fst (head_of 0 g rs) = int (length rs)"
proof (cases rs rule: rev_cases)
  case (snoc ys y)
  assume "chain sha 0 g rs" "int (length rs) < 9223372036854775808"
  from chain_seqs [OF this(1)] this(2) have "last (map al_seq rs) = int (length rs)"
    using snoc by (simp add: last_map)
  then show ?thesis using snoc by (simp add: head_of_def)
qed (simp add: head_of_def)


subsection \<open>Tamper evidence\<close>

text \<open>What a row records, and the bytes its hash is taken of.\<close>

definition recorded :: "AuditLog \<Rightarrow> int \<times> string \<times> string \<times> string \<times> string \<times> int \<times> bytes" where
  "recorded r = (al_seq r, al_actor r, al_action r, al_agg_type r, al_agg_id r,
     UnixMicro (al_occurred r), al_payload r)"

definition preimage :: "AuditLog \<Rightarrow> bytes" where
  "preimage r = al_prev r @ row_pre r"

definition go_row :: "AuditLog \<Rightarrow> bool" where
  "go_row r \<longleftrightarrow> go_fields (al_seq r) (al_actor r) (al_action r) (al_agg_type r) (al_agg_id r)
     (UnixMicro (al_occurred r)) (al_payload r)"

text \<open>A collision that the two logs themselves exhibit.\<close>

definition collision_in :: "(bytes \<Rightarrow> bytes) \<Rightarrow> AuditLog list \<Rightarrow> AuditLog list \<Rightarrow> bool" where
  "collision_in sha rs ss \<longleftrightarrow>
     (\<exists>r \<in> set rs. \<exists>s \<in> set ss. preimage r \<noteq> preimage s \<and> sha (preimage r) = sha (preimage s))"

lemma chain_hash_preimage: "chain sha s h rs \<Longrightarrow> r \<in> set rs \<Longrightarrow> al_hash r = sha (preimage r)"
  by (induction rs arbitrary: s h) (auto simp: entryHash_def preimage_def)

lemma chain_prev_length:
  assumes "chain sha s h rs" "r \<in> set rs" "length h = 32" "\<And>x. length (sha x) = 32"
  shows "length (al_prev r) = 32"
  using assms(1-3) by (induction rs arbitrary: s h) (auto simp: entryHash_def assms(4))

lemma same_hash_same_row:
  assumes "chain sha 0 genesisPrevHash rs" "chain sha 0 genesisPrevHash ss" "r \<in> set rs" "s \<in> set ss"
    "al_hash r = al_hash s" "\<not> collision_in sha rs ss" "go_row r" "go_row s" "\<And>x. length (sha x) = 32"
  shows "recorded r = recorded s" "al_prev r = al_prev s"
proof -
  have "preimage r = preimage s"
    using assms(1-6) chain_hash_preimage unfolding collision_in_def by metis
  moreover have "length (al_prev r) = length (al_prev s)"
    using chain_prev_length assms(1-4,9) by (metis genesisPrevHash_def length_replicate)
  ultimately have "al_prev r = al_prev s \<and> row_pre r = row_pre s"
    unfolding preimage_def by (metis append_eq_append_conv)
  then show "al_prev r = al_prev s" "recorded r = recorded s"
    using canonical_inj assms(7,8) unfolding row_pre_def go_row_def recorded_def by blast+
qed

lemma chains_agree:
  assumes "length rs = length ss" "chain sha 0 genesisPrevHash rs" "chain sha 0 genesisPrevHash ss"
    "rs \<noteq> [] \<Longrightarrow> al_hash (last rs) = al_hash (last ss)" "\<not> collision_in sha rs ss"
    "\<forall>r \<in> set rs \<union> set ss. go_row r" "\<And>x. length (sha x) = 32"
  shows "map recorded rs = map recorded ss \<and> map al_hash rs = map al_hash ss \<and> map al_prev rs = map al_prev ss"
  using assms(1-6)
proof (induction rs arbitrary: ss rule: rev_induct)
  case (snoc r rs)
  then obtain ss' s where ss: "ss = ss' @ [s]" "length ss' = length rs"
    by (cases ss rule: rev_cases) auto
  have h: "al_hash r = al_hash s" using snoc.prems(4) ss by simp
  have row: "recorded r = recorded s" "al_prev r = al_prev s"
    using same_hash_same_row [OF snoc.prems(2,3), of r s] snoc.prems(5,6) h assms(7) ss by auto
  have c: "chain sha 0 genesisPrevHash rs" "chain sha 0 genesisPrevHash ss'"
    using snoc.prems(2,3) ss by (simp_all add: chain_append)
  have "al_hash (last rs) = al_hash (last ss')" if "rs \<noteq> []"
    using snoc.prems(2,3) row(2) ss that by (auto simp: chain_append head_of_def)
  moreover have "\<not> collision_in sha rs ss'"
    using snoc.prems(5) ss by (auto simp: collision_in_def)
  ultimately have "map recorded rs = map recorded ss' \<and> map al_hash rs = map al_hash ss' \<and> map al_prev rs = map al_prev ss'"
    using snoc.IH [OF _ c] snoc.prems(6) ss by simp
  with row h ss show ?case by simp
qed simp

lemma same_head_same_length:
  assumes "chain sha 0 genesisPrevHash rs" "chain sha 0 genesisPrevHash ss" "rs \<noteq> []" "ss \<noteq> []"
    "al_hash (last rs) = al_hash (last ss)" "\<not> collision_in sha rs ss"
    "\<forall>r \<in> set rs \<union> set ss. go_row r" "\<And>x. length (sha x) = 32"
    "int64 (int (length rs))" "int64 (int (length ss))"
  shows "length rs = length ss"
proof -
  have "recorded (last rs) = recorded (last ss)"
    using same_hash_same_row [OF assms(1,2), of "last rs" "last ss"] assms(3-8) by simp
  then have "al_seq (last rs) = al_seq (last ss)" by (simp add: recorded_def)
  with chain_head_seq [OF assms(1)] chain_head_seq [OF assms(2)] assms(3,4,9,10)
  show ?thesis by (simp add: head_of_def int64_def)
qed


subsection \<open>Appending keeps the chain\<close>

definition log_ok :: "env \<Rightarrow> tables \<Rightarrow> bool" where
  "log_ok E t \<longleftrightarrow> chain (sha256 E) 0 genesisPrevHash (audit t) \<and>
     int (length (audit t)) < 9223372036854775807"

text \<open>TIMESTAMPTZ columns have microsecond precision: whole microseconds are stored exactly.\<close>

definition micro_exact :: "env \<Rightarrow> bool" where
  "micro_exact E \<longleftrightarrow> (\<forall>k. timestamptz E (k * 1000) = k * 1000)"

lemma log_ok_sorted: "log_ok E t \<Longrightarrow> sort_key al_seq (audit t) = audit t"
proof -
  assume "log_ok E t"
  then have "map al_seq (audit t) = map (\<lambda>i. 0 + 1 + int i) [0..<length (audit t)]"
    by (intro chain_seqs) (auto simp: log_ok_def)
  then have "sorted (map al_seq (audit t))" by (simp add: sorted_map sorted_wrt_mono_rel [of _ "(<)"])
  then show ?thesis by (rule sort_key_id_if_sorted)
qed

lemma GetAuditHead_log:
  assumes "GetAuditHead E w = (head, w')" "log_ok E (db w)"
  shows "head = Inl DbError \<or>
    (case head of Inl x \<Rightarrow> if errorsIs x ErrNoRows then Inr (1, genesisPrevHash) else Inl x
     | Inr (s, h) \<Rightarrow> Inr (wrap64 (s + 1), h)) =
      Inr (wrap64 (fst (head_of 0 genesisPrevHash (audit (db w))) + 1),
           snd (head_of 0 genesisPrevHash (audit (db w))))"
    "w' = w\<lparr>tick := Suc (tick w)\<rparr>"
proof -
  show "w' = w\<lparr>tick := Suc (tick w)\<rparr>"
    using assms(1) by (auto simp: GetAuditHead_def reading_def query_def split: if_splits sum.splits)
  show "head = Inl DbError \<or>
    (case head of Inl x \<Rightarrow> if errorsIs x ErrNoRows then Inr (1, genesisPrevHash) else Inl x
     | Inr (s, h) \<Rightarrow> Inr (wrap64 (s + 1), h)) =
      Inr (wrap64 (fst (head_of 0 genesisPrevHash (audit (db w))) + 1),
           snd (head_of 0 genesisPrevHash (audit (db w))))"
  proof (cases "audit (db w)" rule: rev_cases)
    case Nil
    with assms show ?thesis
      by (auto simp: GetAuditHead_def reading_def query_def head_of_def wrap64_def split: if_splits)
  next
    case (snoc ys y)
    with assms log_ok_sorted [OF assms(2)] show ?thesis
      by (auto simp: GetAuditHead_def reading_def query_def head_of_def split: if_splits)
  qed
qed

text \<open>The row that \<open>Append\<close> adds for an entry at a time, after a given history.\<close>

definition chained :: "env \<Rightarrow> AuditEntry \<Rightarrow> AuditLog list \<Rightarrow> AuditLog \<Rightarrow> bool" where
  "chained E e rs r \<longleftrightarrow>
     chain (sha256 E) 0 genesisPrevHash (rs @ [r]) \<and>
     al_actor r = ae_actor e \<and> al_action r = ae_action e \<and> al_agg_type r = ae_agg_type e \<and>
     al_agg_id r = ae_agg_id e \<and> json_Marshal E (ae_data e) = Inr (al_payload r) \<and>
     (\<forall>t. ae_occurred e = Some t \<longrightarrow> al_occurred r = truncMicro t)"

lemma time_Now_simps: "time_Now E w = (clock E (tick w), w\<lparr>tick := Suc (tick w)\<rparr>)"
  by (simp add: time_Now_def)

text \<open>The steps of a successful \<open>Append\<close>, and the row it adds whatever the log looks like.\<close>

definition audit_row :: "env \<Rightarrow> AuditEntry \<Rightarrow> time \<Rightarrow> bytes \<Rightarrow> int \<Rightarrow> bytes \<Rightarrow> AuditLog" where
  "audit_row E e occ payload seq prev = \<lparr>al_seq = seq, al_prev = prev,
     al_hash = entryHash (sha256 E) prev (canonical seq (ae_actor e) (ae_action e) (ae_agg_type e)
       (ae_agg_id e) (UnixMicro occ) payload),
     al_actor = ae_actor e, al_action = ae_action e, al_agg_type = ae_agg_type e,
     al_agg_id = ae_agg_id e, al_occurred = occ, al_payload = payload\<rparr>"

lemma Append_steps:
  assumes "Append E e w = (Inr u, w')"
  obtains occ payload w1 head w2 seq prev where
    "occ = truncMicro (case ae_occurred e of Some t \<Rightarrow> t | None \<Rightarrow> clock E (tick w))"
    "json_Marshal E (ae_data e) = Inr payload" "db w1 = db w" "same_outside w w1"
    "GetAuditHead E w1 = (head, w2)"
    "(case head of Inl x \<Rightarrow> if errorsIs x ErrNoRows then Inr (1, genesisPrevHash) else Inl x
      | Inr (s, h) \<Rightarrow> Inr (wrap64 (s + 1), h)) = Inr (seq, prev)"
    "InsertAuditEntry E (audit_row E e occ payload seq prev) w2 = (Inr u, w')"
proof -
  define occ where "occ = truncMicro (case ae_occurred e of Some t \<Rightarrow> t | None \<Rightarrow> clock E (tick w))"
  define w0 where "w0 = (case ae_occurred e of Some t \<Rightarrow> w | None \<Rightarrow> w\<lparr>tick := Suc (tick w)\<rparr>)"
  from assms obtain payload w1 head w2 seq prev where
    m: "json_Marshal E (ae_data e) = Inr payload"
    and l: "AcquireAuditChainLock E chainAdvisoryKey w0 = (Inr (), w1)"
    and g: "GetAuditHead E w1 = (head, w2)"
    and sp: "(case head of Inl x \<Rightarrow> if errorsIs x ErrNoRows then Inr (1, genesisPrevHash) else Inl x
               | Inr (s, h) \<Rightarrow> Inr (wrap64 (s + 1), h)) = Inr (seq, prev)"
    and i: "InsertAuditEntry E (audit_row E e occ payload seq prev) w2 = (Inr u, w')"
    unfolding Append_def Let_def occ_def w0_def audit_row_def
    by (cases "ae_occurred e") (auto simp: time_Now_simps split: prod.splits elim!: chk_okE)
  have "db w1 = db w" "same_outside w w1"
    using l unfolding AcquireAuditChainLock_def w0_def
    by (auto elim!: reading_okE simp: same_outside_def split: option.splits)
  with occ_def m g sp i that show thesis by blast
qed

lemma GetAuditHead_db: "GetAuditHead E w = (head, w') \<Longrightarrow> w' = w\<lparr>tick := Suc (tick w)\<rparr>"
  by (auto simp: GetAuditHead_def reading_def query_def split: if_splits sum.splits)

lemma InsertAuditEntry_ok:
  "InsertAuditEntry E r w = (Inr u, w') \<Longrightarrow>
     db w' = (db w)\<lparr>audit := audit (db w) @ [r\<lparr>al_occurred := timestamptz E (al_occurred r)\<rparr>]\<rparr> \<and> same_outside w w'"
  unfolding InsertAuditEntry_def by (auto elim!: query_okE simp: same_outside_def split: if_splits)

lemma Append_row:
  assumes "Append E e w = (Inr u, w')"
  shows "\<exists>r. db w' = (db w)\<lparr>audit := audit (db w) @ [r]\<rparr> \<and> al_actor r = ae_actor e \<and>
    al_action r = ae_action e \<and> al_agg_type r = ae_agg_type e \<and> al_agg_id r = ae_agg_id e"
  using assms
proof (rule Append_steps)
  fix occ payload w1 head w2 seq prev
  assume "db w1 = db w" "GetAuditHead E w1 = (head, w2)"
    "InsertAuditEntry E (audit_row E e occ payload seq prev) w2 = (Inr u, w')"
  with GetAuditHead_db InsertAuditEntry_ok show ?thesis by (fastforce simp: audit_row_def)
qed

lemma Append_ok:
  assumes "Append E e w = (Inr u, w')" "log_ok E (db w)" "micro_exact E"
  shows "\<exists>r. db w' = (db w)\<lparr>audit := audit (db w) @ [r]\<rparr> \<and> chained E e (audit (db w)) r \<and> same_outside w w'"
  using assms(1)
proof (rule Append_steps)
  fix occ payload w1 head w2 seq prev
  let ?h = "head_of 0 genesisPrevHash (audit (db w))"
  assume occ: "occ = truncMicro (case ae_occurred e of Some t \<Rightarrow> t | None \<Rightarrow> clock E (tick w))"
    and m: "json_Marshal E (ae_data e) = Inr payload" and w1: "db w1 = db w" "same_outside w w1"
    and g: "GetAuditHead E w1 = (head, w2)"
    and sp: "(case head of Inl x \<Rightarrow> if errorsIs x ErrNoRows then Inr (1, genesisPrevHash) else Inl x
      | Inr (s, h) \<Rightarrow> Inr (wrap64 (s + 1), h)) = Inr (seq, prev)"
    and i: "InsertAuditEntry E (audit_row E e occ payload seq prev) w2 = (Inr u, w')"
  define r where "r = audit_row E e occ payload seq prev"
  note gh = GetAuditHead_log [OF g, unfolded w1(1), OF assms(2)]
  have sp': "seq = wrap64 (fst ?h + 1)" "prev = snd ?h" using gh(1) sp by (auto split: if_splits)
  have "timestamptz E occ = occ" using assms(3) by (simp add: micro_exact_def occ truncMicro_def)
  then have "r\<lparr>al_occurred := timestamptz E (al_occurred r)\<rparr> = r" by (simp add: r_def audit_row_def)
  then have d: "db w' = (db w)\<lparr>audit := audit (db w) @ [r]\<rparr>" "same_outside w w'"
    using InsertAuditEntry_ok [OF i] w1 gh(2) by (simp_all add: r_def same_outside_def)
  have "chained E e (audit (db w)) r"
    using assms(2) m sp' by (auto simp: chained_def chain_append r_def audit_row_def row_pre_def log_ok_def occ)
  with d show ?thesis by blast
qed

lemma Append_err: "Append E e w = (Inl x, w') \<Longrightarrow> db w' = db w"
  unfolding Append_def Let_def
  by (cases "ae_occurred e")
    (auto simp: time_Now_simps chk_def AcquireAuditChainLock_def GetAuditHead_def reading_def
      InsertAuditEntry_def query_def split: prod.splits sum.splits if_splits)

lemma log_ok_append: "chained E e rs r \<Longrightarrow> int (length rs) + 1 < 9223372036854775807 \<Longrightarrow>
   log_ok E (t\<lparr>audit := rs @ [r]\<rparr>)"
  by (simp add: log_ok_def chained_def)

subsection \<open>Properties\<close>

text \<open>
  The canonical form is unambiguous: entries whose fields lie in the ranges of their Go types
  have the same canonical bytes only if all seven fields agree.
\<close>
theorem canonical_unambiguous:
  assumes "go_fields s a1 a2 a3 a4 m p" "go_fields s' a1' a2' a3' a4' m' p'"
  shows "canonical s a1 a2 a3 a4 m p = canonical s' a1' a2' a3' a4' m' p' \<longleftrightarrow>
    (s, a1, a2, a3, a4, m, p) = (s', a1', a2', a3', a4', m', p')"
  using canonical_inj [OF assms] by auto

theorem canonical_unambiguous_witness:
  "canonical 1 ''ab'' ''c'' ''payment'' ''7'' 5 ''{}'' \<noteq> canonical 1 ''a'' ''bc'' ''payment'' ''7'' 5 ''{}''"
  using canonical_unambiguous
    [of 1 "''ab''" "''c''" "''payment''" "''7''" 5 "''{}''" 1 "''a''" "''bc''" "''payment''" "''7''" 5 "''{}''"]
  by (simp add: go_fields_def int64_def)

text \<open>
  C19. \<open>Append\<close> fails closed and keeps the log verifiable: on an error no table changed; on success
  exactly one row was added, it records the entry (with its time truncated to microseconds) and
  chains onto the previous head, and \<open>Verify\<close> over the rows in seq order accepts the longer log.
\<close>
theorem Append_verifies:
  assumes "log_ok E (db w)" "micro_exact E" "int (length (audit (db w))) + 1 < 9223372036854775807"
  shows "case Append E e w of
      (Inl x, w') \<Rightarrow> db w' = db w
    | (Inr u, w') \<Rightarrow> (\<exists>r. db w' = (db w)\<lparr>audit := audit (db w) @ [r]\<rparr> \<and> chained E e (audit (db w)) r) \<and>
        (let v = Verify (sha256 E) (sort_key al_seq (audit (db w'))) None
         in snd v = None \<and> vr_ok (fst v) \<and> vr_count (fst v) = int (length (audit (db w))) + 1)"
proof (cases "Append E e w")
  case (Pair r w')
  show ?thesis
  proof (cases r)
    case (Inl x)
    with Pair Append_err show ?thesis by simp
  next
    case (Inr u)
    with Append_ok [OF Pair [unfolded Inr] assms(1,2)] obtain a where
      a: "db w' = (db w)\<lparr>audit := audit (db w) @ [a]\<rparr>" "chained E e (audit (db w)) a" by blast
    have "sort_key al_seq (audit (db w')) = audit (db w) @ [a]"
      using log_ok_sorted [OF log_ok_append [OF a(2) assms(3)]] a(1) by simp
    moreover have "snd (Verify (sha256 E) (audit (db w) @ [a]) None) = None"
      using a(2) by (simp add: Verify_chain chained_def)
    ultimately show ?thesis
      using a Pair Inr Verify_result [of "sha256 E" "audit (db w) @ [a]" None] by (auto simp: Let_def)
  qed
qed

theorem Append_verifies_witness:
  "case Append env0 \<lparr>ae_actor = ''system'', ae_action = ''payment.created'', ae_agg_type = ''payment'',
       ae_agg_id = ''p1'', ae_occurred = None, ae_data = JString ''x''\<rparr> (idle no_tables) of
      (Inl x, w') \<Rightarrow> db w' = no_tables
    | (Inr u, w') \<Rightarrow> vr_count (fst (Verify (sha256 env0) (sort_key al_seq (audit (db w'))) None)) = 1"
  using Append_verifies [of env0 "idle no_tables" "\<lparr>ae_actor = ''system'', ae_action = ''payment.created'',
       ae_agg_type = ''payment'', ae_agg_id = ''p1'', ae_occurred = None, ae_data = JString ''x''\<rparr>"]
  by (auto simp: log_ok_def no_tables_def micro_exact_def Let_def split: prod.splits sum.splits)

text \<open>
  C8. Tamper evidence: take a log that verifies and any other list of rows that verifies against
  the first one's head hash (\<open>WithExpectedHead\<close>). Then both record the same entries, in the same
  order, with the same hashes: no row was edited, dropped, inserted or reordered, unless the two
  logs themselves contain two different preimages with the same SHA-256 value.
\<close>
theorem Verify_tamper_evident:
  assumes "\<And>x. length (sha x) = 32" "\<forall>r \<in> set rs \<union> set ss. go_row r"
    "int64 (int (length rs))" "int64 (int (length ss))" "rs \<noteq> []"
    "snd (Verify sha rs None) = None" "snd (Verify sha ss (Some (al_hash (last rs)))) = None"
  shows "(map recorded ss = map recorded rs \<and> map al_hash ss = map al_hash rs \<and> map al_prev ss = map al_prev rs)
    \<or> collision_in sha rs ss"
proof (cases "collision_in sha rs ss")
  case False
  have c: "chain sha 0 genesisPrevHash rs" "chain sha 0 genesisPrevHash ss"
    using assms(6,7) by (simp_all add: Verify_chain)
  have "length (al_hash (last rs)) = 32"
    using chain_hash_preimage [OF c(1), of "last rs"] assms(1,5) by simp
  then have h: "ss \<noteq> []" "al_hash (last rs) = al_hash (last ss)"
    using assms(7) by (auto simp: Verify_chain split: if_splits)
  have "length rs = length ss"
    by (rule same_head_same_length [OF c assms(5) h False assms(2) assms(1) assms(3,4)])
  from chains_agree [OF this c h(2) False assms(2) assms(1)] show ?thesis by simp
qed simp

lemma be_bytes_last: "be_bytes (Suc k) v ! k = char_of (v mod 256)"
proof -
  have "(be_bytes k (v div 256) @ [char_of (v mod 256)]) ! length (be_bytes k (v div 256)) = char_of (v mod 256)"
    by (rule nth_append_length)
  then show ?thesis unfolding be_bytes.simps length_be_bytes .
qed

lemma env0_hash:
  assumes "length prev = 32"
  shows "entryHash (sha256 env0) prev (canonical s a1 a2 a3 a4 m p) =
    replicate 31 (CHR 0x00) @ [char_of (nat (s mod 18446744073709551616) mod 256)]"
proof -
  have w: "writeUint64 s ! 7 = char_of (nat (s mod 18446744073709551616) mod 256)"
    using be_bytes_last [of 7] unfolding writeUint64_def by (simp only: Suc_numeral semiring_norm)
  define c where "c = canonical s a1 a2 a3 a4 m p"
  define rest where "rest = writeUint64 m @ writeField a1 @ writeField a2 @ writeField a3 @ writeField a4 @ writeField p"
  have c: "c = writeUint64 s @ rest" by (simp only: c_def rest_def canonical_def)
  have "(prev @ c) ! 39 = c ! 7" using assms by (simp add: nth_append)
  also have "\<dots> = writeUint64 s ! 7" by (simp add: c nth_append)
  finally have "(prev @ c) ! 39 = char_of (nat (s mod 18446744073709551616) mod 256)" by (simp only: w)
  moreover have "39 < length (prev @ c)" using assms by (simp add: c)
  ultimately have "sha256 env0 (prev @ c) = replicate 31 (CHR 0x00) @ [char_of (nat (s mod 18446744073709551616) mod 256)]"
    by (simp only: env0_def env.simps if_True)
  then show ?thesis by (simp only: entryHash_def c_def)
qed

lemma env0_hash_length: "length (entryHash (sha256 env0) prev c) = 32"
  by (simp add: entryHash_def env0_def)

definition demo_log :: "AuditLog list" where
  "demo_log = [\<lparr>al_seq = 1, al_prev = genesisPrevHash,
     al_hash = entryHash (sha256 env0) genesisPrevHash (canonical 1 ''op'' ''a'' ''t'' ''i'' 0 ''{}''),
     al_actor = ''op'', al_action = ''a'', al_agg_type = ''t'', al_agg_id = ''i'', al_occurred = 0,
     al_payload = ''{}''\<rparr>]"

theorem Verify_tamper_evident_witness:
  "snd (Verify (sha256 env0) demo_log (Some (al_hash (last demo_log)))) = None \<and>
   (map al_prev demo_log = [genesisPrevHash] \<or> collision_in (sha256 env0) demo_log demo_log)"
proof -
  have "length (sha256 env0 x) = 32" for x by (simp add: env0_def)
  moreover have "snd (Verify (sha256 env0) demo_log None) = None"
    "snd (Verify (sha256 env0) demo_log (Some (al_hash (last demo_log)))) = None"
    by (simp_all add: Verify_chain demo_log_def row_pre_def UnixMicro_def wrap64_def)
  ultimately show ?thesis
    using Verify_tamper_evident [of "sha256 env0" demo_log demo_log]
    by (auto simp: demo_log_def go_row_def go_fields_def int64_def UnixMicro_def)
qed

end
