(* ===== verification/Events.thy ===== *)
theory Events
  imports Outbox AuditChain
begin

section \<open>Announcing a state change\<close>

text \<open>
  Every state change of the payments and settlement services ends with the same two writes of its
  transaction: the outbox event (\<open>outbox.Emit\<close>) and the audit row (\<open>audit.Append\<close>). \<open>announced\<close>
  says what the two together do to the tables.
\<close>

definition emitted :: "env \<Rightarrow> Event \<Rightarrow> Outbox \<Rightarrow> bool" where
  "emitted E e r \<longleftrightarrow> ob_type r = ev_type e \<and> ob_aggregate r = ev_aggregate e \<and> ob_sent r = None \<and>
     (\<exists>now payload. json_Marshal E (envelope E (ob_id r) now e) = Inr payload \<and>
        jsonb E payload = Some (ob_payload r))"

definition announced :: "env \<Rightarrow> Event \<Rightarrow> AuditEntry \<Rightarrow> tables \<Rightarrow> tables \<Rightarrow> bool" where
  "announced E e a t t' \<longleftrightarrow>
     (\<exists>ev row. t' = t\<lparr>outbox := outbox t @ [ev], audit := audit t @ [row]\<rparr> \<and>
        emitted E e ev \<and> ob_id ev \<notin> ob_id ` set (outbox t) \<and> chained E a (audit t) row)"

lemma Emit_ok:
  assumes "Emit E e w = (Inr u, w')"
  shows "\<exists>r. db w' = (db w)\<lparr>outbox := outbox (db w) @ [r]\<rparr> \<and> emitted E e r \<and>
     ob_id r \<notin> ob_id ` set (outbox (db w)) \<and> same_outside w w'"
proof -
  let ?i = "fresh E (tick w) 0" and ?now = "clock E (Suc (tick w))" and ?w = "w\<lparr>tick := Suc (Suc (tick w))\<rparr>"
  from assms obtain payload where m: "json_Marshal E (envelope E ?i ?now e) = Inr payload"
    and i: "InsertOutboxEvent E ?i (ev_type e) (ev_aggregate e) payload ?w = (Inr u, w')"
    unfolding Emit_def Let_def uuid_New_def time_Now_def by (auto elim!: chk_okE)
  from i obtain doc where doc: "jsonb E payload = Some doc" "\<not> list_ex (\<lambda>o'. ob_id o' = ?i) (outbox (db w))"
    and w': "w' = ?w\<lparr>db := (db w)\<lparr>outbox := outbox (db w) @ [\<lparr>ob_id = ?i, ob_type = ev_type e,
        ob_aggregate = ev_aggregate e, ob_payload = doc, ob_created = pg_now E ?w, ob_sent = None\<rparr>]\<rparr>,
        tick := Suc (tick ?w)\<rparr>"
    unfolding InsertOutboxEvent_def
    by (elim query_okE) (auto split: option.splits if_splits)
  have "?i \<notin> ob_id ` set (outbox (db w))" using doc(2) by (auto simp: list_ex_iff)
  moreover have "emitted E e \<lparr>ob_id = ?i, ob_type = ev_type e, ob_aggregate = ev_aggregate e,
      ob_payload = doc, ob_created = pg_now E ?w, ob_sent = None\<rparr>"
    unfolding emitted_def using m doc(1) by simp blast
  ultimately show ?thesis
    unfolding w' by (intro exI [of _ "\<lparr>ob_id = ?i, ob_type = ev_type e,
        ob_aggregate = ev_aggregate e, ob_payload = doc, ob_created = pg_now E ?w, ob_sent = None\<rparr>"]) simp
qed

lemma announced_ok:
  assumes "Emit E e w = (Inr u, w1)" "Append E a w1 = (Inr v, w2)" "log_ok E (db w)" "micro_exact E"
  shows "announced E e a (db w) (db w2)" "same_outside w w2"
proof -
  from Emit_ok [OF assms(1)] obtain r where
    r: "db w1 = (db w)\<lparr>outbox := outbox (db w) @ [r]\<rparr>" "emitted E e r"
      "ob_id r \<notin> ob_id ` set (outbox (db w))" "same_outside w w1" by blast
  have "log_ok E (db w1)" using assms(3) r(1) by (simp add: log_ok_def)
  from Append_ok [OF assms(2) this assms(4)] obtain row where
    row: "db w2 = (db w1)\<lparr>audit := audit (db w1) @ [row]\<rparr>" "chained E a (audit (db w1)) row"
      "same_outside w1 w2" by blast
  have "db w2 = (db w)\<lparr>outbox := outbox (db w) @ [r], audit := audit (db w) @ [row]\<rparr>"
    "chained E a (audit (db w)) row"
    using row r(1) by simp_all
  with r(2,3) show "announced E e a (db w) (db w2)" unfolding announced_def by blast
  show "same_outside w w2" by (rule same_outside_trans [OF r(4) row(3)])
qed

lemma announced_tables:
  assumes "announced E e a t t'"
  shows "accounts t' = accounts t" "journal t' = journal t" "elines t' = elines t"
    "payments t' = payments t" "settlements t' = settlements t" "idem t' = idem t"
    "approvals t' = approvals t" "velocity t' = velocity t" "subscriptions t' = subscriptions t"
    "deliveries t' = deliveries t"
  using assms by (auto simp: announced_def)

lemma announced_chain:
  "announced E e a t t' \<Longrightarrow> chain (sha256 E) 0 genesisPrevHash (audit t')"
  by (auto simp: announced_def chained_def)

lemma announced_outbox:
  "announced E e a t t' \<Longrightarrow> distinct (map ob_id (outbox t)) \<Longrightarrow> distinct (map ob_id (outbox t'))"
  by (auto simp: announced_def)

lemma announced_audit_length: "announced E e a t t' \<Longrightarrow> length (audit t') = Suc (length (audit t))"
  by (auto simp: announced_def)

end
