(* ===== verification/Payments.thy ===== *)
theory Payments
  imports Ledger Events
begin

section \<open>Payments\<close>

text \<open>
  \<open>internal/payments/payments.go\<close>: \<open>Create\<close> and \<open>Cancel\<close> write a journal entry, the payment row,
  an outbox event and an audit row in one transaction; \<open>Get\<close> and \<open>List\<close> read. The lemmas give the
  exact effect of the two writes, show that a cancellation undoes what the creation did to every
  balance and can happen once, that the system invariant \<open>rail_ok\<close> survives, and that walking the
  pages of \<open>List\<close> yields every payment once, newest first.
\<close>

subsection \<open>Creating and canceling\<close>

definition paymentEvent :: "env \<Rightarrow> Payment \<Rightarrow> json" where
  "paymentEvent E p = JObject
     [(''id'', JString (uuid_String E (pay_id p))), (''asset'', JString (pay_asset p)),
      (''amount'', JNumber (pay_amount p)), (''source_account_id'', JString (uuid_String E (pay_source p))),
      (''dest_account_id'', JString (uuid_String E (pay_dest p))), (''status'', JString (pay_status p))]"

record CreateInput =
  ci_source :: uuid
  ci_dest :: uuid
  ci_asset :: string
  ci_amount :: int

definition payment_entry :: "env \<Rightarrow> uuid \<Rightarrow> CreateInput \<Rightarrow> Entry" where
  "payment_entry E pid inp =
     \<lparr>en_kind = ''payment'', en_ref = uuid_String E pid, en_asset = ci_asset inp,
      en_lines = [\<lparr>ln_account = ci_source inp, ln_direction = Debit, ln_amount = ci_amount inp\<rparr>,
                  \<lparr>ln_account = ci_dest inp, ln_direction = Credit, ln_amount = ci_amount inp\<rparr>]\<rparr>"

text \<open>The event and the audit entry that both writes end with.\<close>

definition payment_event :: "env \<Rightarrow> string \<Rightarrow> uuid \<Rightarrow> Payment \<Rightarrow> Event" where
  "payment_event E typ i p = \<lparr>ev_type = typ, ev_aggregate = uuid_String E i, ev_data = paymentEvent E p\<rparr>"

definition payment_audit :: "env \<Rightarrow> string \<Rightarrow> uuid \<Rightarrow> Payment \<Rightarrow> AuditEntry" where
  "payment_audit E typ i p =
     \<lparr>ae_actor = ''system:payments'', ae_action = typ, ae_agg_type = ''payment'',
      ae_agg_id = uuid_String E i, ae_occurred = None, ae_data = paymentEvent E p\<rparr>"

definition Create :: "env \<Rightarrow> CreateInput \<Rightarrow> world \<Rightarrow> Payment result \<times> world" where
  "Create E inp w =
     (let (pid, w) = uuid_New E w in
      ExecTx E (\<lambda>w.
        chk (PostWithin E (payment_entry E pid inp) w) (\<lambda>je w.
        chk (InsertPayment E pid ''completed'' (ci_asset inp) (ci_amount inp) (ci_source inp)
               (ci_dest inp) (je_id je) w) (\<lambda>payment w.
        chk (Emit E (payment_event E ''payment.created'' pid payment) w) (\<lambda>_ w.
        chk (Append E (payment_audit E ''payment.created'' pid payment) w) (\<lambda>_ w.
          (Inr payment, w)))))) w)"

definition Get :: "env \<Rightarrow> uuid \<Rightarrow> world \<Rightarrow> Payment result \<times> world" where
  "Get E i w = map_err (\<lambda>e. if errorsIs e ErrNoRows then ErrPaymentNotFound else e) (GetPayment E i w)"

definition reversal_entry :: "env \<Rightarrow> uuid \<Rightarrow> Payment \<Rightarrow> Entry" where
  "reversal_entry E i p =
     \<lparr>en_kind = ''payment.reversal'', en_ref = uuid_String E i @ '':reversal'', en_asset = pay_asset p,
      en_lines = [\<lparr>ln_account = pay_dest p, ln_direction = Debit, ln_amount = pay_amount p\<rparr>,
                  \<lparr>ln_account = pay_source p, ln_direction = Credit, ln_amount = pay_amount p\<rparr>]\<rparr>"

definition Cancel :: "env \<Rightarrow> uuid \<Rightarrow> world \<Rightarrow> Payment result \<times> world" where
  "Cancel E i = ExecTx E (\<lambda>w.
     chk (map_err (\<lambda>e. if errorsIs e ErrNoRows then ErrPaymentNotFound else e) (GetPayment E i w)) (\<lambda>payment w.
     chk (guard (pay_status payment \<noteq> ''completed'') ErrPaymentNotCancelable, w) (\<lambda>_ w.
     chk (PostWithin E (reversal_entry E i payment) w) (\<lambda>je w.
     chk (map_err (\<lambda>e. if errorsIs e ErrNoRows then ErrPaymentNotCancelable else e)
            (CancelPayment E i (je_id je) w)) (\<lambda>canceled w.
     chk (Emit E (payment_event E ''payment.canceled'' i canceled) w) (\<lambda>_ w.
     chk (Append E (payment_audit E ''payment.canceled'' i canceled) w) (\<lambda>_ w.
       (Inr canceled, w))))))))"

subsection \<open>Listing\<close>

record Cursor =
  cu_created :: time
  cu_id :: uuid

text \<open>A limit below 1 makes the indexing of the last kept row panic when a row came back.\<close>

definition PaymentsList :: "env \<Rightarrow> int \<Rightarrow> Cursor option \<Rightarrow> world \<Rightarrow> (Payment list \<times> Cursor option) result \<times> world" where
  "PaymentsList E limit after w =
     chk (case after of
            None \<Rightarrow> ListPaymentsFirstPage E (wrap32 (limit + 1)) w
          | Some c \<Rightarrow> ListPaymentsAfter E (cu_created c) (cu_id c) (wrap32 (limit + 1)) w) (\<lambda>rows w.
       if wrap32 (int (length rows)) \<le> limit then (Inr (rows, None), w)
       else if limit < 1 then (Inl (OpError ''panic''), w)
       else (let rows = take (nat limit) rows
             in (Inr (rows, Some \<lparr>cu_created = pay_created (last rows), cu_id = pay_id (last rows)\<rparr>), w)))"

subsection \<open>Effects of the statements\<close>

lemma InsertPayment_ok:
  assumes "InsertPayment E i status asset amount src dst entry w = (Inr p, w')"
  shows "db w' = (db w)\<lparr>payments := payments (db w) @ [p]\<rparr>" "pay_id p = i" "pay_status p = status"
    "pay_asset p = asset" "pay_amount p = amount" "pay_source p = src" "pay_dest p = dst"
    "pay_entry p = entry" "pay_reversal p = None" "pay_canceled p = None"
    "i \<notin> pay_id ` set (payments (db w))" "same_outside w w'"
proof -
  have x: "w' = w\<lparr>db := (db w)\<lparr>payments := payments (db w) @ [p]\<rparr>, tick := Suc (tick w)\<rparr> \<and>
    \<not> list_ex (\<lambda>p. pay_id p = i) (payments (db w)) \<and>
    p = \<lparr>pay_id = i, pay_status = status, pay_asset = asset, pay_amount = amount,
         pay_source = src, pay_dest = dst, pay_entry = entry, pay_reversal = None,
         pay_created = pg_now E w, pay_canceled = None\<rparr>"
    using assms unfolding InsertPayment_def statement_Inr by blast
  then show "i \<notin> pay_id ` set (payments (db w))" by (auto simp: list_ex_iff)
  from x show "db w' = (db w)\<lparr>payments := payments (db w) @ [p]\<rparr>" "same_outside w w'" by simp_all
  from x show "pay_id p = i" "pay_status p = status"
    "pay_asset p = asset" "pay_amount p = amount" "pay_source p = src" "pay_dest p = dst"
    "pay_entry p = entry" "pay_reversal p = None" "pay_canceled p = None" by simp_all
qed

lemma GetPayment_ok:
  assumes "GetPayment E i w = (Inr p, w')"
  shows "p \<in> set (payments (db w))" "pay_id p = i" "db w' = db w" "same_outside w w'"
  using assms unfolding GetPayment_def
  by (auto elim!: reading_okE dest: find_Some_in)

definition cancel_row :: "uuid \<Rightarrow> time \<Rightarrow> Payment \<Rightarrow> Payment" where
  "cancel_row reversal now p =
     p\<lparr>pay_status := ''canceled'', pay_reversal := Some reversal, pay_canceled := Some now\<rparr>"

lemma CancelPayment_ok:
  assumes "CancelPayment E i rv w = (Inr c, w')"
  shows "\<exists>p now. p \<in> set (payments (db w)) \<and> pay_id p = i \<and> pay_status p = ''completed'' \<and>
    c = cancel_row rv now p \<and>
    db w' = (db w)\<lparr>payments := update_where (\<lambda>p. pay_id p = i \<and> pay_status p = ''completed'')
               (cancel_row rv now) (payments (db w))\<rparr>" "same_outside w w'"
proof -
  let ?hit = "\<lambda>p. pay_id p = i \<and> pay_status p = ''completed''"
  from assms obtain p where f: "List.find ?hit (payments (db w)) = Some p"
    by (cases "List.find ?hit (payments (db w))") (auto simp: CancelPayment_def query_Inr)
  with assms have x: "c = cancel_row rv (pg_now E w) p \<and>
      w' = w\<lparr>db := (db w)\<lparr>payments := update_where ?hit (cancel_row rv (pg_now E w)) (payments (db w))\<rparr>,
             tick := Suc (tick w)\<rparr>"
    unfolding CancelPayment_def statement_Inr cancel_row_def [abs_def]
    by (simp only: option.case if_Inl_Inr sum.inject prod.inject) blast
  from find_Some_in [OF f] x
  show "\<exists>p now. p \<in> set (payments (db w)) \<and> pay_id p = i \<and> pay_status p = ''completed'' \<and>
    c = cancel_row rv now p \<and>
    db w' = (db w)\<lparr>payments := update_where ?hit (cancel_row rv now) (payments (db w))\<rparr>"
    by (intro exI [of _ p] exI [of _ "pg_now E w"]) simp
  from x show "same_outside w w'" by simp
qed

lemma update_where_by_key:
  assumes "distinct (map k xs)" "x \<in> set xs" "P x" "\<And>y. P y \<Longrightarrow> k y = k x"
  shows "update_where P f xs = update_where (\<lambda>y. k y = k x) f xs"
proof -
  have "inj_on k (set xs)" using assms(1) by (simp add: distinct_map)
  then have "P y \<longleftrightarrow> k y = k x" if "y \<in> set xs" for y
    using assms(2-4) that inj_onD [of k "set xs" y x] by blast
  then show ?thesis by (simp add: update_where_def)
qed

subsection \<open>What the two writes do\<close>

definition created :: "CreateInput \<Rightarrow> JournalEntry \<Rightarrow> Payment \<Rightarrow> bool" where
  "created inp je p \<longleftrightarrow> pay_status p = ''completed'' \<and> pay_asset p = ci_asset inp \<and>
     pay_amount p = ci_amount inp \<and> pay_source p = ci_source inp \<and> pay_dest p = ci_dest inp \<and>
     pay_entry p = je_id je \<and> pay_reversal p = None \<and> pay_canceled p = None"

definition create_effect :: "env \<Rightarrow> CreateInput \<Rightarrow> Payment \<Rightarrow> tables \<Rightarrow> tables \<Rightarrow> bool" where
  "create_effect E inp p t t' \<longleftrightarrow>
     (\<exists>je t1. postable (payment_entry E (pay_id p) inp) t \<and>
        posted (payment_entry E (pay_id p) inp) je t t1 \<and> je_id je \<notin> je_id ` set (journal t) \<and>
        created inp je p \<and> pay_id p \<notin> pay_id ` set (payments t) \<and>
        announced E (payment_event E ''payment.created'' (pay_id p) p)
          (payment_audit E ''payment.created'' (pay_id p) p) (t1\<lparr>payments := payments t @ [p]\<rparr>) t')"

lemma Create_ok:
  assumes "Create E inp w = (Inr p, w')" "ledger_ok (db w)" "log_ok E (db w)" "micro_exact E"
  shows "create_effect E inp p (db w) (db w')"
proof -
  let ?pid = "fresh E (tick w) 0" and ?w0 = "w\<lparr>tick := Suc (tick w)\<rparr>"
  from assms(1) have x: "ExecTx E (\<lambda>w.
        chk (PostWithin E (payment_entry E ?pid inp) w) (\<lambda>je w.
        chk (InsertPayment E ?pid ''completed'' (ci_asset inp) (ci_amount inp) (ci_source inp)
               (ci_dest inp) (je_id je) w) (\<lambda>payment w.
        chk (Emit E (payment_event E ''payment.created'' ?pid payment) w) (\<lambda>_ w.
        chk (Append E (payment_audit E ''payment.created'' ?pid payment) w) (\<lambda>_ w.
          (Inr payment, w)))))) ?w0 = (Inr p, w')"
    by (simp add: Create_def uuid_New_def)
  obtain w1 w2 where w1: "db w1 = db w" and w': "db w' = db w2"
    and run: "chk (PostWithin E (payment_entry E ?pid inp) w1) (\<lambda>je w.
        chk (InsertPayment E ?pid ''completed'' (ci_asset inp) (ci_amount inp) (ci_source inp)
               (ci_dest inp) (je_id je) w) (\<lambda>payment w.
        chk (Emit E (payment_event E ''payment.created'' ?pid payment) w) (\<lambda>_ w.
        chk (Append E (payment_audit E ''payment.created'' ?pid payment) w) (\<lambda>_ w.
          (Inr payment, w))))) = (Inr p, w2)"
    by (rule sql.exec_okE [OF x]) simp
  from run obtain je wa wb u wc v where
    po: "PostWithin E (payment_entry E ?pid inp) w1 = (Inr je, wa)"
    and ip: "InsertPayment E ?pid ''completed'' (ci_asset inp) (ci_amount inp) (ci_source inp)
               (ci_dest inp) (je_id je) wa = (Inr p, wb)"
    and em: "Emit E (payment_event E ''payment.created'' ?pid p) wb = (Inr u, wc)"
    and ap: "Append E (payment_audit E ''payment.created'' ?pid p) wc = (Inr v, w2)"
    by (elim chk_okE) simp
  have d: "distinct (map acc_id (accounts (db w1)))" using ledger_okD(1) [OF assms(2)] w1 by simp
  note po' = PostWithin_ok [OF po d]
  note ip' = InsertPayment_ok [OF ip]
  note tabs = posted_tables [OF po'(2)]
  have "log_ok E (db wb)" using assms(3) ip'(1) tabs(6) w1 by (simp add: log_ok_def)
  from announced_ok(1) [OF em ap this assms(4)] have
    "announced E (payment_event E ''payment.created'' ?pid p)
       (payment_audit E ''payment.created'' ?pid p) ((db wa)\<lparr>payments := payments (db w) @ [p]\<rparr>) (db w')"
    using ip'(1) tabs(3) w1 w' by simp
  moreover have "created inp je p" using ip' by (simp add: created_def)
  moreover have "?pid \<notin> pay_id ` set (payments (db w))" using ip'(11) tabs(3) w1 by simp
  ultimately show ?thesis
    unfolding create_effect_def using po'(1-3) ip'(2) w1 by (intro exI [of _ je] exI [of _ "db wa"]) simp
qed


definition cancel_effect :: "env \<Rightarrow> uuid \<Rightarrow> Payment \<Rightarrow> tables \<Rightarrow> tables \<Rightarrow> bool" where
  "cancel_effect E i c t t' \<longleftrightarrow>
     (\<exists>p je t1 now. p \<in> set (payments t) \<and> pay_id p = i \<and> pay_status p = ''completed'' \<and>
        postable (reversal_entry E i p) t \<and> posted (reversal_entry E i p) je t t1 \<and>
        je_id je \<notin> je_id ` set (journal t) \<and> c = cancel_row (je_id je) now p \<and>
        announced E (payment_event E ''payment.canceled'' i c) (payment_audit E ''payment.canceled'' i c)
          (t1\<lparr>payments := update_where (\<lambda>p. pay_id p = i) (cancel_row (je_id je) now) (payments t)\<rparr>) t')"

lemma Cancel_ok:
  assumes "Cancel E i w = (Inr c, w')" "ledger_ok (db w)" "log_ok E (db w)" "micro_exact E"
    "distinct (map pay_id (payments (db w)))"
  shows "cancel_effect E i c (db w) (db w')"
proof -
  obtain w1 w2 where w1: "db w1 = db w" and w': "db w' = db w2"
    and run: "chk (map_err (\<lambda>e. if errorsIs e ErrNoRows then ErrPaymentNotFound else e) (GetPayment E i w1)) (\<lambda>payment w.
     chk (guard (pay_status payment \<noteq> ''completed'') ErrPaymentNotCancelable, w) (\<lambda>_ w.
     chk (PostWithin E (reversal_entry E i payment) w) (\<lambda>je w.
     chk (map_err (\<lambda>e. if errorsIs e ErrNoRows then ErrPaymentNotCancelable else e)
            (CancelPayment E i (je_id je) w)) (\<lambda>canceled w.
     chk (Emit E (payment_event E ''payment.canceled'' i canceled) w) (\<lambda>_ w.
     chk (Append E (payment_audit E ''payment.canceled'' i canceled) w) (\<lambda>_ w.
       (Inr canceled, w))))))) = (Inr c, w2)"
    by (rule sql.exec_okE [OF assms(1) [unfolded Cancel_def]]) simp
  from run obtain p wp je wa wb u wc v where
    gp: "GetPayment E i w1 = (Inr p, wp)" and st: "pay_status p = ''completed''"
    and po: "PostWithin E (reversal_entry E i p) wp = (Inr je, wa)"
    and cp: "CancelPayment E i (je_id je) wa = (Inr c, wb)"
    and em: "Emit E (payment_event E ''payment.canceled'' i c) wb = (Inr u, wc)"
    and ap: "Append E (payment_audit E ''payment.canceled'' i c) wc = (Inr v, w2)"
    by (elim chk_okE) simp
  note gp' = GetPayment_ok [OF gp]
  have dbp: "db wp = db w" using gp'(3) w1 by simp
  have d: "distinct (map acc_id (accounts (db wp)))" using ledger_okD(1) [OF assms(2)] dbp by simp
  note po' = PostWithin_ok [OF po d, unfolded dbp]
  note tabs = posted_tables [OF po'(2)]
  from CancelPayment_ok(1) [OF cp] obtain q now where
    q: "q \<in> set (payments (db w))" "pay_id q = i" "pay_status q = ''completed''" "c = cancel_row (je_id je) now q"
      "db wb = (db wa)\<lparr>payments := update_where (\<lambda>p. pay_id p = i \<and> pay_status p = ''completed'')
         (cancel_row (je_id je) now) (payments (db w))\<rparr>"
    using tabs(3) by auto
  have qp: "q = p"
    using inj_onD [of pay_id "set (payments (db w))" q p] assms(5) q(1,2) gp'(1,2) w1
    by (simp add: distinct_map)
  have "db wb = (db wa)\<lparr>payments := update_where (\<lambda>p. pay_id p = i) (cancel_row (je_id je) now) (payments (db w))\<rparr>"
    using q(5) update_where_by_key [OF assms(5) q(1), of "\<lambda>p. pay_id p = i \<and> pay_status p = ''completed''"] q(2,3)
    by simp
  moreover have "log_ok E (db wb)" using assms(3) q(5) tabs(6) by (simp add: log_ok_def)
  ultimately have "announced E (payment_event E ''payment.canceled'' i c) (payment_audit E ''payment.canceled'' i c)
      ((db wa)\<lparr>payments := update_where (\<lambda>p. pay_id p = i) (cancel_row (je_id je) now) (payments (db w))\<rparr>) (db w')"
    using announced_ok(1) [OF em ap _ assms(4)] w' by simp
  then show ?thesis
    unfolding cancel_effect_def using q(4) qp gp'(1,2) w1 st po'(1-3)
    by (intro exI [of _ p] exI [of _ je] exI [of _ "db wa"] exI [of _ now]) simp
qed

subsection \<open>Balances\<close>

lemma net_effect_two:
  "net_effect [\<lparr>ln_account = a, ln_direction = Debit, ln_amount = m\<rparr>,
               \<lparr>ln_account = b, ln_direction = Credit, ln_amount = m\<rparr>] x =
     (if x = b then m else 0) - (if x = a then m else 0)"
  by (auto simp: net_effect_def line_signed_def)

lemma fits_two:
  "int64 m \<Longrightarrow> fits [\<lparr>ln_account = a, ln_direction = Debit, ln_amount = m\<rparr>,
               \<lparr>ln_account = b, ln_direction = Credit, ln_amount = m\<rparr>]"
  by (simp add: fits_def side_def int64_def)

lemma balance_cong: "elines t' = elines t \<Longrightarrow> balance t' a = balance t a"
  by (simp add: balance_def)

lemma create_balance:
  assumes "create_effect E inp p t t'"
  shows "balance t' a = balance t a + (if a = ci_dest inp then ci_amount inp else 0)
    - (if a = ci_source inp then ci_amount inp else 0)"
proof -
  from assms obtain je t1 where
    po: "posted (payment_entry E (pay_id p) inp) je t t1"
    and an: "announced E (payment_event E ''payment.created'' (pay_id p) p)
          (payment_audit E ''payment.created'' (pay_id p) p) (t1\<lparr>payments := payments t @ [p]\<rparr>) t'"
    unfolding create_effect_def by blast
  have "balance t' a = balance t1 a"
    by (rule balance_cong) (simp add: announced_tables(3) [OF an])
  then show ?thesis
    using posted_balance [OF po, of a] by (simp add: payment_entry_def net_effect_two)
qed

lemma cancel_balance:
  assumes "cancel_effect E i c t t'"
  shows "balance t' a = balance t a + (if a = pay_source c then pay_amount c else 0)
    - (if a = pay_dest c then pay_amount c else 0)"
proof -
  from assms obtain p je t1 now where
    po: "posted (reversal_entry E i p) je t t1" and c: "c = cancel_row (je_id je) now p"
    and an: "announced E (payment_event E ''payment.canceled'' i c) (payment_audit E ''payment.canceled'' i c)
          (t1\<lparr>payments := update_where (\<lambda>p. pay_id p = i) (cancel_row (je_id je) now) (payments t)\<rparr>) t'"
    unfolding cancel_effect_def by blast
  have "balance t' a = balance t1 a"
    by (rule balance_cong) (simp add: announced_tables(3) [OF an])
  then show ?thesis
    using posted_balance [OF po, of a] c by (simp add: reversal_entry_def net_effect_two cancel_row_def)
qed


subsection \<open>The invariant\<close>

definition posted_as :: "tables \<Rightarrow> uuid \<Rightarrow> string \<Rightarrow> string \<Rightarrow> bool" where
  "posted_as t i kind ref \<longleftrightarrow> (\<exists>j \<in> set (journal t). je_id j = i \<and> je_kind j = kind \<and> je_ref j = ref)"

definition payment_ok :: "env \<Rightarrow> tables \<Rightarrow> Payment \<Rightarrow> bool" where
  "payment_ok E t p \<longleftrightarrow> 0 < pay_amount p \<and> int64 (pay_amount p) \<and>
     posted_as t (pay_entry p) ''payment'' (uuid_String E (pay_id p)) \<and>
     (pay_status p = ''completed'' \<and> pay_reversal p = None \<and> pay_canceled p = None \<or>
      pay_status p = ''canceled'' \<and> pay_canceled p \<noteq> None \<and>
        (\<exists>r. pay_reversal p = Some r \<and>
             posted_as t r ''payment.reversal'' (uuid_String E (pay_id p) @ '':reversal'')))"

definition rail_ok :: "env \<Rightarrow> tables \<Rightarrow> bool" where
  "rail_ok E t \<longleftrightarrow> ledger_ok t \<and> distinct (map pay_id (payments t)) \<and>
     (\<forall>p \<in> set (payments t). payment_ok E t p) \<and>
     chain (sha256 E) 0 genesisPrevHash (audit t) \<and> distinct (map ob_id (outbox t))"

lemma rail_okD:
  assumes "rail_ok E t"
  shows "ledger_ok t" "distinct (map pay_id (payments t))" "\<And>p. p \<in> set (payments t) \<Longrightarrow> payment_ok E t p"
    "chain (sha256 E) 0 genesisPrevHash (audit t)" "distinct (map ob_id (outbox t))"
  using assms by (simp_all add: rail_ok_def)

lemma ledger_ok_tables:
  "accounts t' = accounts t \<Longrightarrow> journal t' = journal t \<Longrightarrow> elines t' = elines t \<Longrightarrow>
     ledger_ok t' \<longleftrightarrow> ledger_ok t"
  by (simp add: ledger_ok_def line_ok_def entry_sum_def balance_def)

lemma posted_as_mono: "posted_as t i k r \<Longrightarrow> set (journal t) \<subseteq> set (journal t') \<Longrightarrow> posted_as t' i k r"
  by (auto simp: posted_as_def)

lemma payment_ok_mono:
  "payment_ok E t p \<Longrightarrow> set (journal t) \<subseteq> set (journal t') \<Longrightarrow> payment_ok E t' p"
  using posted_as_mono [of t _ _ _ t'] by (auto simp: payment_ok_def)

lemma postable_positive:
  "postable e t \<Longrightarrow> l \<in> set (en_lines e) \<Longrightarrow> 0 < ln_amount l"
  using validate_ok by (auto simp: postable_def well_formed_def)

lemma posted_rail:
  assumes "rail_ok E t" "postable e t" "posted e je t t1" "je_id je \<notin> je_id ` set (journal t)" "fits (en_lines e)"
  shows "ledger_ok t1" "set (journal t) \<subseteq> set (journal t1)" "posted_as t1 (je_id je) (en_kind e) (en_ref e)"
  using posted_ledger_ok [OF rail_okD(1) [OF assms(1)] assms(2-5)] posted_tables(2) [OF assms(3)] assms(3)
  by (auto simp: posted_as_def posted_def)

lemma create_rail_ok:
  assumes "rail_ok E t" "create_effect E inp p t t'" "int64 (ci_amount inp)"
  shows "rail_ok E t'"
proof -
  from assms(2) obtain je t1 where
    pb: "postable (payment_entry E (pay_id p) inp) t"
    and po: "posted (payment_entry E (pay_id p) inp) je t t1" "je_id je \<notin> je_id ` set (journal t)"
    and cr: "created inp je p" "pay_id p \<notin> pay_id ` set (payments t)"
    and an: "announced E (payment_event E ''payment.created'' (pay_id p) p)
          (payment_audit E ''payment.created'' (pay_id p) p) (t1\<lparr>payments := payments t @ [p]\<rparr>) t'"
    unfolding create_effect_def by blast
  note r = posted_rail [OF assms(1) pb po]
  have "fits (en_lines (payment_entry E (pay_id p) inp))"
    using fits_two [OF assms(3)] by (simp add: payment_entry_def)
  note r = r [OF this]
  note T = announced_tables [OF an]
  have j: "set (journal t) \<subseteq> set (journal t')" using r(2) T(2) by simp
  have "ledger_ok t'" using r(1) ledger_ok_tables [of t' t1] T(1-3) by simp
  moreover have "distinct (map pay_id (payments t'))"
    using rail_okD(2) [OF assms(1)] cr(2) T(4) by simp
  moreover have "payment_ok E t' q" if "q \<in> set (payments t')" for q
  proof (cases "q \<in> set (payments t)")
    case True
    show ?thesis by (rule payment_ok_mono [OF rail_okD(3) [OF assms(1) True] j])
  next
    case False
    with that T(4) have q: "q = p" by simp
    have "posted_as t' (je_id je) ''payment'' (uuid_String E (pay_id p))"
      using r(3) T(2) by (simp add: posted_as_def payment_entry_def)
    moreover have "0 < ci_amount inp"
      using postable_positive [OF pb, of "\<lparr>ln_account = ci_source inp, ln_direction = Debit,
        ln_amount = ci_amount inp\<rparr>"]
      by (simp add: payment_entry_def)
    ultimately show ?thesis using cr(1) assms(3) by (simp add: q payment_ok_def created_def)
  qed
  moreover have "outbox t1 = outbox t" using posted_tables(5) [OF po(1)] .
  then have "distinct (map ob_id (outbox t'))"
    using announced_outbox [OF an] rail_okD(5) [OF assms(1)] by simp
  ultimately show ?thesis using announced_chain [OF an] by (simp add: rail_ok_def)
qed

lemma cancel_rail_ok:
  assumes "rail_ok E t" "cancel_effect E i c t t'"
  shows "rail_ok E t'"
proof -
  from assms(2) obtain p je t1 now where p: "p \<in> set (payments t)" "pay_id p = i"
    and pb: "postable (reversal_entry E i p) t"
    and po: "posted (reversal_entry E i p) je t t1" "je_id je \<notin> je_id ` set (journal t)"
    and an: "announced E (payment_event E ''payment.canceled'' i c) (payment_audit E ''payment.canceled'' i c)
          (t1\<lparr>payments := update_where (\<lambda>p. pay_id p = i) (cancel_row (je_id je) now) (payments t)\<rparr>) t'"
    unfolding cancel_effect_def by blast
  have pok: "payment_ok E t p" using rail_okD(3) [OF assms(1) p(1)] .
  then have "fits (en_lines (reversal_entry E i p))"
    by (simp add: reversal_entry_def fits_two payment_ok_def)
  note r = posted_rail [OF assms(1) pb po this]
  note T = announced_tables [OF an]
  have j: "set (journal t) \<subseteq> set (journal t')" using r(2) T(2) by simp
  have rv: "posted_as t' (je_id je) ''payment.reversal'' (uuid_String E i @ '':reversal'')"
    using r(3) T(2) by (simp add: posted_as_def reversal_entry_def)
  have "ledger_ok t'" using r(1) ledger_ok_tables [of t' t1] T(1-3) by simp
  moreover have "distinct (map pay_id (payments t'))"
    using rail_okD(2) [OF assms(1)] T(4) by (simp add: cancel_row_def)
  moreover have "payment_ok E t' q" if "q \<in> set (payments t')" for q
  proof -
    from that T(4) obtain q0 where q0: "q0 \<in> set (payments t)"
      and q: "q = (if pay_id q0 = i then cancel_row (je_id je) now q0 else q0)"
      by (auto simp: update_where_def)
    have "payment_ok E t' q0" using payment_ok_mono [OF rail_okD(3) [OF assms(1) q0] j] .
    then show ?thesis using rv by (auto simp: q payment_ok_def cancel_row_def)
  qed
  moreover have "outbox t1 = outbox t" using posted_tables(5) [OF po(1)] .
  then have "distinct (map ob_id (outbox t'))"
    using announced_outbox [OF an] rail_okD(5) [OF assms(1)] by simp
  ultimately show ?thesis using announced_chain [OF an] by (simp add: rail_ok_def)
qed


subsection \<open>Walking the pages\<close>

text \<open>
  A client's walk: follow the cursors until there is none. \<open>None\<close> as the result means that the walk
  did not end within the given number of pages, or that a page failed.
\<close>

primrec walk_pages :: "env \<Rightarrow> int \<Rightarrow> nat \<Rightarrow> Cursor option \<Rightarrow> world \<Rightarrow> Payment list option" where
  "walk_pages E limit 0 after w = None"
| "walk_pages E limit (Suc n) after w =
     (case PaymentsList E limit after w of
        (Inl e, w') \<Rightarrow> None
      | (Inr (rows, None), w') \<Rightarrow> Some rows
      | (Inr (rows, Some c), w') \<Rightarrow> map_option ((@) rows) (walk_pages E limit n (Some c) w'))"

abbreviation page_key :: "Payment \<Rightarrow> time \<times> uuid" where
  "page_key p \<equiv> (pay_created p, pay_id p)"

definition strictly_newest_first :: "Payment list \<Rightarrow> bool" where
  "strictly_newest_first = sorted_wrt (\<lambda>p q. page_key q < page_key p)"

lemma sorted_wrt_strict:
  fixes f :: "'a \<Rightarrow> 'b::linorder"
  assumes "distinct (map f xs)"
  shows "sorted_wrt (\<lambda>p q. f p < f q) (sort_key f xs)"
proof -
  have "distinct (map f (sort_key f xs))" using assms by (simp add: distinct_map)
  then have "sorted_wrt (<) (map f (sort_key f xs))"
    by (simp add: strict_sorted_iff)
  then show ?thesis by (simp add: sorted_wrt_map)
qed

lemma newest_first_strict:
  assumes "distinct (map pay_id ps)"
  shows "strictly_newest_first (newest_first ps)"
proof -
  have "distinct (map page_key ps)"
    using assms by (simp add: distinct_map inj_on_def)
  then show ?thesis
    using sorted_wrt_strict [of page_key ps] by (simp add: strictly_newest_first_def newest_first_def sorted_wrt_rev)
qed

lemma newest_first_filter: "newest_first (filter P ps) = filter P (newest_first ps)"
  by (simp add: newest_first_def filter_sort [symmetric] rev_filter)

lemma filter_after:
  assumes "strictly_newest_first (xs @ x # ys)"
  shows "filter (\<lambda>p. page_key p < page_key x) (xs @ x # ys) = ys"
proof -
  have "\<forall>y \<in> set xs. \<not> page_key y < page_key x" "\<forall>y \<in> set ys. page_key y < page_key x"
    using assms unfolding strictly_newest_first_def sorted_wrt_append by (auto dest: order_less_asym)
  then show ?thesis by (simp add: filter_empty_conv filter_id_conv [THEN iffD2])
qed

definition page_after :: "env \<Rightarrow> Cursor option \<Rightarrow> tables \<Rightarrow> Payment list" where
  "page_after E after t = (case after of None \<Rightarrow> newest_first (payments t)
     | Some c \<Rightarrow> filter (\<lambda>p. page_key p < (timestamptz E (cu_created c), cu_id c)) (newest_first (payments t)))"

lemma PaymentsList_run:
  assumes "no_faults E" "1 \<le> limit" "limit < 2147483647"
  shows "PaymentsList E limit after w =
    (let rest = page_after E after (db w); page = take (nat limit) rest
     in (Inr (page, if length rest \<le> nat limit then None
                    else Some \<lparr>cu_created = pay_created (last page), cu_id = pay_id (last page)\<rparr>),
         w\<lparr>tick := Suc (tick w)\<rparr>))"
proof -
  let ?rest = "page_after E after (db w)"
  have lim: "wrap32 (limit + 1) = limit + 1" using assms(2,3) by (simp add: wrap32_small)
  have rows: "(case after of
            None \<Rightarrow> ListPaymentsFirstPage E (wrap32 (limit + 1)) w
          | Some c \<Rightarrow> ListPaymentsAfter E (cu_created c) (cu_id c) (wrap32 (limit + 1)) w) =
      (Inr (take (nat (limit + 1)) ?rest), w\<lparr>tick := Suc (tick w)\<rparr>)"
    using assms(2)
    by (cases after) (simp_all add: lim ListPaymentsFirstPage_def ListPaymentsAfter_def
        reading_run [OF assms(1)] limit_rows_def page_after_def newest_first_filter)
  have len: "int (length (take (nat (limit + 1)) ?rest)) \<le> limit \<longleftrightarrow> length ?rest \<le> nat limit"
    using assms(2) by auto
  have w32: "wrap32 (int (length (take (nat (limit + 1)) ?rest))) = int (length (take (nat (limit + 1)) ?rest))"
    using assms(2,3) by (intro wrap32_small) auto
  have tk: "take (nat limit) (take (nat (limit + 1)) ?rest) = take (nat limit) ?rest"
    using assms(2) by simp
  show ?thesis
    using assms(2) unfolding PaymentsList_def rows chk_simps w32 len
    by (auto simp: Let_def tk min_def)
qed

lemma last_take_split:
  assumes "0 < k" "k < length xs"
  shows "xs = butlast (take k xs) @ last (take k xs) # drop k xs"
    "take k xs = butlast (take k xs) @ [last (take k xs)]"
proof -
  have ne: "take k xs \<noteq> []" using assms by auto
  then show t: "take k xs = butlast (take k xs) @ [last (take k xs)]" by simp
  have "xs = take k xs @ drop k xs" by simp
  also have "\<dots> = (butlast (take k xs) @ [last (take k xs)]) @ drop k xs" using t by simp
  finally show "xs = butlast (take k xs) @ last (take k xs) # drop k xs" by simp
qed

lemma walk_pages_run:
  assumes "no_faults E" "1 \<le> limit" "limit < 2147483647" "distinct (map pay_id (payments t))"
    "\<forall>p \<in> set (payments t). timestamptz E (pay_created p) = pay_created p"
  shows "db w = t \<Longrightarrow> newest_first (payments t) = done @ page_after E after t \<Longrightarrow>
    length (page_after E after t) < n \<Longrightarrow> walk_pages E limit n after w = Some (page_after E after t)"
proof (induction n arbitrary: after w "done")
  case (Suc n)
  let ?rest = "page_after E after t" and ?k = "nat limit"
  note run = PaymentsList_run [OF assms(1-3), of after w, unfolded Suc.prems(1)]
  show ?case
  proof (cases "length ?rest \<le> ?k")
    case True
    then show ?thesis by (simp add: run Let_def)
  next
    case False
    let ?x = "last (take ?k ?rest)"
    define ys where "ys = butlast (take ?k ?rest)"
    have ys: "?rest = ys @ ?x # drop ?k ?rest"
      using last_take_split(1) [of ?k ?rest] False assms(2) by (simp add: ys_def)
    have all: "newest_first (payments t) = (done @ ys) @ ?x # drop ?k ?rest"
      using Suc.prems(2) ys by simp
    let ?c = "\<lparr>cu_created = pay_created ?x, cu_id = pay_id ?x\<rparr>"
    have "?x \<in> set (newest_first (payments t))" unfolding all by simp
    then have "timestamptz E (pay_created ?x) = pay_created ?x"
      using assms(5) by (simp add: newest_first_def)
    then have "page_after E (Some ?c) t = filter (\<lambda>p. page_key p < page_key ?x) (newest_first (payments t))"
      by (simp add: page_after_def)
    also have "\<dots> = drop ?k ?rest"
      using filter_after [of "done @ ys" ?x "drop ?k ?rest"] newest_first_strict [OF assms(4)]
      by (simp only: all)
    finally have nxt: "page_after E (Some ?c) t = drop ?k ?rest" .
    have "walk_pages E limit n (Some ?c) (w\<lparr>tick := Suc (tick w)\<rparr>) = Some (page_after E (Some ?c) t)"
      using Suc.IH [of "w\<lparr>tick := Suc (tick w)\<rparr>" "done @ take ?k ?rest" "Some ?c"]
        Suc.prems nxt False assms(2) by simp
    with False nxt show ?thesis by (simp add: run Let_def)
  qed
qed simp

subsection \<open>Properties\<close>

text \<open>
  C9. \<open>Create\<close> is all or nothing. On success the tables differ from the old ones by exactly one
  balanced journal entry for the payment, the payment row with the caller's data, one unsent outbox
  event and one chained audit row, and the amount has moved from the source to the destination
  account; on any error no table changed.
\<close>
theorem Create_atomic:
  assumes "rail_ok E (db w)" "micro_exact E" "int (length (audit (db w))) < 9223372036854775807"
  shows "case Create E inp w of
      (Inl x, w') \<Rightarrow> db w' = db w
    | (Inr p, w') \<Rightarrow> create_effect E inp p (db w) (db w') \<and>
        (\<forall>a. balance (db w') a = balance (db w) a + (if a = ci_dest inp then ci_amount inp else 0)
               - (if a = ci_source inp then ci_amount inp else 0))"
proof (cases "Create E inp w")
  case (Pair r w')
  show ?thesis
  proof (cases r)
    case (Inl x)
    with Pair show ?thesis
      by (auto simp: Create_def uuid_New_def dest: sql.exec_err)
  next
    case (Inr p)
    have "create_effect E inp p (db w) (db w')"
      using Create_ok [OF Pair [unfolded Inr]] rail_okD(1,4) [OF assms(1)] assms(2,3) by (simp add: log_ok_def)
    with Pair Inr create_balance show ?thesis by auto
  qed
qed

text \<open>
  C20. \<open>Cancel\<close> is all or nothing. On success a completed payment with that id existed, and the
  tables differ by exactly its reversing journal entry, the row's change to canceled (with the
  reversal and the time set), one outbox event and one chained audit row; the amount has moved back.
  On any error no table changed.
\<close>
theorem Cancel_atomic:
  assumes "rail_ok E (db w)" "micro_exact E" "int (length (audit (db w))) < 9223372036854775807"
  shows "case Cancel E i w of
      (Inl x, w') \<Rightarrow> db w' = db w
    | (Inr c, w') \<Rightarrow> cancel_effect E i c (db w) (db w') \<and>
        (\<forall>a. balance (db w') a = balance (db w) a + (if a = pay_source c then pay_amount c else 0)
               - (if a = pay_dest c then pay_amount c else 0))"
proof (cases "Cancel E i w")
  case (Pair r w')
  show ?thesis
  proof (cases r)
    case (Inl x)
    with Pair show ?thesis
      by (auto simp: Cancel_def dest: sql.exec_err)
  next
    case (Inr c)
    have "cancel_effect E i c (db w) (db w')"
      using Cancel_ok [OF Pair [unfolded Inr]] rail_okD(1,2,4) [OF assms(1)] assms(2,3) by (simp add: log_ok_def)
    with Pair Inr cancel_balance show ?thesis by auto
  qed
qed

lemma Create_payment_row:
  assumes "create_effect E inp p t t'" "distinct (map pay_id (payments t))"
  shows "payments t' = payments t @ [p]" "pay_source p = ci_source inp" "pay_dest p = ci_dest inp"
    "pay_amount p = ci_amount inp"
proof -
  from assms(1) obtain je t1 where cr: "created inp je p"
    and an: "announced E (payment_event E ''payment.created'' (pay_id p) p)
          (payment_audit E ''payment.created'' (pay_id p) p) (t1\<lparr>payments := payments t @ [p]\<rparr>) t'"
    unfolding create_effect_def by blast
  show "payments t' = payments t @ [p]" using announced_tables(4) [OF an] by simp
  show "pay_source p = ci_source inp" "pay_dest p = ci_dest inp" "pay_amount p = ci_amount inp"
    using cr by (simp_all add: created_def)
qed

lemma create_audit_length:
  assumes "create_effect E inp p t t'" shows "length (audit t') = Suc (length (audit t))"
proof -
  from assms obtain je t1 where po: "posted (payment_entry E (pay_id p) inp) je t t1"
    and an: "announced E (payment_event E ''payment.created'' (pay_id p) p)
          (payment_audit E ''payment.created'' (pay_id p) p) (t1\<lparr>payments := payments t @ [p]\<rparr>) t'"
    unfolding create_effect_def by blast
  then show ?thesis using announced_audit_length [OF an] posted_tables(6) [OF po] by simp
qed

lemma cancel_effect_row:
  assumes "cancel_effect E i c t t'" "distinct (map pay_id (payments t))" "p \<in> set (payments t)" "pay_id p = i"
  shows "pay_source c = pay_source p" "pay_dest c = pay_dest p" "pay_amount c = pay_amount p"
    "pay_status c = ''canceled''" "c \<in> set (payments t')" "pay_id c = i"
proof -
  from assms(1) obtain q je t1 now where q: "q \<in> set (payments t)" "pay_id q = i" "c = cancel_row (je_id je) now q"
    and po: "posted (reversal_entry E i q) je t t1"
    and an: "announced E (payment_event E ''payment.canceled'' i c) (payment_audit E ''payment.canceled'' i c)
          (t1\<lparr>payments := update_where (\<lambda>p. pay_id p = i) (cancel_row (je_id je) now) (payments t)\<rparr>) t'"
    unfolding cancel_effect_def by blast
  have "q = p" using inj_onD [of pay_id "set (payments t)" q p] assms(2-4) q(1,2) by (simp add: distinct_map)
  with q(3) show "pay_source c = pay_source p" "pay_dest c = pay_dest p" "pay_amount c = pay_amount p"
    "pay_status c = ''canceled''" by (simp_all add: cancel_row_def)
  show "pay_id c = i" using q by (simp add: cancel_row_def)
  show "c \<in> set (payments t')"
    using announced_tables(4) [OF an] q by (auto simp: set_update_where)
qed

text \<open>
  Round trip: canceling a payment right after creating it restores the balance of every
  account.
\<close>
theorem Cancel_restores:
  assumes "rail_ok E (db w)" "micro_exact E" "int (length (audit (db w))) + 1 < 9223372036854775807"
    "int64 (ci_amount inp)" "Create E inp w = (Inr p, w1)" "Cancel E (pay_id p) w1 = (Inr c, w2)"
  shows "balance (db w2) a = balance (db w) a"
proof -
  have cr: "create_effect E inp p (db w) (db w1)"
    using Create_ok [OF assms(5)] rail_okD(1,4) [OF assms(1)] assms(2,3) by (simp add: log_ok_def)
  note r1 = create_rail_ok [OF assms(1) cr assms(4)]
  have ca: "cancel_effect E (pay_id p) c (db w1) (db w2)"
    using Cancel_ok [OF assms(6)] rail_okD(1,2,4) [OF r1] assms(2,3) create_audit_length [OF cr]
    by (simp add: log_ok_def)
  note row = Create_payment_row [OF cr rail_okD(2) [OF assms(1)]]
  have "p \<in> set (payments (db w1))" using row(1) by simp
  note crow = cancel_effect_row [OF ca rail_okD(2) [OF r1] this refl]
  show ?thesis
    using create_balance [OF cr, of a] cancel_balance [OF ca, of a] row(2-4) crow(1-3) by simp
qed

text \<open>
  A payment is canceled at most once: canceling one that is already canceled fails in every
  environment and changes no table, and without faults the error is \<open>ErrPaymentNotCancelable\<close>.
\<close>
theorem Cancel_once:
  assumes "distinct (map pay_id (payments (db w)))" "p \<in> set (payments (db w))" "pay_id p = i"
    "pay_status p \<noteq> ''completed''"
  shows "\<exists>e w'. Cancel E i w = (Inl e, w') \<and> db w' = db w \<and> (no_faults E \<longrightarrow> e = ErrPaymentNotCancelable)"
proof (cases "Cancel E i w")
  case (Pair r w')
  have find: "List.find (\<lambda>q. pay_id q = i) (payments (db w)) = Some p"
    using find_by_key [OF assms(1-3)] .
  show ?thesis
  proof (cases r)
    case (Inl e)
    have "db w' = db w" using Pair Inl by (auto simp: Cancel_def dest: sql.exec_err)
    moreover have "e = ErrPaymentNotCancelable" if nf: "no_faults E"
      using Pair Inl assms(4) find nf
      by (auto simp: Cancel_def ExecTx_def GetPayment_def reading_run [OF nf] map_err_def no_faults_def)
    ultimately show ?thesis using Pair Inl by blast
  next
    case (Inr c)
    obtain w1 q wp where "db w1 = db w" "GetPayment E i w1 = (Inr q, wp)" "pay_status q = ''completed''"
      by (rule sql.exec_okE [OF Pair [unfolded Inr Cancel_def]]) (auto elim!: chk_okE)
    with GetPayment_ok(1,2) [of E i w1 q wp] assms find have False
      using inj_onD [of pay_id "set (payments (db w))" q p] by (auto simp: distinct_map)
    then show ?thesis ..
  qed
qed

text \<open>
  \<open>Create\<close> and \<open>Cancel\<close>, whatever they return, keep the invariant of the whole write path: the
  ledger stays sound, every payment row agrees with its journal entries and its status, the audit
  log still verifies, and outbox ids stay unique.
\<close>
theorem payments_preserve_rail:
  assumes "rail_ok E (db w)" "micro_exact E" "int (length (audit (db w))) < 9223372036854775807"
    "int64 (ci_amount inp)"
  shows "rail_ok E (db (snd (Create E inp w))) \<and> rail_ok E (db (snd (Cancel E i w)))"
proof -
  have lo: "log_ok E (db w)" using rail_okD(4) [OF assms(1)] assms(3) by (simp add: log_ok_def)
  have "rail_ok E (db (snd (Create E inp w)))"
  proof (cases "Create E inp w")
    case (Pair r w')
    then show ?thesis
      using Create_ok [of E inp w _ w', OF _ rail_okD(1) [OF assms(1)] lo assms(2)]
        create_rail_ok [OF assms(1) _ assms(4)] assms(1)
      by (cases r) (auto simp: Create_def uuid_New_def dest: sql.exec_err)
  qed
  moreover have "rail_ok E (db (snd (Cancel E i w)))"
  proof (cases "Cancel E i w")
    case (Pair r w')
    then show ?thesis
      using Cancel_ok [of E i w _ w', OF _ rail_okD(1) [OF assms(1)] lo assms(2) rail_okD(2) [OF assms(1)]]
        cancel_rail_ok [OF assms(1)] assms(1)
      by (cases r) (auto simp: Cancel_def dest: sql.exec_err)
  qed
  ultimately show ?thesis ..
qed

text \<open>
  C21. Pagination is complete and exact: with any page size from 1 to \<open>2^31 - 2\<close>, following the
  cursors of \<open>List\<close> ends, and the pages concatenated are all payments, newest first, each once.
\<close>
theorem PaymentsList_complete:
  assumes "no_faults E" "1 \<le> limit" "limit < 2147483647" "distinct (map pay_id (payments (db w)))"
    "\<forall>p \<in> set (payments (db w)). timestamptz E (pay_created p) = pay_created p"
  shows "walk_pages E limit (Suc (length (payments (db w)))) None w = Some (newest_first (payments (db w)))"
  using walk_pages_run [OF assms, of w "[]" None "Suc (length (payments (db w)))"]
  by (simp add: page_after_def newest_first_def)


subsection \<open>Instances\<close>

definition demo_input :: CreateInput where
  "demo_input = \<lparr>ci_source = 1, ci_dest = 2, ci_asset = ''USDC'', ci_amount = 40\<rparr>"

lemma bank_rail_ok: "rail_ok env0 bank"
  using bank_ledger_ok by (simp add: rail_ok_def bank_def no_tables_def)

lemma env0_micro: "micro_exact env0"
  by (simp add: micro_exact_def)

lemmas run_defs = ExecTx_def tx_begin_def tx_end_def PostWithin_def validate_def Balanced_def
  wrap64_def accountIDs_def GetAccountsForUpdate_def reading_def query_def pg_now_def checkAccounts_def
  GetAccountBalance_def bigint_def balance_def signed_amount_def int64_def ApplyToBalances_def
  InsertJournalEntry_def map_err_def InsertEntryLine_def Let_def insort_key_def uuid_New_def time_Now_def
  InsertPayment_def GetPayment_def CancelPayment_def Emit_def InsertOutboxEvent_def Append_def
  AcquireAuditChainLock_def GetAuditHead_def InsertAuditEntry_def payment_event_def payment_audit_def
  payment_entry_def reversal_entry_def env0_hash env0_hash_length genesisPrevHash_def

lemma demo_create: "outcome (Create env0 demo_input (idle bank)) = Inr ()"
  by (simp add: Create_def run_defs bank_def no_tables_def idle_def demo_input_def)

theorem Create_atomic_witness:
  "\<exists>p w'. Create env0 demo_input (idle bank) = (Inr p, w') \<and> create_effect env0 demo_input p bank (db w') \<and>
     balance (db w') 2 = balance bank 2 + 40"
  using Create_atomic [of env0 "idle bank" demo_input] demo_create bank_rail_ok env0_micro
  by (auto simp: outcome_def bank_def no_tables_def demo_input_def split: prod.splits sum.splits)

lemma demo_cancel:
  "case Create env0 demo_input (idle bank) of
     (Inr p, w1) \<Rightarrow> outcome (Cancel env0 (pay_id p) w1) = Inr () | _ \<Rightarrow> False"
  by (simp add: Create_def Cancel_def run_defs bank_def no_tables_def idle_def demo_input_def)


lemma demo_run:
  obtains p w1 c w2 where "Create env0 demo_input (idle bank) = (Inr p, w1)" "Cancel env0 (pay_id p) w1 = (Inr c, w2)"
    "rail_ok env0 (db w1)" "length (audit (db w1)) = 1"
proof -
  obtain p w1 where c: "Create env0 demo_input (idle bank) = (Inr p, w1)"
    using demo_create by (cases "Create env0 demo_input (idle bank)") (auto simp: outcome_def split: sum.splits)
  moreover from c obtain c w2 where "Cancel env0 (pay_id p) w1 = (Inr c, w2)"
    using demo_cancel by (cases "Cancel env0 (pay_id p) w1") (auto simp: outcome_def split: sum.splits)
  moreover have e: "create_effect env0 demo_input p (db (idle bank)) (db w1)"
    using Create_ok [OF c] bank_rail_ok env0_micro rail_okD(1,4) [OF bank_rail_ok]
    by (simp add: log_ok_def bank_def no_tables_def)
  moreover have "rail_ok env0 (db w1)"
    using create_rail_ok [OF _ e] bank_rail_ok by (simp add: demo_input_def int64_def)
  moreover have "length (audit (db w1)) = 1"
    using create_audit_length [OF e] by (simp add: bank_def no_tables_def)
  ultimately show thesis using that by blast
qed

theorem Cancel_atomic_witness:
  "\<exists>p w1 c w2. Create env0 demo_input (idle bank) = (Inr p, w1) \<and> Cancel env0 (pay_id p) w1 = (Inr c, w2) \<and>
     cancel_effect env0 (pay_id p) c (db w1) (db w2)"
proof -
  obtain p w1 c w2 where d: "Create env0 demo_input (idle bank) = (Inr p, w1)"
      "Cancel env0 (pay_id p) w1 = (Inr c, w2)" "rail_ok env0 (db w1)" "length (audit (db w1)) = 1"
    by (rule demo_run)
  then show ?thesis using Cancel_atomic [OF d(3) env0_micro, of "pay_id p"] by auto
qed

theorem Cancel_restores_witness:
  "\<exists>p w1 c w2. Create env0 demo_input (idle bank) = (Inr p, w1) \<and> Cancel env0 (pay_id p) w1 = (Inr c, w2) \<and>
     balance (db w2) 1 = 100"
proof -
  obtain p w1 c w2 where d: "Create env0 demo_input (idle bank) = (Inr p, w1)"
      "Cancel env0 (pay_id p) w1 = (Inr c, w2)" by (rule demo_run)
  have "balance (db w2) 1 = balance (db (idle bank)) 1"
    using Cancel_restores [OF _ env0_micro _ _ d, of 1] bank_rail_ok
    by (simp add: demo_input_def int64_def bank_def no_tables_def)
  also have "\<dots> = 100" by (simp add: bank_def balance_def signed_amount_def)
  finally show ?thesis using d by blast
qed

definition canceled_payment :: Payment where
  "canceled_payment = \<lparr>pay_id = 5, pay_status = ''canceled'', pay_asset = ''USDC'', pay_amount = 3,
     pay_source = 1, pay_dest = 2, pay_entry = 10, pay_reversal = Some 11, pay_created = 0,
     pay_canceled = Some 1\<rparr>"

theorem Cancel_once_witness:
  "\<exists>e w'. Cancel env0 5 (idle (bank\<lparr>payments := [canceled_payment]\<rparr>)) = (Inl e, w') \<and>
     e = ErrPaymentNotCancelable"
  using Cancel_once [of "idle (bank\<lparr>payments := [canceled_payment]\<rparr>)" canceled_payment 5 env0]
  by (auto simp: canceled_payment_def no_faults_def)

theorem payments_preserve_rail_witness:
  "rail_ok env0 (db (snd (Create env0 demo_input (idle bank)))) \<and>
   rail_ok env0 (db (snd (Cancel env0 5 (idle bank))))"
  using payments_preserve_rail [of env0 "idle bank" demo_input 5] bank_rail_ok env0_micro
  by (simp add: demo_input_def int64_def bank_def no_tables_def)

theorem PaymentsList_complete_witness:
  "walk_pages env0 1 3 None (idle (bank\<lparr>payments := [canceled_payment, canceled_payment\<lparr>pay_id := 6\<rparr>]\<rparr>)) =
     Some [canceled_payment\<lparr>pay_id := 6\<rparr>, canceled_payment]"
  using PaymentsList_complete [of env0 1 "idle (bank\<lparr>payments := [canceled_payment, canceled_payment\<lparr>pay_id := 6\<rparr>]\<rparr>)"]
  by (simp add: no_faults_def canceled_payment_def newest_first_def numeral_3_eq_3 insort_key_def)

end
