(* ===== verification/Growth.thy ===== *)
theory Growth
  imports Frames Payments "HOL-Library.Sublist"
begin

section \<open>What no operation can do to the tables\<close>

text \<open>
  \<open>append_only\<close> is the frame of the money path: journal entries, entry lines, audit rows, accounts
  and the identifying columns of payments, settlements and outbox rows are only ever added, never
  changed, reordered or removed. One lemma per statement, then one per operation.
\<close>

subsection \<open>Append-only tables\<close>

definition pay_columns :: "Payment \<Rightarrow> uuid \<times> string \<times> int \<times> uuid \<times> uuid \<times> uuid" where
  "pay_columns p = (pay_id p, pay_asset p, pay_amount p, pay_source p, pay_dest p, pay_entry p)"

definition st_columns :: "Settlement \<Rightarrow> uuid \<times> uuid \<times> string" where
  "st_columns s = (st_id s, st_payment s, st_tx s)"

definition ob_columns :: "Outbox \<Rightarrow> uuid \<times> string \<times> string \<times> bytes" where
  "ob_columns r = (ob_id r, ob_type r, ob_aggregate r, ob_payload r)"

definition append_only :: "tables \<Rightarrow> tables \<Rightarrow> bool" where
  "append_only t t' \<longleftrightarrow>
     prefix (journal t) (journal t') \<and> prefix (elines t) (elines t') \<and> prefix (audit t) (audit t') \<and>
     prefix (accounts t) (accounts t') \<and> prefix (map pay_columns (payments t)) (map pay_columns (payments t')) \<and>
     prefix (map st_columns (settlements t)) (map st_columns (settlements t')) \<and>
     prefix (map ob_columns (outbox t)) (map ob_columns (outbox t'))"

interpretation growth: table_order append_only
proof
  show "append_only t t" for t by (simp add: append_only_def)
  show "append_only t u \<Longrightarrow> append_only u v \<Longrightarrow> append_only t v" for t u v
    unfolding append_only_def by (blast intro: prefix_order.trans)
qed

text \<open>The statements that write.\<close>

lemma append_only_ledger [frames]:
  "frame append_only (CreateAccount E name kind asset)"
  "frame append_only (InsertJournalEntry E kind ref asset)"
  "frame append_only (InsertEntryLine E entry account direction amount)"
  unfolding CreateAccount_def InsertJournalEntry_def InsertEntryLine_def
  by (rule growth.frame_query; auto simp: append_only_def Let_def split: if_splits)+

lemma append_only_payments [frames]:
  "frame append_only (InsertPayment E i status asset amount src dst entry)"
  "frame append_only (CancelPayment E i reversal)"
  unfolding InsertPayment_def CancelPayment_def
  by (rule growth.frame_query; auto simp: append_only_def Let_def pay_columns_def split: if_splits option.splits)+

lemma append_only_mark [frames]:
  assumes "\<And>now s. st_columns (f now s) = st_columns s"
  shows "frame append_only (mark_settlement E hit fk f)"
  unfolding mark_settlement_def
  by (rule growth.frame_query) (use assms in \<open>auto simp: append_only_def split: if_splits option.splits\<close>)

lemma append_only_settlements [frames]:
  "frame append_only (InsertSettlement E payment tx)"
  "frame append_only (MarkSettlementSettled E tx entry bhash bnum)"
  "frame append_only (MarkSettlementReorged E tx)"
  "frame append_only (MarkSettlementFinalized E tx)"
  unfolding InsertSettlement_def MarkSettlementSettled_def MarkSettlementReorged_def MarkSettlementFinalized_def
  by (rule growth.frame_query; auto simp: append_only_def Let_def split: if_splits)
    (rule append_only_mark; simp add: st_columns_def)+

lemma append_only_outbox [frames]:
  "frame append_only (InsertOutboxEvent E i typ agg payload)"
  "frame append_only (ClaimUnsentOutbox E k)"
  "frame append_only (MarkOutboxSent E ids)"
  unfolding InsertOutboxEvent_def ClaimUnsentOutbox_def MarkOutboxSent_def
  by (rule growth.frame_query; auto simp: append_only_def ob_columns_def split: if_splits option.splits sum.splits)+

lemma append_only_audit [frames]: "frame append_only (InsertAuditEntry E r)"
  unfolding InsertAuditEntry_def
  by (rule growth.frame_query) (auto simp: append_only_def split: if_splits)

text \<open>The statements that write tables outside the relation.\<close>

lemma append_only_rest [frames]:
  "frame append_only (InsertIdempotencyKey E key hash)"
  "frame append_only (CompleteIdempotencyKey E key st body payment)"
  "frame append_only (DeleteIdempotencyKey E key)"
  "frame append_only (DeleteExpiredIdempotencyKeys E before)"
  "frame append_only (InsertVelocityEvent E key amount at)"
  "frame append_only (InsertPaymentApproval E to amount asset key payment' proposer)"
  "frame append_only (mark_approval E hit f)"
  "frame append_only (FanOutDelivery E event typ payload)"
  "frame append_only (ClaimDueDeliveries E lease k)"
  "frame append_only (mark_delivery E hit' g)"
  unfolding InsertIdempotencyKey_def CompleteIdempotencyKey_def DeleteIdempotencyKey_def
    DeleteExpiredIdempotencyKeys_def InsertVelocityEvent_def InsertPaymentApproval_def mark_approval_def
    FanOutDelivery_def ClaimDueDeliveries_def mark_delivery_def
  by (rule growth.frame_query; auto simp: append_only_def Let_def split: if_splits option.splits sum.splits)+

text \<open>
  The operations every write path shares, once for any relation that the four statements they write
  with respect; the statements that only read respect every relation.
\<close>

locale rail_order = table_order +
  assumes frame_journal [frames]: "frame R (InsertJournalEntry E kind ref asset)"
    and frame_eline [frames]: "frame R (InsertEntryLine E entry account direction amount)"
    and frame_outbox [frames]: "frame R (InsertOutboxEvent E i typ agg payload)"
    and frame_audit [frames]: "frame R (InsertAuditEntry E r)"
begin

lemma frame_reads [frames]:
  "frame R (GetAccount E i)"
  "frame R (GetAccountByNameAndAsset E name asset)"
  "frame R (GetAccountsForUpdate E ids)"
  "frame R (GetAccountBalance E i)"
  "frame R (GetPayment E i)"
  "frame R (ListPaymentsFirstPage E k)"
  "frame R (ListPaymentsAfter E since i k)"
  "frame R (GetSettlementByTxHash E tx)"
  "frame R (ListPendingSettlements E)"
  "frame R (AcquireAuditChainLock E n)"
  "frame R (GetAuditHead E)"
  "frame R (ScanAuditChain E)"
  "frame R (GetIdempotencyKey E key)"
  "frame R (AcquireVelocityLock E n)"
  "frame R (SumVelocityWindow E key since)"
  "frame R (GetApprovalForUpdate E i)"
  unfolding GetAccount_def GetAccountByNameAndAsset_def GetAccountsForUpdate_def GetAccountBalance_def
    GetPayment_def ListPaymentsFirstPage_def ListPaymentsAfter_def GetSettlementByTxHash_def
    ListPendingSettlements_def AcquireAuditChainLock_def GetAuditHead_def ScanAuditChain_def
    GetIdempotencyKey_def AcquireVelocityLock_def SumVelocityWindow_def GetApprovalForUpdate_def
  by (rule frame_reading)+

lemma frame_read_balances [frames]: "frame R (read_balances E ids cur)"
proof (induction ids arbitrary: cur)
  case (Cons i ids)
  have "frame R (\<lambda>w. chk (GetAccountBalance E i w) (\<lambda>bal w. read_balances E ids (AList.update i bal cur) w))"
    by (intro frames Cons)
  then show ?case by (simp add: frame_def)
qed (simp add: frame_def R_refl)

lemma frame_insert_lines [frames]: "frame R (insert_lines E je ls)"
proof (induction ls)
  case (Cons l ls)
  have "frame R (\<lambda>w. chk (InsertEntryLine E je (ln_account l) (ln_direction l) (ln_amount l) w)
       (\<lambda>_ w. insert_lines E je ls w))"
    by (intro frames Cons)
  then show ?case by (simp add: frame_def)
qed (simp add: frame_def R_refl)

lemma frame_PostWithin [frames]: "frame R (PostWithin E e)"
  unfolding PostWithin_def Let_def by (intro frames)

lemma frame_Emit [frames]: "frame R (Emit E e)"
  unfolding Emit_def Let_def by (intro frames)

lemma frame_Append [frames]: "frame R (Append E a)"
  unfolding Append_def Let_def by (intro frames)

end

interpretation money: rail_order append_only
  by unfold_locales (intro frames)+

subsection \<open>The operations\<close>

lemma append_only_Create [frames]: "frame append_only (Create E inp)"
  unfolding Create_def Let_def by (intro frames)

lemma append_only_Cancel [frames]: "frame append_only (Cancel E i)"
  unfolding Cancel_def by (intro frames)

lemma append_only_Publish [frames]: "frame append_only (Publish E ms)"
  by (simp add: frame_def Publish_def growth.R_refl split: option.splits)

lemma append_only_drainBatch [frames]:
  "(\<And>ms. frame append_only (pub ms)) \<Longrightarrow> frame append_only (drainBatch E pub batch)"
  unfolding drainBatch_def by (intro frames)


lemma append_only_relay: "append_only (db w) (db (relay_Run E (Publish E) batch n w))"
proof (induction n arbitrary: w)
  case (Suc n)
  have "frame append_only (ExecTx E (drainBatch E (Publish E) batch))" by (intro frames)
  then have "append_only (db w) (db (relay_tick E (Publish E) batch w))"
    unfolding relay_tick_def by (rule frame_snd)
  then show ?case using Suc growth.R_trans by simp
qed (simp add: growth.R_refl)

end
