(* ===== verification/Geth.thy ===== *)
theory Geth
  imports GoStd
begin

section \<open>The go-ethereum parameters\<close>

text \<open>
  The functions of \<open>github.com/ethereum/go-ethereum\<close> the program calls: conversions of hashes and
  addresses (\<open>common\<close>), the signing and the wire form of transactions (\<open>core/types\<close>) and keys
  (\<open>crypto\<close>). They are fields of two records; theorems hold for every choice, and what a theorem
  needs of them is one of the documented laws below. A \<open>common.Hash\<close> is its 32 bytes, a
  \<open>common.Address\<close> the 160-bit number its 20 bytes denote.
\<close>

type_synonym hash = bytes
type_synonym address = "160 word"
type_synonym privkey = bytes

text \<open>Conversions between hashes and their 0x-hex form.\<close>

record geth =
  HexToHash :: "string \<Rightarrow> hash"
  HashHex :: "hash \<Rightarrow> string"

text \<open>The 20 bytes of an address (\<open>Address.Bytes\<close>).\<close>

definition address_Bytes :: "address \<Rightarrow> bytes" where
  "address_Bytes a = be_bytes 20 (unat a)"

lemma length_address_Bytes [simp]: "length (address_Bytes a) = 20"
  by (simp add: address_Bytes_def)

lemma SetBytes_address: "SetBytes (address_Bytes a) = uint a"
proof -
  have "unat a < 2 ^ 160" using unsigned_less [of a, where 'a = nat] by simp
  then have "unat a < 256 ^ 20" by simp
  then show ?thesis by (simp add: address_Bytes_def SetBytes_be_bytes)
qed

text \<open>\<open>types.DynamicFeeTx\<close>, and a transaction as the node receives it: with its signature.\<close>

record DynamicFeeTx =
  tx_chain :: int
  tx_nonce :: uint64
  tx_tip :: int
  tx_fee :: int
  tx_gas :: uint64
  tx_to :: address
  tx_value :: int
  tx_data :: bytes

record Transaction = DynamicFeeTx +
  tx_sig :: bytes

record gethtx =
  IsHexAddress :: "string \<Rightarrow> bool"
  HexToAddress :: "string \<Rightarrow> address"
  AddressHex :: "address \<Rightarrow> string"
  BytesToAddress :: "bytes \<Rightarrow> address"
  BytesToHash :: "bytes \<Rightarrow> hash"
  HexToECDSA :: "string \<Rightarrow> privkey option"
  PubkeyToAddress :: "privkey \<Rightarrow> address"
  SignTx :: "DynamicFeeTx \<Rightarrow> int \<Rightarrow> privkey \<Rightarrow> bytes result"
  MarshalBinary :: "Transaction \<Rightarrow> bytes result"
  UnmarshalBinary :: "bytes \<Rightarrow> Transaction result"
  tx_Hash :: "Transaction \<Rightarrow> hash"

text \<open>
  The documented laws: an address survives its byte form and its hex form, a hash its byte form, and
  a decoded transaction is the encoded one.
\<close>

definition address_laws :: "gethtx \<Rightarrow> bool" where
  "address_laws L \<longleftrightarrow> (\<forall>a. BytesToAddress L (address_Bytes a) = a) \<and>
     (\<forall>a. HexToAddress L (AddressHex L a) = a)"

definition codec_law :: "gethtx \<Rightarrow> bool" where
  "codec_law L \<longleftrightarrow> (\<forall>t b. MarshalBinary L t = Inr b \<longrightarrow> UnmarshalBinary L b = Inr t)"

definition hash_law :: "gethtx \<Rightarrow> bool" where
  "hash_law L \<longleftrightarrow> (\<forall>t. BytesToHash L (tx_Hash L t) = tx_Hash L t)"

text \<open>
  A concrete library, which satisfies the laws: an address prints as that many marks, and \<open>t0\<close> is
  the only transaction that can be encoded.
\<close>

definition lib0 :: "Transaction \<Rightarrow> gethtx" where
  "lib0 t0 = \<lparr>IsHexAddress = (\<lambda>s. s \<noteq> []), HexToAddress = (\<lambda>s. of_nat (length s)),
     AddressHex = (\<lambda>a. replicate (unat a) (CHR ''x'')), BytesToAddress = (\<lambda>b. of_int (SetBytes b)),
     BytesToHash = (\<lambda>b. b), HexToECDSA = (\<lambda>s. if s = [] then None else Some s),
     PubkeyToAddress = (\<lambda>p. of_nat (length p)), SignTx = (\<lambda>t c p. Inr p),
     MarshalBinary = (\<lambda>t. if t = t0 then Inr ''raw'' else Inl (OpError ''rlp'')),
     UnmarshalBinary = (\<lambda>b. Inr t0), tx_Hash = (\<lambda>t. tx_data t)\<rparr>"

lemma lib0_laws: "address_laws (lib0 t0)" "codec_law (lib0 t0)" "hash_law (lib0 t0)"
  by (auto simp: address_laws_def codec_law_def hash_law_def lib0_def SetBytes_address)

end
