(* ===== verification/Policy.thy ===== *)
theory Policy
  imports Growth Geth
begin

section \<open>The policy engine\<close>

text \<open>
  \<open>internal/policy\<close> and the Postgres store of its velocity limiter,
  \<open>cmd/paymentrailctl/velocitystore.go\<close>: screening a destination against a denylist, the
  sliding-window velocity limit of a signing key, and the four-eyes gate. What the limiter needs of its
  store is the locale \<open>velocity_store\<close>, which the Postgres store interprets.

  The lemmas show that the denylist loads all or nothing and is matched on the parsed address, that no
  window of the configured width ever holds more than the caps allow, over any sequence of charges and
  whatever the clock does, and when the gate asks for and accepts a second operator.
\<close>

unbundle bit_operations_syntax

subsection \<open>Screening (policy.go)\<close>

record denylistEntry =
  de_address :: string
  de_reason :: string

record policy_files =
  pf_ReadFile :: "string \<Rightarrow> bytes result"
  pf_parse :: "bytes \<Rightarrow> denylistEntry list result"

type_synonym Denylist = "(address \<times> string) list"

fun load_denied :: "gethtx \<Rightarrow> denylistEntry list \<Rightarrow> Denylist \<Rightarrow> Denylist result" where
  "load_denied L [] denied = Inr denied"
| "load_denied L (e # es) denied =
     (if \<not> IsHexAddress L (de_address e) then Inl (OpError ''policy: invalid address'')
      else load_denied L es (AList.update (HexToAddress L (de_address e)) (de_reason e) denied))"

definition policy_Load :: "gethtx \<Rightarrow> policy_files \<Rightarrow> string \<Rightarrow> Denylist result" where
  "policy_Load L F path =
     (if path = [] then Inr []
      else case pf_ReadFile F path of
             Inl e \<Rightarrow> Inl e
           | Inr raw \<Rightarrow> (case pf_parse F raw of
                           Inl e \<Rightarrow> Inl e
                         | Inr entries \<Rightarrow> load_denied L entries []))"

definition Screen :: "gethtx \<Rightarrow> Denylist \<Rightarrow> string \<Rightarrow> unit result" where
  "Screen L d a = (case map_of d (HexToAddress L a) of None \<Rightarrow> Inr () | Some reason \<Rightarrow> Inl ErrDenied)"

subsection \<open>Velocity (velocity.go)\<close>

record VelocityCaps =
  vc_window :: int
  vc_count :: uint64
  vc_amount :: "int option"

definition Enabled :: "VelocityCaps \<Rightarrow> bool" where
  "Enabled c \<longleftrightarrow> vc_window c > 0 \<and> (vc_count c > 0 \<or> vc_amount c \<noteq> None)"

record Usage =
  us_count :: uint64
  us_sum :: int

definition decide :: "VelocityCaps \<Rightarrow> int \<Rightarrow> Usage \<Rightarrow> unit result" where
  "decide c amount u =
     (if vc_count c > 0 \<and> us_count u + 1 > vc_count c then Inl ErrVelocityExceeded
      else case vc_amount c of
             None \<Rightarrow> Inr ()
           | Some m \<Rightarrow> if us_sum u + amount > m then Inl ErrVelocityExceeded else Inr ())"

type_synonym charge_fn = "string \<Rightarrow> int \<Rightarrow> int \<Rightarrow> time \<Rightarrow> (Usage \<Rightarrow> unit result) \<Rightarrow> world \<Rightarrow> unit result \<times> world"

text \<open>A nil limiter is \<open>None\<close>, a nil amount too.\<close>

definition limiter_Charge ::
  "env \<Rightarrow> charge_fn \<Rightarrow> VelocityCaps option \<Rightarrow> string \<Rightarrow> int option \<Rightarrow> world \<Rightarrow> unit result \<times> world" where
  "limiter_Charge E store l key amount w =
     (case l of None \<Rightarrow> (Inr (), w)
      | Some caps \<Rightarrow>
          if \<not> Enabled caps then (Inr (), w)
          else case amount of
                 None \<Rightarrow> (Inl (OpError ''policy: velocity charge requires amount > 0''), w)
               | Some a \<Rightarrow>
                   if a \<le> 0 then (Inl (OpError ''policy: velocity charge requires amount > 0''), w)
                   else (case time_Now E w of (now, w) \<Rightarrow>
                           store key a (vc_window caps) now (decide caps a) w))"

subsection \<open>The Postgres store (velocitystore.go)\<close>

text \<open>\<open>hash/fnv\<close>'s 64-bit FNV-1a, reinterpreted as a signed integer.\<close>

definition fnv64a :: "bytes \<Rightarrow> uint64" where
  "fnv64a bs = foldl (\<lambda>h b. (h XOR of_nat (of_char b)) * 1099511628211) 14695981039346656037 bs"

definition advisoryKey :: "string \<Rightarrow> int" where
  "advisoryKey key = sint (fnv64a key)"

definition pgCharge :: "env \<Rightarrow> charge_fn" where
  "pgCharge E key amount window now dec w =
     (if \<not> int64 amount then (Inl (OpError ''velocity: amount exceeds int64 range''), w)
      else tx_scope E (\<lambda>w.
        chk (AcquireVelocityLock E (advisoryKey key) w) (\<lambda>_ w.
        chk (SumVelocityWindow E key (now - window) w) (\<lambda>row w.
        chk (dec \<lparr>us_count = of_int (fst row), us_sum = snd row\<rparr>, w) (\<lambda>_ w.
        InsertVelocityEvent E key amount now w)))) w)"

subsection \<open>The four-eyes gate (approval.go)\<close>

record Intent =
  in_to :: string
  in_asset :: string
  in_key :: string
  in_payment :: string
  in_amount :: int

record PendingApproval =
  pa_id :: string
  pa_proposer :: string
  pa_status :: string
  pa_intent :: Intent

record ApprovalGate =
  ag_threshold :: "int option"
  ag_approvers :: "string list"

definition NewApprovalGate :: "int option \<Rightarrow> string list \<Rightarrow> ApprovalGate option" where
  "NewApprovalGate threshold approvers = Some \<lparr>ag_threshold = threshold, ag_approvers = approvers\<rparr>"

definition gate_enabled :: "ApprovalGate option \<Rightarrow> bool" where
  "gate_enabled g = (case g of None \<Rightarrow> False
     | Some g \<Rightarrow> (case ag_threshold g of None \<Rightarrow> False | Some t \<Rightarrow> t > 0))"

definition Required :: "ApprovalGate option \<Rightarrow> int option \<Rightarrow> bool" where
  "Required g amount =
     (if \<not> gate_enabled g \<or> amount = None then False
      else the amount \<ge> the (ag_threshold (the g)))"

definition KnownApprover :: "ApprovalGate option \<Rightarrow> string \<Rightarrow> bool" where
  "KnownApprover g i = (case g of None \<Rightarrow> False | Some g \<Rightarrow> i \<in> set (ag_approvers g))"

definition Authorize :: "ApprovalGate option \<Rightarrow> string \<Rightarrow> string \<Rightarrow> unit result" where
  "Authorize g proposer approver =
     (if \<not> KnownApprover g approver then Inl ErrUnknownApprover
      else if approver = proposer then Inl ErrSelfApproval
      else Inr ())"


subsection \<open>Loading and matching the denylist\<close>

definition denied_by :: "gethtx \<Rightarrow> denylistEntry list \<Rightarrow> string \<Rightarrow> bool" where
  "denied_by L es a \<longleftrightarrow> (\<exists>e \<in> set es. HexToAddress L (de_address e) = HexToAddress L a)"

lemma load_denied_Inr:
  "load_denied L es d = Inr d' \<Longrightarrow> (\<forall>e \<in> set es. IsHexAddress L (de_address e)) \<and>
     fst ` set d' = fst ` set d \<union> (\<lambda>e. HexToAddress L (de_address e)) ` set es"
  by (induction es arbitrary: d) (auto split: if_splits)

lemma load_denied_ok: "(\<forall>e \<in> set es. IsHexAddress L (de_address e)) \<Longrightarrow> \<exists>d'. load_denied L es d = Inr d'"
  by (induction es arbitrary: d) auto

lemma Screen_denied: "Screen L d a = Inl ErrDenied \<longleftrightarrow> HexToAddress L a \<in> fst ` set d"
  by (auto simp: Screen_def map_of_eq_None_iff split: option.splits) (metis image_eqI map_of_eq_None_iff not_None_eq)

lemma Screen_cases: "Screen L d a = Inr () \<or> Screen L d a = Inl ErrDenied"
  by (simp add: Screen_def split: option.splits)

subsection \<open>Windows\<close>

definition usage_since :: "string \<Rightarrow> time \<Rightarrow> VelocityEvent list \<Rightarrow> VelocityEvent list" where
  "usage_since key since evs = filter (\<lambda>v. ve_key v = key \<and> since \<le> ve_occurred v) evs"

definition in_window :: "string \<Rightarrow> time \<Rightarrow> int \<Rightarrow> VelocityEvent list \<Rightarrow> VelocityEvent list" where
  "in_window key s width evs = filter (\<lambda>v. ve_key v = key \<and> s \<le> ve_occurred v \<and> ve_occurred v \<le> s + width) evs"

definition within :: "VelocityCaps \<Rightarrow> VelocityEvent list \<Rightarrow> bool" where
  "within caps evs \<longleftrightarrow> (vc_count caps > 0 \<longrightarrow> length evs \<le> unat (vc_count caps)) \<and>
     (\<forall>m. vc_amount caps = Some m \<longrightarrow> sum_list (map ve_amount evs) \<le> m)"

text \<open>Every event was within the caps when it was recorded, looking back one window.\<close>

definition guarded :: "VelocityCaps \<Rightarrow> VelocityEvent list \<Rightarrow> bool" where
  "guarded caps evs \<longleftrightarrow> (\<forall>i < length evs. 0 < ve_amount (evs ! i) \<and>
     within caps (usage_since (ve_key (evs ! i)) (ve_occurred (evs ! i) - vc_window caps) (take (Suc i) evs)))"

lemma guarded_Nil [simp]: "guarded caps []"
  by (simp add: guarded_def)

lemma guarded_snoc:
  "guarded caps (evs @ [v]) \<longleftrightarrow> guarded caps evs \<and> 0 < ve_amount v \<and>
     within caps (usage_since (ve_key v) (ve_occurred v - vc_window caps) (evs @ [v]))"
  by (auto simp: guarded_def less_Suc_eq nth_append)

lemma guarded_pos: "guarded caps evs \<Longrightarrow> v \<in> set evs \<Longrightarrow> 0 < ve_amount v"
  by (auto simp: guarded_def in_set_conv_nth)

lemma sum_filter_le:
  "(\<And>v. v \<in> set evs \<Longrightarrow> 0 \<le> ve_amount v) \<Longrightarrow>
     sum_list (map ve_amount (filter P evs)) \<le> sum_list (map ve_amount evs)"
  by (induction evs) (auto intro: order_trans add_mono)

lemma within_filter:
  "within caps evs \<Longrightarrow> (\<And>v. v \<in> set evs \<Longrightarrow> 0 \<le> ve_amount v) \<Longrightarrow> within caps (filter P evs)"
  unfolding within_def using sum_filter_le [of evs P] length_filter_le [of P evs]
  by (meson order_trans)

lemma guarded_window:
  assumes "guarded caps evs"
  shows "in_window key s (vc_window caps) evs = [] \<or> within caps (in_window key s (vc_window caps) evs)"
  using assms
proof (induction evs rule: rev_induct)
  case (snoc v evs)
  let ?in = "\<lambda>v. ve_key v = key \<and> s \<le> ve_occurred v \<and> ve_occurred v \<le> s + vc_window caps"
  show ?case
  proof (cases "?in v")
    case True
    then have "in_window key s (vc_window caps) (evs @ [v]) =
        filter ?in (usage_since (ve_key v) (ve_occurred v - vc_window caps) (evs @ [v]))"
      unfolding in_window_def usage_since_def filter_filter
      by (intro filter_cong) auto
    moreover have "within caps \<dots>"
    proof (rule within_filter)
      show "within caps (usage_since (ve_key v) (ve_occurred v - vc_window caps) (evs @ [v]))"
        using snoc.prems by (simp add: guarded_snoc)
      show "0 \<le> ve_amount u" if "u \<in> set (usage_since (ve_key v) (ve_occurred v - vc_window caps) (evs @ [v]))" for u
        using that guarded_pos [OF snoc.prems, of u] unfolding usage_since_def set_filter by simp
    qed
    ultimately show ?thesis by simp
  next
    case False
    then have "in_window key s (vc_window caps) (evs @ [v]) = in_window key s (vc_window caps) evs"
      by (auto simp: in_window_def)
    with snoc show ?thesis by (simp add: guarded_snoc)
  qed
qed (simp add: in_window_def)

lemma decide_ok:
  assumes "decide caps a \<lparr>us_count = of_nat n, us_sum = x\<rparr> = Inr ()" "n < 9223372036854775808"
  shows "(vc_count caps > 0 \<longrightarrow> Suc n \<le> unat (vc_count caps)) \<and> (\<forall>m. vc_amount caps = Some m \<longrightarrow> x + a \<le> m)"
proof -
  have "unat (of_nat (Suc n) :: uint64) = Suc n"
    using assms(2) by (simp add: unat_of_nat del: of_nat_Suc)
  then have "unat (of_nat n + 1 :: uint64) = Suc n" by (simp add: add.commute)
  then have "of_nat n + 1 \<le> vc_count caps \<longleftrightarrow> Suc n \<le> unat (vc_count caps)"
    by (simp add: word_le_nat_alt)
  with assms(1) show ?thesis by (auto simp: decide_def not_less split: if_splits option.splits)
qed

subsection \<open>What the limiter needs of its store\<close>

locale velocity_store =
  fixes charge :: charge_fn and rnd :: "time \<Rightarrow> time"
  assumes charge_err: "charge key a width now dec w = (Inl e, w') \<Longrightarrow> velocity (db w') = velocity (db w)"
    and charge_ok: "charge key a width now dec w = (Inr u, w') \<Longrightarrow>
      \<exists>i. velocity (db w') = velocity (db w) @ [\<lparr>ve_id = i, ve_key = key, ve_amount = a, ve_occurred = rnd now\<rparr>] \<and>
        length (usage_since key (rnd (now - width)) (velocity (db w))) < 9223372036854775808 \<and>
        dec \<lparr>us_count = of_nat (length (usage_since key (rnd (now - width)) (velocity (db w)))),
             us_sum = sum_list (map ve_amount (usage_since key (rnd (now - width)) (velocity (db w))))\<rparr> = Inr ()"
begin

lemma Charge_guarded:
  assumes g: "guarded caps (velocity (db w))" and exact: "\<And>t. rnd (t - vc_window caps) = rnd t - vc_window caps"
  shows "guarded caps (velocity (db (snd (limiter_Charge E charge (Some caps) key amount w))))"
proof (cases "Enabled caps \<and> (\<exists>a. amount = Some a \<and> 0 < a)")
  case False
  then show ?thesis using g by (auto simp: limiter_Charge_def split: option.splits)
next
  case True
  then obtain a where a: "Enabled caps" "amount = Some a" "0 < a" by blast
  obtain now w1 where t: "time_Now E w = (now, w1)" by (rule prod.exhaust)
  then have db1: "db w1 = db w" by (auto simp: time_Now_def)
  obtain r w2 where c: "charge key a (vc_window caps) now (decide caps a) w1 = (r, w2)" by (rule prod.exhaust)
  have run: "snd (limiter_Charge E charge (Some caps) key amount w) = w2"
    using a t c by (simp add: limiter_Charge_def)
  show ?thesis
  proof (cases r)
    case (Inl e)
    with c charge_err g db1 run show ?thesis by simp
  next
    case (Inr u)
    let ?u = "usage_since key (rnd now - vc_window caps) (velocity (db w))"
    from charge_ok [OF c [unfolded Inr]] obtain i where i:
        "velocity (db w2) = velocity (db w) @ [\<lparr>ve_id = i, ve_key = key, ve_amount = a, ve_occurred = rnd now\<rparr>]"
        "length ?u < 9223372036854775808"
        "decide caps a \<lparr>us_count = of_nat (length ?u), us_sum = sum_list (map ve_amount ?u)\<rparr> = Inr ()"
      unfolding db1 exact by blast
    have "0 < vc_window caps" using a(1) by (simp add: Enabled_def)
    then have "usage_since key (rnd now - vc_window caps)
        (velocity (db w) @ [\<lparr>ve_id = i, ve_key = key, ve_amount = a, ve_occurred = rnd now\<rparr>]) =
        ?u @ [\<lparr>ve_id = i, ve_key = key, ve_amount = a, ve_occurred = rnd now\<rparr>]"
      by (simp add: usage_since_def)
    with decide_ok [OF i(3,2)] a(3) g i(1) run show ?thesis
      by (simp add: guarded_snoc within_def)
  qed
qed

end


lemma SumVelocityWindow_ok:
  assumes "SumVelocityWindow E key since w = (Inr row, w')"
  shows "db w' = db w \<and> length (usage_since key (timestamptz E since) (velocity (db w))) < 9223372036854775808 \<and>
    row = (int (length (usage_since key (timestamptz E since) (velocity (db w)))),
           sum_list (map ve_amount (usage_since key (timestamptz E since) (velocity (db w)))))"
  using assms unfolding SumVelocityWindow_def usage_since_def Let_def
  by (elim reading_okE) (auto simp: int64_def split: if_splits)

lemma InsertVelocityEvent_ok:
  assumes "InsertVelocityEvent E key a at w = (Inr u, w')"
  shows "0 < a \<and> (\<exists>i. velocity (db w') = velocity (db w) @
    [\<lparr>ve_id = i, ve_key = key, ve_amount = a, ve_occurred = timestamptz E at\<rparr>])"
  using assms unfolding InsertVelocityEvent_def by (elim query_okE) (auto split: if_splits)

interpretation pg: velocity_store "pgCharge E" "timestamptz E" for E
proof
  fix key a width now dec e and w w' :: world
  assume "pgCharge E key a width now dec w = (Inl e, w')"
  then show "velocity (db w') = velocity (db w)"
    by (auto simp: pgCharge_def dest: tx_scope_err split: if_splits)
next
  fix key a width now dec u and w w' :: world
  let ?evs = "usage_since key (timestamptz E (now - width)) (velocity (db w))"
  assume "pgCharge E key a width now dec w = (Inr u, w')"
  then obtain w2 where body: "chk (AcquireVelocityLock E (advisoryKey key) (tx_begin E w)) (\<lambda>_ w.
        chk (SumVelocityWindow E key (now - width) w) (\<lambda>row w.
        chk (dec \<lparr>us_count = of_int (fst row), us_sum = snd row\<rparr>, w) (\<lambda>_ w.
        InsertVelocityEvent E key a now w))) = (Inr u, w2)" "w' = tx_end w2"
    unfolding pgCharge_def tx_scope_ok by (auto simp: tx_scope_ok split: if_splits)
  from body(1) obtain x w3 row w4 d w5 where steps:
      "AcquireVelocityLock E (advisoryKey key) (tx_begin E w) = (Inr x, w3)"
      "SumVelocityWindow E key (now - width) w3 = (Inr row, w4)"
      "(dec \<lparr>us_count = of_int (fst row), us_sum = snd row\<rparr>, w4) = (Inr d, w5)"
      "InsertVelocityEvent E key a now w5 = (Inr u, w2)"
    by (elim chk_okE) blast
  have db3: "db w3 = db w" using steps(1) unfolding AcquireVelocityLock_def by (elim reading_okE) simp
  note sum = SumVelocityWindow_ok [OF steps(2), unfolded db3]
  note ins = InsertVelocityEvent_ok [OF steps(4)]
  have "w5 = w4" "dec \<lparr>us_count = of_nat (length ?evs), us_sum = sum_list (map ve_amount ?evs)\<rparr> = Inr ()"
    using steps(3) sum by simp_all
  with ins sum body(2) show "\<exists>i. velocity (db w') = velocity (db w) @
        [\<lparr>ve_id = i, ve_key = key, ve_amount = a, ve_occurred = timestamptz E now\<rparr>] \<and>
        length ?evs < 9223372036854775808 \<and>
        dec \<lparr>us_count = of_nat (length ?evs), us_sum = sum_list (map ve_amount ?evs)\<rparr> = Inr ()"
    by auto
qed

subsection \<open>Properties\<close>

text \<open>A sequence of charges, each with its key and amount.\<close>

fun charge_all :: "env \<Rightarrow> VelocityCaps \<Rightarrow> (string \<times> int option) list \<Rightarrow> world \<Rightarrow> world" where
  "charge_all E caps [] w = w"
| "charge_all E caps ((key, amount) # cs) w =
     charge_all E caps cs (snd (limiter_Charge E (pgCharge E) (Some caps) key amount w))"

lemma charge_all_guarded:
  assumes "\<And>t. timestamptz E (t - vc_window caps) = timestamptz E t - vc_window caps"
  shows "guarded caps (velocity (db w)) \<Longrightarrow> guarded caps (velocity (db (charge_all E caps cs w)))"
proof (induction cs arbitrary: w)
  case (Cons c cs)
  then show ?case by (cases c) (simp add: pg.Charge_guarded assms)
qed simp

text \<open>
  C6. The velocity limit is a sliding-window limit: over any sequence of charges, whatever the
  database and the clock do, every interval of the width of the window holds, for each key, at most
  the configured number of recorded transfers and at most the configured amount. (The window is a
  whole number of microseconds, so that the column's rounding commutes with the subtraction.)\<close>

theorem velocity_sliding_window:
  assumes exact: "\<And>t. timestamptz E (t - vc_window caps) = timestamptz E t - vc_window caps"
    and empty: "velocity (db w) = []"
  shows "let evs = in_window key s (vc_window caps) (velocity (db (charge_all E caps cs w))) in
    (vc_count caps > 0 \<longrightarrow> length evs \<le> unat (vc_count caps)) \<and>
    (\<forall>m. vc_amount caps = Some m \<longrightarrow> evs = [] \<or> sum_list (map ve_amount evs) \<le> m)"
proof -
  have "guarded caps (velocity (db (charge_all E caps cs w)))"
    by (rule charge_all_guarded [OF exact]) (simp add: empty)
  from guarded_window [OF this, of key s] show ?thesis by (auto simp: within_def Let_def)
qed

text \<open>
  Screening fails closed and is exact: a denylist is loaded only if the file could be read and
  decoded and every entry is an address, and then a destination is denied exactly when its parsed
  address is that of an entry, however either is written; without a configured path nothing is read
  and nothing denied.\<close>

theorem screening_exact:
  assumes "policy_Load L F path = Inr d"
  shows "(Screen L d a = Inl ErrDenied \<longleftrightarrow>
      path \<noteq> [] \<and> (\<exists>raw es. pf_ReadFile F path = Inr raw \<and> pf_parse F raw = Inr es \<and> denied_by L es a)) \<and>
    (Screen L d a = Inr () \<or> Screen L d a = Inl ErrDenied) \<and>
    (path = [] \<or> (\<exists>raw es. pf_ReadFile F path = Inr raw \<and> pf_parse F raw = Inr es \<and>
       (\<forall>e \<in> set es. IsHexAddress L (de_address e))))"
proof (cases "path = []")
  case True
  with assms show ?thesis by (simp add: policy_Load_def Screen_def)
next
  case False
  with assms obtain raw es where r: "pf_ReadFile F path = Inr raw" "pf_parse F raw = Inr es"
      "load_denied L es [] = Inr d"
    by (auto simp: policy_Load_def split: sum.splits)
  from load_denied_Inr [OF r(3)] have "Screen L d a = Inl ErrDenied \<longleftrightarrow> denied_by L es a"
      "\<forall>e \<in> set es. IsHexAddress L (de_address e)"
    unfolding Screen_denied denied_by_def by (auto simp: image_iff eq_commute)
  with False r Screen_cases [of L d a] show ?thesis by auto
qed

definition caps0 :: VelocityCaps where
  "caps0 = \<lparr>vc_window = 3600, vc_count = 1, vc_amount = Some 100\<rparr>"

theorem velocity_sliding_window_witness:
  "length (in_window ''k'' 0 3600 (velocity (db (charge_all env0 caps0 [(''k'', Some 60), (''k'', Some 30)] (idle no_tables))))) \<le> 1"
  using velocity_sliding_window [of env0 caps0 "idle no_tables" "''k''" 0 "[(''k'', Some 60), (''k'', Some 30)]"]
  by (simp add: caps0_def no_tables_def Let_def)

definition files0 :: policy_files where
  "files0 = \<lparr>pf_ReadFile = (\<lambda>p. Inr ''[]''), pf_parse = (\<lambda>b. Inr [\<lparr>de_address = ''abc'', de_reason = ''listed''\<rparr>])\<rparr>"

lemma load_files0: "policy_Load (lib0 t0) files0 ''p'' = Inr [(3, ''listed'')]"
  by (simp add: policy_Load_def files0_def lib0_def)

definition blank_tx :: Transaction where
  "blank_tx = \<lparr>tx_chain = 0, tx_nonce = 0, tx_tip = 0, tx_fee = 0, tx_gas = 0, tx_to = 0, tx_value = 0, tx_data = [], tx_sig = []\<rparr>"

theorem screening_exact_witness: "Screen (lib0 blank_tx) [(3, ''listed'')] ''xyz'' = Inl ErrDenied"
  using screening_exact [OF load_files0, of blank_tx "''xyz''"]
  by (simp add: files0_def denied_by_def lib0_def)

end
