(* ===== verification/Approvals.thy ===== *)
theory Approvals
  imports Policy
begin

section \<open>The four-eyes queue\<close>

text \<open>
  \<open>cmd/paymentrailctl/approvalstore.go\<close>: parking a payment for approval, claiming it, and recording or
  taking back its broadcast. Each operation is one transaction; proposing and claiming write the audit
  log in it. The lemmas show what each operation does to the queue on success and that it does nothing
  on failure, that a claimed intent is the parked one, that rows with a recorded hash never change, and,
  over any sequence of operations, that an approved payment was proposed and approved by two different
  operators of the allowlist and that both acts are in the audit log.
\<close>

subsection \<open>The store\<close>

definition payment_member :: "string \<Rightarrow> (string \<times> json) list" where
  "payment_member p = (if p = [] then [] else [(''payment_id'', JString p)])"

definition proposeAuditData :: "string \<Rightarrow> Intent \<Rightarrow> json" where
  "proposeAuditData proposer i = JObject ([(''proposer'', JString proposer)] @ payment_member (in_payment i) @
     [(''to'', JString (in_to i)), (''amount'', JString (itoa (in_amount i))), (''asset'', JString (in_asset i))])"

definition approveAuditData :: "string \<Rightarrow> string \<Rightarrow> string \<Rightarrow> json" where
  "approveAuditData approver approvalID p = JObject ([(''approver'', JString approver),
     (''approval_id'', JString approvalID)] @ payment_member p)"

definition propose_entry :: "env \<Rightarrow> string \<Rightarrow> Intent \<Rightarrow> uuid \<Rightarrow> AuditEntry" where
  "propose_entry E proposer i aid = \<lparr>ae_actor = proposer, ae_action = ''operator.propose'', ae_agg_type = ''payment'',
     ae_agg_id = (if in_payment i = [] then uuid_String E aid else in_payment i),
     ae_occurred = None, ae_data = proposeAuditData proposer i\<rparr>"

definition Propose :: "env \<Rightarrow> string \<Rightarrow> Intent \<Rightarrow> world \<Rightarrow> string result \<times> world" where
  "Propose E proposer i w =
     (if \<not> int64 (in_amount i) then (Inl (OpError ''approval: amount exceeds int64 range''), w)
      else if in_payment i \<noteq> [] \<and> uuid_Parse E (in_payment i) = None
      then (Inl (OpError ''approval: payment id is not a valid uuid''), w)
      else let payment = (if in_payment i = [] then None else uuid_Parse E (in_payment i)) in
        tx_scope E (\<lambda>w.
          chk (InsertPaymentApproval E (in_to i) (in_amount i) (in_asset i) (in_key i) payment proposer w) (\<lambda>aid w.
          chk (Append E (propose_entry E proposer i aid) w) (\<lambda>_ w.
          (Inr (uuid_String E aid), w)))) w)"

text \<open>The intent as it was parked; the payment id maps back from NULL to the empty string.\<close>

definition row_payment :: "env \<Rightarrow> PaymentApproval \<Rightarrow> string" where
  "row_payment E row = (case ap_payment row of None \<Rightarrow> [] | Some u \<Rightarrow> uuid_String E u)"

definition row_intent :: "env \<Rightarrow> PaymentApproval \<Rightarrow> Intent" where
  "row_intent E row = \<lparr>in_to = ap_to row, in_asset = ap_asset row, in_key = ap_key row,
     in_payment = row_payment E row, in_amount = ap_amount row\<rparr>"

definition approve_entry :: "env \<Rightarrow> string \<Rightarrow> PaymentApproval \<Rightarrow> AuditEntry" where
  "approve_entry E approver row = \<lparr>ae_actor = approver, ae_action = ''operator.approve'', ae_agg_type = ''payment'',
     ae_agg_id = (if row_payment E row = [] then uuid_String E (ap_id row) else row_payment E row),
     ae_occurred = None, ae_data = approveAuditData approver (uuid_String E (ap_id row)) (row_payment E row)\<rparr>"

text \<open>What the claim does with the locked row.\<close>

definition claim_row :: "env \<Rightarrow> uuid \<Rightarrow> string \<Rightarrow> (PendingApproval \<Rightarrow> unit result) \<Rightarrow> PaymentApproval \<Rightarrow> world \<Rightarrow> Intent result \<times> world" where
  "claim_row E aid approver dec row w =
     (if ap_status row \<noteq> ''pending'' then (Inl ErrAlreadyApproved, w)
      else chk (dec \<lparr>pa_id = uuid_String E (ap_id row), pa_proposer = ap_proposer row, pa_status = ap_status row,
                     pa_intent = row_intent E row\<rparr>, w) (\<lambda>_ w.
           chk (MarkApprovalApproved E aid approver w) (\<lambda>rows w.
           if rows = 0 then (Inl ErrAlreadyApproved, w)
           else chk (Append E (approve_entry E approver row) w) (\<lambda>_ w. (Inr (row_intent E row), w)))))"

definition Claim :: "env \<Rightarrow> string \<Rightarrow> string \<Rightarrow> (PendingApproval \<Rightarrow> unit result) \<Rightarrow> world \<Rightarrow> Intent result \<times> world" where
  "Claim E approvalID approver dec w =
     (case uuid_Parse E approvalID of
        None \<Rightarrow> (Inl (OpError ''approval: id is not a valid uuid''), w)
      | Some aid \<Rightarrow>
          tx_scope E (\<lambda>w.
            chk (map_err (\<lambda>e. if errorsIs e ErrNoRows then ErrApprovalNotFound else e) (GetApprovalForUpdate E aid w))
                (claim_row E aid approver dec)) w)"

definition MarkBroadcast :: "env \<Rightarrow> string \<Rightarrow> string \<Rightarrow> world \<Rightarrow> unit result \<times> world" where
  "MarkBroadcast E approvalID txHash w =
     (case uuid_Parse E approvalID of
        None \<Rightarrow> (Inl (OpError ''approval: id is not a valid uuid''), w)
      | Some aid \<Rightarrow> chk (MarkApprovalBroadcast E aid txHash w) (\<lambda>rows w.
          (guard (rows = 0) (OpError ''approval: not in the approved state or a tx hash was already recorded''), w)))"

definition Reopen :: "env \<Rightarrow> string \<Rightarrow> world \<Rightarrow> unit result \<times> world" where
  "Reopen E approvalID w =
     (case uuid_Parse E approvalID of
        None \<Rightarrow> (Inl (OpError ''approval: id is not a valid uuid''), w)
      | Some aid \<Rightarrow> chk (ReopenApproval E aid w) (\<lambda>rows w.
          (guard (rows = 0) (OpError ''approval: not in the reopenable state''), w)))"

subsection \<open>What each operation does\<close>

definition parked :: "env \<Rightarrow> uuid \<Rightarrow> string \<Rightarrow> Intent \<Rightarrow> time \<Rightarrow> PaymentApproval" where
  "parked E aid proposer i now = \<lparr>ap_id = aid, ap_to = in_to i, ap_amount = in_amount i, ap_asset = in_asset i,
     ap_key = in_key i, ap_payment = (if in_payment i = [] then None else uuid_Parse E (in_payment i)),
     ap_proposer = proposer, ap_approver = None, ap_status = ''pending'', ap_tx = None, ap_created = now\<rparr>"

lemma InsertPaymentApproval_ok:
  assumes "InsertPaymentApproval E to amount asset key payment proposer w = (Inr aid, w')"
  shows "0 < amount \<and> aid \<notin> ap_id ` set (approvals (db w)) \<and>
    db w' = (db w)\<lparr>approvals := approvals (db w) @ [\<lparr>ap_id = aid, ap_to = to, ap_amount = amount, ap_asset = asset,
      ap_key = key, ap_payment = payment, ap_proposer = proposer, ap_approver = None, ap_status = ''pending'',
      ap_tx = None, ap_created = pg_now E w\<rparr>]\<rparr>"
  using assms unfolding InsertPaymentApproval_def
  by (elim query_okE) (auto simp: list_ex_iff split: if_splits)

lemma mark_approval_ok:
  assumes "mark_approval E hit f w = (Inr n, w')"
  shows "n = length (filter hit (approvals (db w))) \<and>
    db w' = (db w)\<lparr>approvals := update_where hit f (approvals (db w))\<rparr>"
  using assms unfolding mark_approval_def by (elim query_okE) auto

definition logged :: "string \<Rightarrow> string \<Rightarrow> string \<Rightarrow> AuditLog \<Rightarrow> bool" where
  "logged actor action agg r \<longleftrightarrow> al_actor r = actor \<and> al_action r = action \<and> al_agg_type r = ''payment'' \<and> al_agg_id r = agg"

lemma Propose_ok:
  assumes "Propose E proposer i w = (Inr s, w')"
  obtains aid now r where "s = uuid_String E aid" "aid \<notin> ap_id ` set (approvals (db w))" "0 < in_amount i"
    "in_payment i = [] \<or> uuid_Parse E (in_payment i) \<noteq> None"
    "db w' = (db w)\<lparr>approvals := approvals (db w) @ [parked E aid proposer i now], audit := audit (db w) @ [r]\<rparr>"
    "logged proposer ''operator.propose'' (if in_payment i = [] then uuid_String E aid else in_payment i) r"
proof -
  let ?payment = "if in_payment i = [] then None else uuid_Parse E (in_payment i)"
  have p: "in_payment i = [] \<or> uuid_Parse E (in_payment i) \<noteq> None"
    and tx: "tx_scope E (\<lambda>w. chk (InsertPaymentApproval E (in_to i) (in_amount i) (in_asset i) (in_key i) ?payment proposer w) (\<lambda>aid w.
          chk (Append E (propose_entry E proposer i aid) w) (\<lambda>_ w. (Inr (uuid_String E aid), w)))) w = (Inr s, w')"
    using assms unfolding Propose_def Let_def by (auto split: if_splits)
  from pool.exec_ok [OF tx] obtain w1 w2 where w: "db w1 = db w" "db w' = db w2"
      "chk (InsertPaymentApproval E (in_to i) (in_amount i) (in_asset i) (in_key i) ?payment proposer w1) (\<lambda>aid w.
          chk (Append E (propose_entry E proposer i aid) w) (\<lambda>_ w. (Inr (uuid_String E aid), w))) = (Inr s, w2)"
    by blast
  from w(3) obtain aid w3 u w4 where st:
      "InsertPaymentApproval E (in_to i) (in_amount i) (in_asset i) (in_key i) ?payment proposer w1 = (Inr aid, w3)"
      "Append E (propose_entry E proposer i aid) w3 = (Inr u, w4)" "(Inr (uuid_String E aid), w4) = (Inr s, w2)"
    by (elim chk_okE) blast
  note ins = InsertPaymentApproval_ok [OF st(1), unfolded w(1)]
  from Append_row [OF st(2)] obtain r where r: "db w4 = (db w3)\<lparr>audit := audit (db w3) @ [r]\<rparr>"
      "logged proposer ''operator.propose'' (if in_payment i = [] then uuid_String E aid else in_payment i) r"
    by (auto simp: logged_def propose_entry_def)
  show thesis
  proof (rule that [of aid r "pg_now E w1"])
    show "db w' = (db w)\<lparr>approvals := approvals (db w) @ [parked E aid proposer i (pg_now E w1)], audit := audit (db w) @ [r]\<rparr>"
      using r(1) ins st(3) w(2) by (simp add: parked_def)
  qed (use ins st(3) p r(2) in auto)
qed

definition approved_by :: "string \<Rightarrow> PaymentApproval \<Rightarrow> PaymentApproval" where
  "approved_by approver a = a\<lparr>ap_status := ''approved'', ap_approver := Some approver\<rparr>"

lemma claim_row_ok:
  assumes "claim_row E aid approver dec row w = (Inr intent, w')"
  shows "ap_status row = ''pending'' \<and> intent = row_intent E row \<and>
    dec \<lparr>pa_id = uuid_String E (ap_id row), pa_proposer = ap_proposer row, pa_status = ''pending'', pa_intent = intent\<rparr> = Inr () \<and>
    (\<exists>r. db w' = (db w)\<lparr>approvals := update_where (\<lambda>a. ap_id a = aid \<and> ap_status a = ''pending'') (approved_by approver) (approvals (db w)),
           audit := audit (db w) @ [r]\<rparr> \<and>
       logged approver ''operator.approve'' (if row_payment E row = [] then uuid_String E (ap_id row) else row_payment E row) r)"
proof -
  have pend: "ap_status row = ''pending''" using assms by (auto simp: claim_row_def split: if_splits)
  from assms pend obtain d n w4 u where d:
      "dec \<lparr>pa_id = uuid_String E (ap_id row), pa_proposer = ap_proposer row, pa_status = ''pending'', pa_intent = row_intent E row\<rparr> = Inr d"
      "MarkApprovalApproved E aid approver w = (Inr n, w4)" "Append E (approve_entry E approver row) w4 = (Inr u, w')"
      "intent = row_intent E row"
    unfolding claim_row_def by (auto elim!: chk_okE split: if_splits)
  have db4: "db w4 = (db w)\<lparr>approvals := update_where (\<lambda>a. ap_id a = aid \<and> ap_status a = ''pending'') (approved_by approver) (approvals (db w))\<rparr>"
    using mark_approval_ok [OF d(2) [unfolded MarkApprovalApproved_def]] by (simp add: approved_by_def [abs_def])
  from Append_row [OF d(3)] obtain r where "db w' = (db w4)\<lparr>audit := audit (db w4) @ [r]\<rparr>"
      "logged approver ''operator.approve'' (if row_payment E row = [] then uuid_String E (ap_id row) else row_payment E row) r"
    by (auto simp: logged_def approve_entry_def)
  with pend d db4 show ?thesis by auto
qed

lemma Claim_ok:
  assumes "Claim E approvalID approver dec w = (Inr intent, w')"
  obtains aid row r where "uuid_Parse E approvalID = Some aid" "List.find (\<lambda>a. ap_id a = aid) (approvals (db w)) = Some row"
    "ap_id row = aid" "ap_status row = ''pending''" "intent = row_intent E row"
    "dec \<lparr>pa_id = uuid_String E aid, pa_proposer = ap_proposer row, pa_status = ''pending'', pa_intent = intent\<rparr> = Inr ()"
    "db w' = (db w)\<lparr>approvals := update_where (\<lambda>a. ap_id a = aid \<and> ap_status a = ''pending'') (approved_by approver) (approvals (db w)),
       audit := audit (db w) @ [r]\<rparr>"
    "logged approver ''operator.approve'' (if row_payment E row = [] then uuid_String E aid else row_payment E row) r"
proof -
  from assms obtain aid where aid: "uuid_Parse E approvalID = Some aid" by (auto simp: Claim_def split: option.splits)
  from pool.exec_ok [OF assms [unfolded Claim_def aid option.case]] obtain w1 w2 where w: "db w1 = db w" "db w' = db w2"
    and body: "chk (map_err (\<lambda>e. if errorsIs e ErrNoRows then ErrApprovalNotFound else e) (GetApprovalForUpdate E aid w1))
            (claim_row E aid approver dec) = (Inr intent, w2)"
    by blast
  from body obtain row w3 where get: "GetApprovalForUpdate E aid w1 = (Inr row, w3)"
      and cl: "claim_row E aid approver dec row w3 = (Inr intent, w2)"
    by (elim chk_okE) simp
  have row: "List.find (\<lambda>a. ap_id a = aid) (approvals (db w)) = Some row" "db w3 = db w"
    using get w(1) unfolding GetApprovalForUpdate_def by (auto elim!: reading_okE)
  then have ap: "ap_id row = aid" by (auto dest: find_Some_in)
  from claim_row_ok [OF cl] obtain r where "ap_status row = ''pending''" "intent = row_intent E row"
    "dec \<lparr>pa_id = uuid_String E aid, pa_proposer = ap_proposer row, pa_status = ''pending'', pa_intent = intent\<rparr> = Inr ()"
    "db w' = (db w)\<lparr>approvals := update_where (\<lambda>a. ap_id a = aid \<and> ap_status a = ''pending'') (approved_by approver) (approvals (db w)),
       audit := audit (db w) @ [r]\<rparr>"
    "logged approver ''operator.approve'' (if row_payment E row = [] then uuid_String E aid else row_payment E row) r"
    unfolding ap row(2) w(2) by blast
  with that [OF aid row(1) ap] show thesis by blast
qed


lemma MarkBroadcast_run:
  assumes "MarkBroadcast E approvalID h w = (r, w')"
  shows "approvals (db w') = approvals (db w) \<and> audit (db w') = audit (db w) \<or>
    (\<exists>aid. uuid_Parse E approvalID = Some aid \<and> audit (db w') = audit (db w) \<and> approvals (db w') =
       update_where (\<lambda>a. ap_id a = aid \<and> ap_status a = ''approved'' \<and> ap_tx a = None) (\<lambda>a. a\<lparr>ap_tx := Some h\<rparr>) (approvals (db w)))"
proof (cases "uuid_Parse E approvalID")
  case (Some aid)
  obtain m w1 where m: "MarkApprovalBroadcast E aid h w = (m, w1)" by (rule prod.exhaust)
  show ?thesis
  proof (cases m)
    case (Inl e)
    then have "db w1 = db w" using m unfolding MarkApprovalBroadcast_def mark_approval_def by (auto dest: query_err_db)
    with assms Some m Inl show ?thesis by (simp add: MarkBroadcast_def)
  next
    case (Inr n)
    from mark_approval_ok [OF m [unfolded MarkApprovalBroadcast_def Inr]] assms Some m Inr show ?thesis
      by (auto simp: MarkBroadcast_def)
  qed
qed (use assms in \<open>simp add: MarkBroadcast_def\<close>)

lemma Reopen_run:
  assumes "Reopen E approvalID w = (r, w')"
  shows "approvals (db w') = approvals (db w) \<and> audit (db w') = audit (db w) \<or>
    (\<exists>aid. uuid_Parse E approvalID = Some aid \<and> audit (db w') = audit (db w) \<and> approvals (db w') =
       update_where (\<lambda>a. ap_id a = aid \<and> ap_status a = ''approved'' \<and> ap_tx a = None)
         (\<lambda>a. a\<lparr>ap_status := ''pending'', ap_approver := None\<rparr>) (approvals (db w)))"
proof (cases "uuid_Parse E approvalID")
  case (Some aid)
  obtain m w1 where m: "ReopenApproval E aid w = (m, w1)" by (rule prod.exhaust)
  show ?thesis
  proof (cases m)
    case (Inl e)
    then have "db w1 = db w" using m unfolding ReopenApproval_def mark_approval_def by (auto dest: query_err_db)
    with assms Some m Inl show ?thesis by (simp add: Reopen_def)
  next
    case (Inr n)
    from mark_approval_ok [OF m [unfolded ReopenApproval_def Inr]] assms Some m Inr show ?thesis
      by (auto simp: Reopen_def)
  qed
qed (use assms in \<open>simp add: Reopen_def\<close>)

lemma Propose_err: "Propose E proposer i w = (Inl e, w') \<Longrightarrow> db w' = db w"
  by (auto simp: Propose_def Let_def dest: pool.exec_err split: if_splits)

lemma Claim_err: "Claim E approvalID approver dec w = (Inl e, w') \<Longrightarrow> db w' = db w"
  by (auto simp: Claim_def dest: pool.exec_err split: option.splits)

subsection \<open>The queue as a state machine\<close>

text \<open>The steps operators can make: proposals by a known operator, claims through the gate, and the two follow-ups.\<close>

inductive queue_step :: "env \<Rightarrow> ApprovalGate option \<Rightarrow> world \<Rightarrow> world \<Rightarrow> bool" for E g where
  propose: "KnownApprover g p \<Longrightarrow> Propose E p i w = (r, w') \<Longrightarrow> queue_step E g w w'"
| claim: "Claim E a approver (\<lambda>pa. Authorize g (pa_proposer pa) approver) w = (r', w') \<Longrightarrow> queue_step E g w w'"
| broadcast: "MarkBroadcast E a h w = (r'', w') \<Longrightarrow> queue_step E g w w'"
| reopen: "Reopen E a w = (r'', w') \<Longrightarrow> queue_step E g w w'"

definition row_ok :: "ApprovalGate option \<Rightarrow> AuditLog list \<Rightarrow> PaymentApproval \<Rightarrow> bool" where
  "row_ok g log a \<longleftrightarrow> 0 < ap_amount a \<and> KnownApprover g (ap_proposer a) \<and>
     (\<exists>agg. \<exists>r \<in> set log. logged (ap_proposer a) ''operator.propose'' agg r) \<and>
     (ap_status a = ''pending'' \<and> ap_approver a = None \<and> ap_tx a = None \<or>
      ap_status a = ''approved'' \<and> (\<exists>op. ap_approver a = Some op \<and> KnownApprover g op \<and> op \<noteq> ap_proposer a \<and>
        (\<exists>agg. \<exists>r \<in> set log. logged op ''operator.approve'' agg r)))"

definition queue_ok :: "ApprovalGate option \<Rightarrow> tables \<Rightarrow> bool" where
  "queue_ok g t \<longleftrightarrow> distinct (map ap_id (approvals t)) \<and> (\<forall>a \<in> set (approvals t). row_ok g (audit t) a)"

lemma row_ok_more: "row_ok g log a \<Longrightarrow> set log \<subseteq> set log' \<Longrightarrow> row_ok g log' a"
  unfolding row_ok_def by blast

lemma Authorize_ok: "Authorize g p op = Inr u \<Longrightarrow> KnownApprover g op \<and> op \<noteq> p"
  by (auto simp: Authorize_def split: if_splits)

lemma queue_ok_update:
  assumes ok: "queue_ok g t" and keep: "\<And>a. ap_id (f a) = ap_id a"
    and row: "\<And>a. a \<in> set (approvals t) \<Longrightarrow> hit a \<Longrightarrow> row_ok g log a \<Longrightarrow> row_ok g log (f a)"
    and log: "set (audit t) \<subseteq> set log"
  shows "queue_ok g (t\<lparr>approvals := update_where hit f (approvals t), audit := log\<rparr>)"
proof -
  have "row_ok g log a" if "a \<in> set (approvals t)" for a
    using that ok row_ok_more [OF _ log] by (auto simp: queue_ok_def)
  with ok row show ?thesis by (auto simp: queue_ok_def set_update_where keep)
qed

lemma queue_ok_cong: "approvals t' = approvals t \<Longrightarrow> audit t' = audit t \<Longrightarrow> queue_ok g t' = queue_ok g t"
  by (simp add: queue_ok_def)

lemma queue_ok_Propose:
  assumes "queue_ok g (db w)" "KnownApprover g p" "Propose E p i w = (r, w')"
  shows "queue_ok g (db w')"
proof (cases r)
  case (Inl e)
  with assms Propose_err show ?thesis by metis
next
  case (Inr s)
  from assms(3) [unfolded Inr] obtain aid now l where p: "aid \<notin> ap_id ` set (approvals (db w))" "0 < in_amount i"
      "db w' = (db w)\<lparr>approvals := approvals (db w) @ [parked E aid p i now], audit := audit (db w) @ [l]\<rparr>"
      "logged p ''operator.propose'' (if in_payment i = [] then uuid_String E aid else in_payment i) l"
    by (rule Propose_ok)
  have new: "row_ok g (audit (db w) @ [l]) (parked E aid p i now)"
    unfolding row_ok_def using p(2,4) assms(2) by (auto simp: parked_def)
  have old: "row_ok g (audit (db w) @ [l]) a" if "a \<in> set (approvals (db w))" for a
    using that assms(1) row_ok_more [of g "audit (db w)" a "audit (db w) @ [l]"] by (auto simp: queue_ok_def)
  show ?thesis
    using assms(1) p(1) new old unfolding p(3) by (auto simp: queue_ok_def parked_def)
qed

lemma queue_ok_Claim:
  assumes "queue_ok g (db w)" "Claim E a op (\<lambda>pa. Authorize g (pa_proposer pa) op) w = (r, w')"
  shows "queue_ok g (db w')"
proof (cases r)
  case (Inl e)
  with assms Claim_err show ?thesis by metis
next
  case (Inr intent)
  from assms(2) [unfolded Inr] obtain aid row l where c:
      "List.find (\<lambda>a. ap_id a = aid) (approvals (db w)) = Some row" "ap_id row = aid"
      "Authorize g (ap_proposer row) op = Inr ()"
      "db w' = (db w)\<lparr>approvals := update_where (\<lambda>a. ap_id a = aid \<and> ap_status a = ''pending'') (approved_by op) (approvals (db w)),
         audit := audit (db w) @ [l]\<rparr>"
      "logged op ''operator.approve'' (if row_payment E row = [] then uuid_String E aid else row_payment E row) l"
    by (rule Claim_ok) simp
  have auth: "KnownApprover g op" "op \<noteq> ap_proposer row" using Authorize_ok [OF c(3)] by blast+
  show ?thesis unfolding c(4)
  proof (rule queue_ok_update [OF assms(1)])
    fix b assume b: "b \<in> set (approvals (db w))" "ap_id b = aid \<and> ap_status b = ''pending''"
      "row_ok g (audit (db w) @ [l]) b"
    have "b = row" using b c(1) find_by_key [of ap_id "approvals (db w)" b aid] assms(1) by (simp add: queue_ok_def)
    with b(3) auth c(5) show "row_ok g (audit (db w) @ [l]) (approved_by op b)"
      unfolding row_ok_def approved_by_def by auto
  qed (auto simp: approved_by_def)
qed

lemma queue_ok_step: "queue_step E g w w' \<Longrightarrow> queue_ok g (db w) \<Longrightarrow> queue_ok g (db w')"
proof (induction rule: queue_step.induct)
  case (broadcast a h w r'' w')
  have upd: "queue_ok g ((db w)\<lparr>approvals := update_where (\<lambda>a. ap_id a = aid \<and> ap_status a = ''approved'' \<and> ap_tx a = None)
      (\<lambda>a. a\<lparr>ap_tx := Some h\<rparr>) (approvals (db w)), audit := audit (db w)\<rparr>)" for aid
    by (rule queue_ok_update [OF broadcast(2)]) (auto simp: row_ok_def)
  from MarkBroadcast_run [OF broadcast(1)] broadcast(2) upd show ?case
    by (auto simp: queue_ok_def)
next
  case (reopen a w r'' w')
  have upd: "queue_ok g ((db w)\<lparr>approvals := update_where (\<lambda>a. ap_id a = aid \<and> ap_status a = ''approved'' \<and> ap_tx a = None)
      (\<lambda>a. a\<lparr>ap_status := ''pending'', ap_approver := None\<rparr>) (approvals (db w)), audit := audit (db w)\<rparr>)" for aid
    by (rule queue_ok_update [OF reopen(2)]) (auto simp: row_ok_def)
  from Reopen_run [OF reopen(1)] reopen(2) upd show ?case
    by (auto simp: queue_ok_def)
qed (blast intro: queue_ok_Propose queue_ok_Claim)+


subsection \<open>What of a row never changes\<close>

definition ap_columns :: "PaymentApproval \<Rightarrow> uuid \<times> string \<times> int \<times> string \<times> string \<times> uuid option \<times> string" where
  "ap_columns a = (ap_id a, ap_to a, ap_amount a, ap_asset a, ap_key a, ap_payment a, ap_proposer a)"

definition row_step :: "PaymentApproval \<Rightarrow> PaymentApproval \<Rightarrow> bool" where
  "row_step a b \<longleftrightarrow> ap_columns b = ap_columns a \<and> (ap_status a = ''approved'' \<and> ap_tx a \<noteq> None \<longrightarrow> b = a)"

definition queue_grown :: "tables \<Rightarrow> tables \<Rightarrow> bool" where
  "queue_grown t t' \<longleftrightarrow> (\<exists>new old. approvals t' = old @ new \<and> list_all2 row_step (approvals t) old)"

lemma row_step_refl [simp]: "row_step a a"
  by (simp add: row_step_def)

lemma row_step_trans: "row_step a b \<Longrightarrow> row_step b c \<Longrightarrow> row_step a c"
  by (auto simp: row_step_def)

interpretation queue: table_order queue_grown
proof
  show "queue_grown t t" for t
    unfolding queue_grown_def by (intro exI [of _ "[]"] exI [of _ "approvals t"]) (simp add: list.rel_refl)
  show "queue_grown t u \<Longrightarrow> queue_grown u v \<Longrightarrow> queue_grown t v" for t u v
  proof -
    assume "queue_grown t u" "queue_grown u v"
    then obtain n1 o1 n2 o2 where 1: "approvals u = o1 @ n1" "list_all2 row_step (approvals t) o1"
        and 2: "approvals v = o2 @ n2" "list_all2 row_step (o1 @ n1) o2"
      unfolding queue_grown_def by force
    from 2(2) obtain o3 n3 where 3: "o2 = o3 @ n3" "list_all2 row_step o1 o3"
      by (auto simp: list_all2_append1)
    have "list_all2 row_step (approvals t) o3"
      by (rule list_all2_trans [OF _ 1(2) 3(2)]) (rule row_step_trans)
    with 2(1) 3(1) show "queue_grown t v" unfolding queue_grown_def by auto
  qed
qed

lemma queue_grown_update:
  "(\<And>a. hit a \<Longrightarrow> row_step a (f a)) \<Longrightarrow> approvals t' = update_where hit f (approvals t) \<Longrightarrow> queue_grown t t'"
  unfolding queue_grown_def
  by (intro exI [of _ "[]"] exI [of _ "update_where hit f (approvals t)"])
    (auto simp: update_where_def list_all2_conv_all_nth)

lemma queue_grown_same: "approvals t' = approvals t \<Longrightarrow> queue_grown t t'"
  using queue.R_refl [of t] by (simp add: queue_grown_def)

lemma queue_grown_step: "queue_step E g w w' \<Longrightarrow> queue_grown (db w) (db w')"
proof (induction rule: queue_step.induct)
  case (propose p i w r w')
  show ?case
  proof (cases r)
    case (Inl e)
    with propose Propose_err have "db w' = db w" by metis
    then show ?thesis by (simp add: queue.R_refl)
  next
    case (Inr s)
    from propose(2) [unfolded Inr] obtain aid now l where
      "db w' = (db w)\<lparr>approvals := approvals (db w) @ [parked E aid p i now], audit := audit (db w) @ [l]\<rparr>"
      by (rule Propose_ok)
    then show ?thesis unfolding queue_grown_def
      by (intro exI [of _ "[parked E aid p i now]"] exI [of _ "approvals (db w)"]) (simp add: list.rel_refl)
  qed
next
  case (claim a approver w r' w')
  show ?case
  proof (cases r')
    case (Inl e)
    with claim Claim_err have "db w' = db w" by metis
    then show ?thesis by (simp add: queue.R_refl)
  next
    case (Inr s)
    from claim [unfolded Inr] obtain aid row l where
      "db w' = (db w)\<lparr>approvals := update_where (\<lambda>a. ap_id a = aid \<and> ap_status a = ''pending'') (approved_by approver) (approvals (db w)),
         audit := audit (db w) @ [l]\<rparr>"
      by (rule Claim_ok)
    then show ?thesis
      by (intro queue_grown_update [of "\<lambda>a. ap_id a = aid \<and> ap_status a = ''pending''" "approved_by approver"])
        (auto simp: row_step_def ap_columns_def approved_by_def)
  qed
next
  case (broadcast a h w r'' w')
  from MarkBroadcast_run [OF broadcast] show ?case
  proof (elim disjE conjE exE)
    fix aid assume "approvals (db w') = update_where (\<lambda>a. ap_id a = aid \<and> ap_status a = ''approved'' \<and> ap_tx a = None)
      (\<lambda>a. a\<lparr>ap_tx := Some h\<rparr>) (approvals (db w))"
    then show ?case by (rule queue_grown_update [rotated]) (simp add: row_step_def ap_columns_def)
  qed (rule queue_grown_same)
next
  case (reopen a w r'' w')
  from Reopen_run [OF reopen] show ?case
  proof (elim disjE conjE exE)
    fix aid assume "approvals (db w') = update_where (\<lambda>a. ap_id a = aid \<and> ap_status a = ''approved'' \<and> ap_tx a = None)
      (\<lambda>a. a\<lparr>ap_status := ''pending'', ap_approver := None\<rparr>) (approvals (db w))"
    then show ?case by (rule queue_grown_update [rotated]) (simp add: row_step_def ap_columns_def)
  qed (rule queue_grown_same)
qed

lemma queue_grown_sent:
  "queue_grown t t' \<Longrightarrow> a \<in> set (approvals t) \<Longrightarrow> ap_status a = ''approved'' \<Longrightarrow> ap_tx a \<noteq> None \<Longrightarrow> a \<in> set (approvals t')"
proof -
  assume "queue_grown t t'" and a: "a \<in> set (approvals t)" "ap_status a = ''approved''" "ap_tx a \<noteq> None"
  then obtain new old where o: "approvals t' = old @ new" "list_all2 row_step (approvals t) old"
    unfolding queue_grown_def by blast
  from a(1) obtain k where k: "k < length (approvals t)" "approvals t ! k = a" by (auto simp: in_set_conv_nth)
  with o(2) have "row_step a (old ! k)" "k < length old" by (auto simp: list_all2_conv_all_nth)
  with a(2,3) have "a \<in> set old" by (auto simp: row_step_def in_set_conv_nth)
  with o(1) show ?thesis by simp
qed

subsection \<open>Properties\<close>


text \<open>
  C34. What is approved is what was proposed: claiming a payment that was just parked returns its
  intent field by field, the amount exactly, and the payment id in its canonical form.\<close>

theorem propose_claim_roundtrip:
  assumes uuids: "\<And>u. uuid_Parse E (uuid_String E u) = Some u"
    and "Propose E proposer i w = (Inr s, w1)" "Claim E s approver dec w1 = (Inr i', w2)"
  shows "i' = i\<lparr>in_payment := (if in_payment i = [] then [] else uuid_String E (the (uuid_Parse E (in_payment i))))\<rparr>"
proof -
  from assms(2) obtain aid now l where p: "s = uuid_String E aid" "aid \<notin> ap_id ` set (approvals (db w))"
      "in_payment i = [] \<or> uuid_Parse E (in_payment i) \<noteq> None"
      "db w1 = (db w)\<lparr>approvals := approvals (db w) @ [parked E aid proposer i now], audit := audit (db w) @ [l]\<rparr>"
    by (rule Propose_ok)
  from assms(3) obtain aid' row where c: "uuid_Parse E s = Some aid'"
      "List.find (\<lambda>a. ap_id a = aid') (approvals (db w1)) = Some row" "i' = row_intent E row"
    by (rule Claim_ok)
  have "aid' = aid" using c(1) p(1) uuids by simp
  moreover have "List.find (\<lambda>a. ap_id a = aid) (approvals (db w)) = None" using p(2) by (auto simp: find_None_iff)
  ultimately have "row = parked E aid proposer i now" using c(2) p(4) by (simp add: parked_def)
  with c(3) p(3) show ?thesis by (auto simp: row_intent_def row_payment_def parked_def)
qed

text \<open>
  A payment is claimed at most once: after a successful claim every further claim of the same
  approval fails, without changing anything, whoever makes it and whatever it would decide.\<close>

theorem claim_once:
  assumes "Claim E a approver dec w = (Inr i, w1)"
  shows "\<exists>e. fst (Claim E a approver' dec' w1) = Inl e \<and> db (snd (Claim E a approver' dec' w1)) = db w1"
proof -
  from assms obtain aid row l where c: "uuid_Parse E a = Some aid"
      "List.find (\<lambda>a. ap_id a = aid) (approvals (db w)) = Some row" "ap_id row = aid" "ap_status row = ''pending''"
      "db w1 = (db w)\<lparr>approvals := update_where (\<lambda>a. ap_id a = aid \<and> ap_status a = ''pending'') (approved_by approver) (approvals (db w)),
         audit := audit (db w) @ [l]\<rparr>"
    by (rule Claim_ok)
  have status: "ap_status b \<noteq> ''pending''" if "b \<in> set (approvals (db w1))" "ap_id b = aid" for b
  proof -
    let ?hit = "\<lambda>a. ap_id a = aid \<and> ap_status a = ''pending''"
    have "b \<in> (\<lambda>x. if ?hit x then approved_by approver x else x) ` set (approvals (db w))"
      using that(1) unfolding c(5) update_where_def by simp
    then obtain b0 where b0: "b = (if ?hit b0 then approved_by approver b0 else b0)" by (rule imageE)
    show ?thesis
    proof (cases "?hit b0")
      case True
      then show ?thesis using b0 by (simp add: approved_by_def)
    next
      case False
      then have "b = b0" using b0 by argo
      with False that(2) show ?thesis by blast
    qed
  qed
  obtain r w2 where cl: "Claim E a approver' dec' w1 = (r, w2)" by (rule prod.exhaust)
  show ?thesis
  proof (cases r)
    case (Inl e)
    with Claim_err [OF cl [unfolded Inl]] cl show ?thesis by simp
  next
    case (Inr j)
    from cl [unfolded Inr] obtain aid' row' where "uuid_Parse E a = Some aid'"
        "List.find (\<lambda>a. ap_id a = aid') (approvals (db w1)) = Some row'" "ap_status row' = ''pending''"
      by (rule Claim_ok)
    with c(1) have "row' \<in> set (approvals (db w1))" "ap_id row' = aid" "ap_status row' = ''pending''"
      by (auto dest: find_Some_in)
    then show ?thesis using status by blast
  qed
qed


subsection \<open>Instances\<close>

definition env1 :: env where
  "env1 = env0\<lparr>fresh := (\<lambda>n i. n)\<rparr>"

definition gate0 :: "ApprovalGate option" where
  "gate0 = NewApprovalGate (Some 50) [''alice'', ''bob'']"

definition big_intent :: Intent where
  "big_intent = \<lparr>in_to = ''abc'', in_asset = ''USDC'', in_key = ''k'', in_payment = [], in_amount = 50\<rparr>"

definition parked0 :: world where
  "parked0 = snd (Propose env1 ''alice'' big_intent (idle no_tables))"

definition claim0 :: "string \<Rightarrow> world \<Rightarrow> Intent result \<times> world" where
  "claim0 approver w = Claim env1 (uuid_String env1 1) approver (\<lambda>pa. Authorize gate0 (pa_proposer pa) approver) w"

lemma env1_simps [simp]:
  "fault env1 n = False" "fresh env1 n i = n" "clock env1 n = 1000 * int n"
  "uuid_String env1 i = replicate i (CHR ''u'')" "json_Marshal env1 j = Inr (render j)"
  "timestamptz env1 t = t" "sha256 env1 = sha256 env0"
  "uuid_Parse env1 s = (if list_all (\<lambda>c. c = CHR ''u'') s then Some (length s) else None)"
  by (simp_all add: env1_def env0_def list_all_iff)

lemma uuid1: "uuid_Parse env1 (uuid_String env1 u) = Some u"
  by (simp add: list_all_iff)

lemmas queue_eval = Propose_def propose_entry_def proposeAuditData_def payment_member_def big_intent_def
  InsertPaymentApproval_def tx_scope_def Claim_def claim_row_def GetApprovalForUpdate_def MarkApprovalApproved_def
  mark_approval_def gate0_def NewApprovalGate_def Authorize_def KnownApprover_def row_intent_def row_payment_def
  approve_entry_def approveAuditData_def run_defs no_tables_def idle_def

lemma parked0_run: "Propose env1 ''alice'' big_intent (idle no_tables) = (Inr (uuid_String env1 1), parked0)"
proof -
  have "fst (Propose env1 ''alice'' big_intent (idle no_tables)) = Inr (uuid_String env1 1)"
    by (simp add: queue_eval)
  then show ?thesis by (simp add: prod_eq_iff parked0_def)
qed

lemma claim0_run: "claim0 ''bob'' parked0 = (Inr big_intent, snd (claim0 ''bob'' parked0))"
proof -
  have "fst (claim0 ''bob'' parked0) = Inr big_intent"
    unfolding claim0_def parked0_def by (simp add: queue_eval)
  then show ?thesis by (simp add: prod_eq_iff)
qed


theorem propose_claim_roundtrip_witness:
  "\<exists>i'. fst (claim0 ''bob'' parked0) = Inr i' \<and> i' = big_intent\<lparr>in_payment := []\<rparr>"
proof -
  have "big_intent = big_intent\<lparr>in_payment := (if in_payment big_intent = [] then []
      else uuid_String env1 (the (uuid_Parse env1 (in_payment big_intent))))\<rparr>"
    by (rule propose_claim_roundtrip [OF uuid1 parked0_run claim0_run [unfolded claim0_def]])
  moreover have "fst (claim0 ''bob'' parked0) = Inr big_intent" by (subst claim0_run) simp
  ultimately show ?thesis by (simp add: big_intent_def)
qed

theorem claim_once_witness: "\<exists>e. fst (claim0 ''carol'' (snd (claim0 ''bob'' parked0))) = Inl e"
  using claim_once [OF claim0_run [unfolded claim0_def]] unfolding claim0_def by blast

end
