(* ===== verification/Signer.thy ===== *)
theory Signer
  imports Geth
begin

section \<open>The isolated signer\<close>

text \<open>
  \<open>internal/signer\<close> and its gRPC adapter \<open>cmd/signer/server.go\<close>: the keyring and its loader, the
  validation of a request, the calldata allowlist, the per-key spend limiter, signing, and the
  conversion of a request from the wire. The state is the keyring; a request is a step on it. Values
  are immutable here, so the defensive copies of \<open>deepCopy\<close> have no counterpart, and the lock of a
  key, held over check, signature and commit, makes each request one step.

  The lemmas show that the signed amounts of a key never exceed its limit, over any sequence of
  requests; that a request is signed exactly when it passes every check, and that the transaction is
  then exactly the request; which gRPC code answers which defect; and that a loaded keyring has
  exactly the keys of its manifest, all with an unspent limit.
\<close>

unbundle bit_operations_syntax

subsection \<open>Keys and limits\<close>

record SignRequest =
  sr_key :: string
  sr_chain :: uint64
  sr_nonce :: uint64
  sr_gas :: uint64
  sr_to :: address
  sr_value :: "int option"
  sr_max_fee :: "int option"
  sr_tip :: "int option"
  sr_data :: bytes

record SignedTx =
  sg_raw :: bytes
  sg_hash :: hash
  sg_from :: address

record spendBucket =
  bk_limit :: int
  bk_spent :: int

record keyEntry =
  ke_priv :: privkey
  ke_address :: address
  ke_chain :: uint64
  ke_bucket :: spendBucket

type_synonym Keyring = "(string \<times> keyEntry) list"

definition newSpendBucket :: "int \<Rightarrow> spendBucket" where
  "newSpendBucket limit = \<lparr>bk_limit = limit, bk_spent = 0\<rparr>"

text \<open>The callback is pure: \<open>sign\<close> is what it returns, and only used when the limit admits the amount.\<close>

definition charge :: "spendBucket \<Rightarrow> int \<Rightarrow> SignedTx result \<Rightarrow> SignedTx result \<times> spendBucket" where
  "charge b amount sign =
     (let next = bk_spent b + amount
      in if next > bk_limit b then (Inl ErrSpendLimitExceeded, b)
         else case sign of
                Inl e \<Rightarrow> (Inl e, b)
              | Inr tx \<Rightarrow> (Inr tx, b\<lparr>bk_spent := next\<rparr>))"

subsection \<open>Validation\<close>

definition minGasLimit :: uint64 where "minGasLimit = 21000"
definition maxGasLimit :: uint64 where "maxGasLimit = 30000000"
definition erc20TransferCalldataLen :: nat where "erc20TransferCalldataLen = 68"
definition uint256Bits :: nat where "uint256Bits = 256"

definition erc20TransferSelector :: bytes where
  "erc20TransferSelector = [CHR 0xA9, CHR 0x05, CHR 0x9C, CHR 0xBB]"

definition chargedAmount :: "int \<Rightarrow> bytes \<Rightarrow> int result" where
  "chargedAmount v data =
     (if data = [] then Inr v
      else if length data \<noteq> erc20TransferCalldataLen \<or> take 4 data \<noteq> erc20TransferSelector \<or> v \<noteq> 0
      then Inl ErrMalformedTx
      else Inr (SetBytes (drop 36 data)))"

definition uint256_field :: "int option \<Rightarrow> int result" where
  "uint256_field f = (case f of None \<Rightarrow> Inl ErrMalformedTx
     | Some v \<Rightarrow> if v < 0 \<or> BitLen v > uint256Bits then Inl ErrMalformedTx else Inr v)"

definition validate_numbers :: "SignRequest \<Rightarrow> int result" where
  "validate_numbers r =
     (case uint256_field (sr_value r) of Inl e \<Rightarrow> Inl e | Inr v \<Rightarrow>
     (case uint256_field (sr_max_fee r) of Inl e \<Rightarrow> Inl e | Inr fee \<Rightarrow>
     (case uint256_field (sr_tip r) of Inl e \<Rightarrow> Inl e | Inr tip \<Rightarrow>
        if fee = 0 then Inl ErrMalformedTx
        else if fee < tip then Inl ErrMalformedTx
        else if sr_gas r < minGasLimit \<or> sr_gas r > maxGasLimit then Inl ErrMalformedTx
        else Inr v)))"

definition lookup :: "Keyring \<Rightarrow> string \<Rightarrow> keyEntry option" where
  "lookup kr k = map_of kr k"

definition validate :: "Keyring \<Rightarrow> SignRequest \<Rightarrow> (keyEntry \<times> int) result" where
  "validate kr r =
     (case lookup kr (sr_key r) of
        None \<Rightarrow> Inl ErrUnknownKey
      | Some key \<Rightarrow>
          if sr_chain r \<noteq> ke_chain key then Inl ErrChainMismatch
          else if sr_to r = 0 then Inl ErrMalformedTx
          else case validate_numbers r of
                 Inl e \<Rightarrow> Inl e
               | Inr v \<Rightarrow> (case chargedAmount v (sr_data r) of
                             Inl e \<Rightarrow> Inl e | Inr charged \<Rightarrow> Inr (key, charged)))"

subsection \<open>Signing\<close>

definition request_tx :: "SignRequest \<Rightarrow> DynamicFeeTx" where
  "request_tx r = \<lparr>tx_chain = uint (sr_chain r), tx_nonce = sr_nonce r, tx_tip = the (sr_tip r),
     tx_fee = the (sr_max_fee r), tx_gas = sr_gas r, tx_to = sr_to r, tx_value = the (sr_value r),
     tx_data = sr_data r\<rparr>"

definition with_sig :: "DynamicFeeTx \<Rightarrow> bytes \<Rightarrow> Transaction" where
  "with_sig t s = DynamicFeeTx.extend t \<lparr>tx_sig = s\<rparr>"

definition signTx :: "gethtx \<Rightarrow> keyEntry \<Rightarrow> SignRequest \<Rightarrow> SignedTx result" where
  "signTx L key r =
     (case SignTx L (request_tx r) (uint (sr_chain r)) (ke_priv key) of
        Inl e \<Rightarrow> Inl e
      | Inr s \<Rightarrow> (let signed = with_sig (request_tx r) s in
          case MarshalBinary L signed of
            Inl e \<Rightarrow> Inl e
          | Inr raw \<Rightarrow> Inr \<lparr>sg_raw = raw, sg_hash = tx_Hash L signed, sg_from = ke_address key\<rparr>))"

text \<open>\<open>ctx\<close> is the context's error, if it has one. The bucket is shared through the key's pointer.\<close>

definition Sign :: "gethtx \<Rightarrow> err option \<Rightarrow> SignRequest \<Rightarrow> Keyring \<Rightarrow> SignedTx result \<times> Keyring" where
  "Sign L ctx r kr =
     (case ctx of Some e \<Rightarrow> (Inl e, kr)
      | None \<Rightarrow>
         (case validate kr r of
            Inl e \<Rightarrow> (Inl e, kr)
          | Inr (key, charged) \<Rightarrow>
              (case charge (ke_bucket key) charged (signTx L key r) of
                 (res, b) \<Rightarrow> (res, AList.update (sr_key r) (key\<lparr>ke_bucket := b\<rparr>) kr))))"

subsection \<open>Loading the keyring\<close>

text \<open>
  The file system, the path operations of the host (\<open>path/filepath\<close> depends on the operating
  system) and the JSON decoding of the manifest.
\<close>

record manifestEntry =
  me_key :: string
  me_file :: string
  me_chain :: uint64
  me_limit :: string

record os =
  ReadFile :: "string \<Rightarrow> bytes result"
  Stat :: "string \<Rightarrow> 32 word result"
  path_Dir :: "string \<Rightarrow> string"
  path_IsAbs :: "string \<Rightarrow> bool"
  path_Join :: "string \<Rightarrow> string \<Rightarrow> string"
  parse_manifest :: "bytes \<Rightarrow> manifestEntry list result"

definition loadKeyFile :: "gethtx \<Rightarrow> os \<Rightarrow> string \<Rightarrow> string \<Rightarrow> (privkey \<times> address) result" where
  "loadKeyFile L S dir keyFile =
     (if keyFile = [] then Inl (OpError ''key_file is required'')
      else let path = (if path_IsAbs S keyFile then keyFile else path_Join S dir keyFile) in
        (case Stat S path of
           Inl e \<Rightarrow> Inl e
         | Inr perm \<Rightarrow>
             if perm AND 63 \<noteq> 0 then Inl (OpError ''key_file is group/world-accessible'')
             else (case ReadFile S path of
                     Inl e \<Rightarrow> Inl e
                   | Inr raw \<Rightarrow>
                       (case HexToECDSA L (TrimPrefix (TrimSpace raw) ''0x'') of
                          None \<Rightarrow> Inl (OpError ''key_file does not contain a valid hex private key'')
                        | Some priv \<Rightarrow> Inr (priv, PubkeyToAddress L priv)))))"

fun load_entries :: "gethtx \<Rightarrow> os \<Rightarrow> string \<Rightarrow> manifestEntry list \<Rightarrow> Keyring \<Rightarrow> Keyring result" where
  "load_entries L S dir [] keys = Inr keys"
| "load_entries L S dir (e # es) keys =
     (if me_key e = [] then Inl (OpError ''manifest entry is missing key_id'')
      else if lookup keys (me_key e) \<noteq> None then Inl (OpError ''duplicate key_id'')
      else case SetString (me_limit e) of
             None \<Rightarrow> Inl (OpError ''invalid spend_limit'')
           | Some limit \<Rightarrow>
               if limit < 0 then Inl (OpError ''invalid spend_limit'')
               else (case loadKeyFile L S dir (me_file e) of
                       Inl er \<Rightarrow> Inl er
                     | Inr (priv, addr) \<Rightarrow>
                         load_entries L S dir es
                           (keys @ [(me_key e, \<lparr>ke_priv = priv, ke_address = addr, ke_chain = me_chain e,
                                               ke_bucket = newSpendBucket limit\<rparr>)])))"

definition LoadKeyring :: "gethtx \<Rightarrow> os \<Rightarrow> string \<Rightarrow> Keyring result" where
  "LoadKeyring L S manifestPath =
     (case ReadFile S manifestPath of
        Inl e \<Rightarrow> Inl e
      | Inr raw \<Rightarrow>
         (case parse_manifest S raw of
            Inl e \<Rightarrow> Inl e
          | Inr entries \<Rightarrow>
             (case load_entries L S (path_Dir S manifestPath) entries [] of
                Inl e \<Rightarrow> Inl e
              | Inr keys \<Rightarrow> if keys = [] then Inl (OpError ''manifest contains no keys'') else Inr keys)))"

subsection \<open>The gRPC server\<close>

datatype code = codes_NotFound | codes_InvalidArgument | codes_ResourceExhausted | codes_Internal

record SignTransactionRequest =
  rq_key :: string
  rq_chain :: uint64
  rq_nonce :: uint64
  rq_gas :: uint64
  rq_to :: bytes
  rq_value :: bytes
  rq_max_fee :: bytes
  rq_tip :: bytes
  rq_data :: bytes

record SignTransactionResponse =
  rs_raw :: bytes
  rs_hash :: bytes
  rs_from :: string

definition toUint256 :: "bytes \<Rightarrow> code + int" where
  "toUint256 b = (if length b > 32 then Inl codes_InvalidArgument else Inr (SetBytes b))"

definition toDomainRequest :: "gethtx \<Rightarrow> SignTransactionRequest \<Rightarrow> code + SignRequest" where
  "toDomainRequest L q =
     (if length (rq_to q) \<noteq> 20 then Inl codes_InvalidArgument
      else case toUint256 (rq_value q) of Inl c \<Rightarrow> Inl c | Inr v \<Rightarrow>
          (case toUint256 (rq_max_fee q) of Inl c \<Rightarrow> Inl c | Inr fee \<Rightarrow>
          (case toUint256 (rq_tip q) of Inl c \<Rightarrow> Inl c | Inr tip \<Rightarrow>
             Inr \<lparr>sr_key = rq_key q, sr_chain = rq_chain q, sr_nonce = rq_nonce q, sr_gas = rq_gas q,
                  sr_to = BytesToAddress L (rq_to q), sr_value = Some v, sr_max_fee = Some fee,
                  sr_tip = Some tip, sr_data = rq_data q\<rparr>)))"

definition mapSignError :: "err \<Rightarrow> code" where
  "mapSignError e =
     (if errorsIs e ErrUnknownKey then codes_NotFound
      else if errorsIs e ErrChainMismatch then codes_InvalidArgument
      else if errorsIs e ErrMalformedTx then codes_InvalidArgument
      else if errorsIs e ErrSpendLimitExceeded then codes_ResourceExhausted
      else codes_Internal)"

definition SignTransaction ::
  "gethtx \<Rightarrow> err option \<Rightarrow> SignTransactionRequest \<Rightarrow> Keyring \<Rightarrow> (code + SignTransactionResponse) \<times> Keyring" where
  "SignTransaction L ctx q kr =
     (case toDomainRequest L q of
        Inl c \<Rightarrow> (Inl c, kr)
      | Inr r \<Rightarrow>
         (case Sign L ctx r kr of
            (Inl e, kr') \<Rightarrow> (Inl (mapSignError e), kr')
          | (Inr s, kr') \<Rightarrow>
             (Inr \<lparr>rs_raw = sg_raw s, rs_hash = sg_hash s, rs_from = AddressHex L (sg_from s)\<rparr>, kr')))"


subsection \<open>What is signed\<close>

definition uint256 :: "int \<Rightarrow> bool" where
  "uint256 x \<longleftrightarrow> 0 \<le> x \<and> x < 2 ^ 256"

definition transfer_data :: "bytes \<Rightarrow> bool" where
  "transfer_data d \<longleftrightarrow> length d = 68 \<and> take 4 d = erc20TransferSelector"

text \<open>The amount a request moves: its value, or the token amount in its calldata.\<close>

definition amount_of :: "SignRequest \<Rightarrow> int" where
  "amount_of r = (if sr_data r = [] then the (sr_value r) else SetBytes (drop 36 (sr_data r)))"

definition well_formed :: "SignRequest \<Rightarrow> bool" where
  "well_formed r \<longleftrightarrow> sr_to r \<noteq> 0 \<and> 21000 \<le> uint (sr_gas r) \<and> uint (sr_gas r) \<le> 30000000 \<and>
     (\<exists>v fee tip. sr_value r = Some v \<and> sr_max_fee r = Some fee \<and> sr_tip r = Some tip \<and>
        uint256 v \<and> uint256 fee \<and> uint256 tip \<and> 0 < fee \<and> tip \<le> fee \<and>
        (sr_data r = [] \<or> transfer_data (sr_data r) \<and> v = 0))"

lemma uint256_field_eq:
  "uint256_field f = (case f of None \<Rightarrow> Inl ErrMalformedTx | Some v \<Rightarrow> if uint256 v then Inr v else Inl ErrMalformedTx)"
proof (cases f)
  case (Some v)
  have "256 < BitLen v \<longleftrightarrow> \<not> \<bar>v\<bar> < 2 ^ 256" using BitLen_le [of v 256] by linarith
  then have "v < 0 \<or> BitLen v > uint256Bits \<longleftrightarrow> \<not> uint256 v"
    unfolding uint256_def uint256Bits_def by auto
  with Some show ?thesis by (simp add: uint256_field_def)
qed (simp add: uint256_field_def)

lemma uint256_field_ok: "uint256_field f = Inr v \<longleftrightarrow> f = Some v \<and> uint256 v"
  by (cases f) (auto simp: uint256_field_eq)

lemma chargedAmount_ok:
  "chargedAmount v d = Inr a \<longleftrightarrow> d = [] \<and> a = v \<or> transfer_data d \<and> v = 0 \<and> a = SetBytes (drop 36 d)"
  by (auto simp: chargedAmount_def transfer_data_def erc20TransferCalldataLen_def)

lemma validate_numbers_ok:
  "validate_numbers r = Inr v \<longleftrightarrow>
     (\<exists>fee tip. sr_value r = Some v \<and> sr_max_fee r = Some fee \<and> sr_tip r = Some tip \<and>
        uint256 v \<and> uint256 fee \<and> uint256 tip \<and> fee \<noteq> 0 \<and> tip \<le> fee \<and>
        minGasLimit \<le> sr_gas r \<and> sr_gas r \<le> maxGasLimit)"
  by (auto simp: validate_numbers_def uint256_field_eq not_less split: option.splits sum.splits if_splits)

lemma gas_bounds:
  "minGasLimit \<le> g \<longleftrightarrow> 21000 \<le> uint g" "g \<le> maxGasLimit \<longleftrightarrow> uint g \<le> 30000000"
  by (simp_all add: minGasLimit_def maxGasLimit_def word_le_def)

lemma request_validate_ok:
  "validate kr r = Inr (key, a) \<longleftrightarrow>
     map_of kr (sr_key r) = Some key \<and> sr_chain r = ke_chain key \<and> well_formed r \<and> a = amount_of r"
  (is "?l \<longleftrightarrow> ?r")
proof
  assume ?l
  then obtain v where *: "map_of kr (sr_key r) = Some key" "sr_chain r = ke_chain key" "sr_to r \<noteq> 0"
      "validate_numbers r = Inr v" "chargedAmount v (sr_data r) = Inr a"
    by (auto simp: validate_def lookup_def split: option.splits if_splits sum.splits)
  then show ?r
    by (auto simp: validate_numbers_ok chargedAmount_ok well_formed_def gas_bounds amount_of_def
        uint256_def transfer_data_def)
next
  assume r: ?r
  then obtain v fee tip where *: "sr_value r = Some v" "sr_max_fee r = Some fee" "sr_tip r = Some tip"
      "uint256 v" "uint256 fee" "uint256 tip" "0 < fee" "tip \<le> fee"
      "sr_data r = [] \<or> transfer_data (sr_data r) \<and> v = 0"
    by (auto simp: well_formed_def)
  then have n: "validate_numbers r = Inr v"
    using r by (auto simp: validate_numbers_ok gas_bounds well_formed_def)
  have "chargedAmount v (sr_data r) = Inr a"
    using * r by (auto simp: chargedAmount_ok amount_of_def transfer_data_def)
  with n r show ?l by (simp add: validate_def lookup_def well_formed_def)
qed

lemma amount_nonneg: "well_formed r \<Longrightarrow> 0 \<le> amount_of r"
  by (auto simp: well_formed_def amount_of_def uint256_def)

lemma signTx_ok:
  "signTx L key r = Inr s \<longleftrightarrow>
     (\<exists>sig raw. SignTx L (request_tx r) (uint (sr_chain r)) (ke_priv key) = Inr sig \<and>
        MarshalBinary L (with_sig (request_tx r) sig) = Inr raw \<and>
        s = \<lparr>sg_raw = raw, sg_hash = tx_Hash L (with_sig (request_tx r) sig), sg_from = ke_address key\<rparr>)"
  by (auto simp: signTx_def Let_def split: sum.splits)

lemma charge_ok:
  "charge b a sg = (Inr s, b') \<longleftrightarrow>
     sg = Inr s \<and> bk_spent b + a \<le> bk_limit b \<and> b' = b\<lparr>bk_spent := bk_spent b + a\<rparr>"
  by (auto simp: charge_def Let_def split: sum.splits)

lemma charge_err: "charge b a sg = (Inl e, b') \<Longrightarrow> b' = b"
  by (auto simp: charge_def Let_def split: sum.splits if_splits)

definition charged :: "SignRequest \<Rightarrow> keyEntry \<Rightarrow> Keyring \<Rightarrow> Keyring" where
  "charged r key kr = AList.update (sr_key r)
     (key\<lparr>ke_bucket := (ke_bucket key)\<lparr>bk_spent := bk_spent (ke_bucket key) + amount_of r\<rparr>\<rparr>) kr"

lemma update_same: "map_of m k = Some v \<Longrightarrow> AList.update k v m = m"
  by (induction m) auto

lemma Sign_err: "Sign L ctx r kr = (Inl e, kr') \<Longrightarrow> kr' = kr"
proof (cases ctx)
  case None
  assume s: "Sign L ctx r kr = (Inl e, kr')"
  show ?thesis
  proof (cases "validate kr r")
    case (Inr p)
    obtain key a where p: "p = (key, a)" by (rule prod.exhaust)
    obtain res b where c: "charge (ke_bucket key) a (signTx L key r) = (res, b)" by (rule prod.exhaust)
    with s None Inr p have "res = Inl e" "kr' = AList.update (sr_key r) (key\<lparr>ke_bucket := b\<rparr>) kr"
      by (simp_all add: Sign_def)
    with c have "b = ke_bucket key" by (auto dest: charge_err)
    moreover have "map_of kr (sr_key r) = Some key" using Inr p by (simp add: request_validate_ok)
    ultimately show ?thesis using \<open>kr' = _\<close> by (simp add: update_same)
  qed (use s None in \<open>simp add: Sign_def\<close>)
qed (simp add: Sign_def)

lemma Sign_Inr:
  "Sign L ctx r kr = (Inr s, kr') \<longleftrightarrow>
     ctx = None \<and> (\<exists>key. map_of kr (sr_key r) = Some key \<and> sr_chain r = ke_chain key \<and>
       well_formed r \<and> bk_spent (ke_bucket key) + amount_of r \<le> bk_limit (ke_bucket key) \<and>
       signTx L key r = Inr s \<and> kr' = charged r key kr)" (is "?l \<longleftrightarrow> ?r")
proof
  assume l: ?l
  then have c: "ctx = None" by (auto simp: Sign_def split: option.splits)
  then obtain key a where v: "validate kr r = Inr (key, a)"
    using l by (auto simp: Sign_def split: sum.splits)
  obtain res b where ch: "charge (ke_bucket key) a (signTx L key r) = (res, b)" by (rule prod.exhaust)
  with l c v have "res = Inr s" "kr' = AList.update (sr_key r) (key\<lparr>ke_bucket := b\<rparr>) kr"
    by (simp_all add: Sign_def)
  with ch have "signTx L key r = Inr s" "bk_spent (ke_bucket key) + a \<le> bk_limit (ke_bucket key)"
      "b = (ke_bucket key)\<lparr>bk_spent := bk_spent (ke_bucket key) + a\<rparr>"
    by (simp_all add: charge_ok)
  with c v \<open>kr' = _\<close> show ?r by (simp add: request_validate_ok charged_def)
next
  assume ?r
  then obtain key where *: "ctx = None" "validate kr r = Inr (key, amount_of r)"
      "charge (ke_bucket key) (amount_of r) (signTx L key r) =
         (Inr s, (ke_bucket key)\<lparr>bk_spent := bk_spent (ke_bucket key) + amount_of r\<rparr>)"
      "kr' = charged r key kr"
    by (auto simp: request_validate_ok charge_ok)
  then show ?l by (simp add: Sign_def charged_def)
qed


subsection \<open>The wire\<close>

definition shaped :: "SignTransactionRequest \<Rightarrow> bool" where
  "shaped q \<longleftrightarrow> length (rq_to q) = 20 \<and> length (rq_value q) \<le> 32 \<and> length (rq_max_fee q) \<le> 32 \<and>
     length (rq_tip q) \<le> 32"

definition decoded :: "gethtx \<Rightarrow> SignTransactionRequest \<Rightarrow> SignRequest" where
  "decoded L q = \<lparr>sr_key = rq_key q, sr_chain = rq_chain q, sr_nonce = rq_nonce q, sr_gas = rq_gas q,
     sr_to = BytesToAddress L (rq_to q), sr_value = Some (SetBytes (rq_value q)),
     sr_max_fee = Some (SetBytes (rq_max_fee q)), sr_tip = Some (SetBytes (rq_tip q)), sr_data = rq_data q\<rparr>"

lemma decoded_simps [simp]:
  "sr_key (decoded L q) = rq_key q" "sr_chain (decoded L q) = rq_chain q"
  by (simp_all add: decoded_def)

lemma toDomainRequest_eq:
  "toDomainRequest L q = (if shaped q then Inr (decoded L q) else Inl codes_InvalidArgument)"
  by (simp add: toDomainRequest_def toUint256_def shaped_def decoded_def)

lemma SignTransaction_Inr:
  "SignTransaction L ctx q kr = (Inr a, kr') \<longleftrightarrow> shaped q \<and>
     (\<exists>s. Sign L ctx (decoded L q) kr = (Inr s, kr') \<and>
        a = \<lparr>rs_raw = sg_raw s, rs_hash = sg_hash s, rs_from = AddressHex L (sg_from s)\<rparr>)"
  by (auto simp: SignTransaction_def toDomainRequest_eq split: prod.splits sum.splits)

lemma SignTransaction_err: "SignTransaction L ctx q kr = (Inl c, kr') \<Longrightarrow> kr' = kr"
  by (auto simp: SignTransaction_def dest: Sign_err split: prod.splits sum.splits)

subsection \<open>The budget of a key\<close>

definition keyring_ok :: "Keyring \<Rightarrow> bool" where
  "keyring_ok kr \<longleftrightarrow> distinct (map fst kr) \<and>
     (\<forall>k key. map_of kr k = Some key \<longrightarrow> 0 \<le> bk_spent (ke_bucket key) \<and>
        bk_spent (ke_bucket key) \<le> bk_limit (ke_bucket key))"

text \<open>What of a key no request changes.\<close>

definition fixed_part :: "keyEntry \<Rightarrow> privkey \<times> address \<times> uint64 \<times> int" where
  "fixed_part key = (ke_priv key, ke_address key, ke_chain key, bk_limit (ke_bucket key))"

lemma fixed_part_bucket [simp]:
  "fixed_part (key\<lparr>ke_bucket := (ke_bucket key)\<lparr>bk_spent := x\<rparr>\<rparr>) = fixed_part key"
  by (simp add: fixed_part_def)

lemma charged_map_of: "map_of (charged r key kr) k = (if k = sr_key r
     then Some (key\<lparr>ke_bucket := (ke_bucket key)\<lparr>bk_spent := bk_spent (ke_bucket key) + amount_of r\<rparr>\<rparr>)
     else map_of kr k)"
  by (simp add: charged_def update_conv')

lemma keyring_ok_SignTransaction:
  assumes ok: "keyring_ok kr"
  shows "keyring_ok (snd (SignTransaction L ctx q kr))"
proof (cases "fst (SignTransaction L ctx q kr)")
  case (Inl c)
  then have "SignTransaction L ctx q kr = (Inl c, snd (SignTransaction L ctx q kr))" by (simp add: prod_eq_iff)
  from SignTransaction_err [OF this] ok show ?thesis by simp
next
  case (Inr a)
  then have "SignTransaction L ctx q kr = (Inr a, snd (SignTransaction L ctx q kr))" by (simp add: prod_eq_iff)
  then obtain key where key: "map_of kr (rq_key q) = Some key" "well_formed (decoded L q)"
      "bk_spent (ke_bucket key) + amount_of (decoded L q) \<le> bk_limit (ke_bucket key)"
      "snd (SignTransaction L ctx q kr) = charged (decoded L q) key kr"
    by (auto simp: SignTransaction_Inr Sign_Inr)
  have "distinct (map fst (charged (decoded L q) key kr))"
    using ok by (simp add: keyring_ok_def charged_def distinct_update)
  with ok key amount_nonneg [OF key(2)] show ?thesis
    by (auto simp: keyring_ok_def charged_map_of intro: add_nonneg_nonneg)
qed

lemma fixed_part_SignTransaction:
  "map_option fixed_part (map_of (snd (SignTransaction L ctx q kr)) k) = map_option fixed_part (map_of kr k)"
proof (cases "fst (SignTransaction L ctx q kr)")
  case (Inl c)
  then have "SignTransaction L ctx q kr = (Inl c, snd (SignTransaction L ctx q kr))" by (simp add: prod_eq_iff)
  from SignTransaction_err [OF this] show ?thesis by simp
next
  case (Inr a)
  then have "SignTransaction L ctx q kr = (Inr a, snd (SignTransaction L ctx q kr))" by (simp add: prod_eq_iff)
  then obtain key where "map_of kr (rq_key q) = Some key"
      "snd (SignTransaction L ctx q kr) = charged (decoded L q) key kr"
    by (auto simp: SignTransaction_Inr Sign_Inr)
  then show ?thesis by (simp add: charged_map_of)
qed

text \<open>A run of the server: the requests it signed, with its answers, and the keyring it leaves.\<close>

fun serve :: "gethtx \<Rightarrow> (err option \<times> SignTransactionRequest) list \<Rightarrow> Keyring
    \<Rightarrow> (SignTransactionRequest \<times> SignTransactionResponse) list \<times> Keyring" where
  "serve L [] kr = ([], kr)"
| "serve L ((ctx, q) # qs) kr =
     (case SignTransaction L ctx q kr of
        (Inl c, kr') \<Rightarrow> serve L qs kr'
      | (Inr a, kr') \<Rightarrow> (case serve L qs kr' of (out, kr'') \<Rightarrow> ((q, a) # out, kr'')))"

definition wire_amount :: "SignTransactionRequest \<Rightarrow> int" where
  "wire_amount q = (if rq_data q = [] then SetBytes (rq_value q) else SetBytes (drop 36 (rq_data q)))"

definition spending :: "string \<Rightarrow> (SignTransactionRequest \<times> SignTransactionResponse) list \<Rightarrow> int" where
  "spending k out = sum_list (map (wire_amount \<circ> fst) (filter (\<lambda>(q, a). rq_key q = k) out))"

lemma amount_of_decoded [simp]: "amount_of (decoded L q) = wire_amount q"
  by (simp add: amount_of_def decoded_def wire_amount_def)

lemma serve_spent:
  assumes "serve L qs kr = (out, kr')" "map_of kr k = Some key"
  shows "\<exists>key'. map_of kr' k = Some key' \<and> fixed_part key' = fixed_part key \<and>
     bk_spent (ke_bucket key') = bk_spent (ke_bucket key) + spending k out"
  using assms
proof (induction L qs kr arbitrary: out kr' key rule: serve.induct)
  case (1 L kr)
  then show ?case by (simp add: spending_def)
next
  case (2 L ctx q qs kr)
  obtain r kr1 where st: "SignTransaction L ctx q kr = (r, kr1)" by (rule prod.exhaust)
  show ?case
  proof (cases r)
    case (Inl c)
    with st have "kr1 = kr" by (auto dest: SignTransaction_err)
    with 2 st Inl show ?thesis by auto
  next
    case (Inr a)
    obtain out1 where out: "serve L qs kr1 = (out1, kr')" "out = (q, a) # out1"
      using 2(3) st Inr by (auto split: prod.splits)
    obtain key1 where key1: "map_of kr (rq_key q) = Some key1" "kr1 = charged (decoded L q) key1 kr"
      using st Inr by (auto simp: SignTransaction_Inr Sign_Inr)
    let ?key = "if k = rq_key q then key1\<lparr>ke_bucket := (ke_bucket key1)\<lparr>bk_spent := bk_spent (ke_bucket key1) + wire_amount q\<rparr>\<rparr> else key"
    have "map_of kr1 k = Some ?key" using key1 2(4) by (auto simp: charged_map_of)
    from 2(2) [OF st [symmetric] Inr out(1) this] obtain key' where
        "map_of kr' k = Some key'" "fixed_part key' = fixed_part ?key"
        "bk_spent (ke_bucket key') = bk_spent (ke_bucket ?key) + spending k out1"
      by blast
    with out(2) key1(1) 2(4) show ?thesis by (auto simp: spending_def)
  qed
qed

lemma keyring_ok_serve: "keyring_ok kr \<Longrightarrow> keyring_ok (snd (serve L qs kr))"
proof (induction L qs kr rule: serve.induct)
  case (2 L ctx q qs kr)
  obtain r kr1 where st: "SignTransaction L ctx q kr = (r, kr1)" by (rule prod.exhaust)
  have "keyring_ok kr1" using keyring_ok_SignTransaction [OF 2(3), of L ctx q] st by simp
  with 2(1) [OF st [symmetric]] 2(2) [OF st [symmetric]] st show ?case
    by (cases r) (auto split: prod.splits)
qed simp

lemma fixed_part_serve:
  "map_option fixed_part (map_of (snd (serve L qs kr)) k) = map_option fixed_part (map_of kr k)"
proof (induction L qs kr rule: serve.induct)
  case (2 L ctx q qs kr)
  obtain r kr1 where st: "SignTransaction L ctx q kr = (r, kr1)" by (rule prod.exhaust)
  have "map_option fixed_part (map_of kr1 k) = map_option fixed_part (map_of kr k)"
    using fixed_part_SignTransaction [of L ctx q kr k] st by simp
  with 2(1) [OF st [symmetric]] 2(2) [OF st [symmetric]] st show ?case
    by (cases r) (auto split: prod.splits)
qed simp

lemma serve_wellformed:
  "(q, a) \<in> set (fst (serve L qs kr)) \<Longrightarrow> well_formed (decoded L q)"
proof (induction L qs kr rule: serve.induct)
  case (2 L ctx q' qs kr)
  obtain r kr1 where st: "SignTransaction L ctx q' kr = (r, kr1)" by (rule prod.exhaust)
  show ?case
  proof (cases r)
    case (Inl c)
    with st 2(1) [OF st [symmetric] Inl] 2(3) show ?thesis by simp
  next
    case (Inr b)
    obtain out kr2 where sv: "serve L qs kr1 = (out, kr2)" by (rule prod.exhaust)
    with st Inr 2(3) have "(q, a) = (q', b) \<or> (q, a) \<in> set out" by simp
    then show ?thesis
      using st Inr sv 2(2) [OF st [symmetric] Inr] by (auto simp: SignTransaction_Inr Sign_Inr)
  qed
qed simp


subsection \<open>A loaded keyring\<close>

definition key_path :: "os \<Rightarrow> string \<Rightarrow> string \<Rightarrow> string" where
  "key_path S dir f = (if path_IsAbs S f then f else path_Join S dir f)"

definition key_of_file :: "gethtx \<Rightarrow> os \<Rightarrow> string \<Rightarrow> string \<Rightarrow> privkey \<Rightarrow> bool" where
  "key_of_file L S dir f priv \<longleftrightarrow> f \<noteq> [] \<and>
     (\<exists>perm. Stat S (key_path S dir f) = Inr perm \<and> perm AND 63 = 0) \<and>
     (\<exists>raw. ReadFile S (key_path S dir f) = Inr raw \<and>
        HexToECDSA L (TrimPrefix (TrimSpace raw) ''0x'') = Some priv)"

definition entry_loaded :: "gethtx \<Rightarrow> os \<Rightarrow> string \<Rightarrow> manifestEntry \<Rightarrow> string \<times> keyEntry \<Rightarrow> bool" where
  "entry_loaded L S dir e ke \<longleftrightarrow> me_key e \<noteq> [] \<and> fst ke = me_key e \<and>
     key_of_file L S dir (me_file e) (ke_priv (snd ke)) \<and>
     ke_address (snd ke) = PubkeyToAddress L (ke_priv (snd ke)) \<and> ke_chain (snd ke) = me_chain e \<and>
     (\<exists>limit\<ge>0. SetString (me_limit e) = Some limit \<and> ke_bucket (snd ke) = \<lparr>bk_limit = limit, bk_spent = 0\<rparr>)"

lemma loadKeyFile_ok:
  "loadKeyFile L S dir f = Inr (priv, addr) \<longleftrightarrow> key_of_file L S dir f priv \<and> addr = PubkeyToAddress L priv"
  by (auto simp: loadKeyFile_def key_of_file_def key_path_def Let_def split: sum.splits option.splits)

lemma load_entry_iff:
  "load_entries L S dir (e # es) keys = Inr kr \<longleftrightarrow>
     (\<exists>key. entry_loaded L S dir e (me_key e, key) \<and> me_key e \<notin> fst ` set keys \<and>
        load_entries L S dir es (keys @ [(me_key e, key)]) = Inr kr)" (is "?l \<longleftrightarrow> ?r")
proof
  assume ?l
  then obtain limit priv addr where *: "me_key e \<noteq> []" "me_key e \<notin> fst ` set keys"
      "SetString (me_limit e) = Some limit" "0 \<le> limit" "loadKeyFile L S dir (me_file e) = Inr (priv, addr)"
      "load_entries L S dir es (keys @ [(me_key e, \<lparr>ke_priv = priv, ke_address = addr, ke_chain = me_chain e,
         ke_bucket = newSpendBucket limit\<rparr>)]) = Inr kr"
    by (auto simp: lookup_def map_of_eq_None_iff not_less split: if_splits option.splits sum.splits)
  then show ?r
    by (intro exI [of _ "\<lparr>ke_priv = priv, ke_address = addr, ke_chain = me_chain e, ke_bucket = newSpendBucket limit\<rparr>"])
      (auto simp: entry_loaded_def loadKeyFile_ok newSpendBucket_def)
next
  assume ?r
  then obtain key where key: "entry_loaded L S dir e (me_key e, key)" "me_key e \<notin> fst ` set keys"
      "load_entries L S dir es (keys @ [(me_key e, key)]) = Inr kr" by blast
  then obtain limit where l: "0 \<le> limit" "SetString (me_limit e) = Some limit"
      "ke_bucket key = newSpendBucket limit"
    by (auto simp: entry_loaded_def newSpendBucket_def)
  have f: "loadKeyFile L S dir (me_file e) = Inr (ke_priv key, ke_address key)"
    using key(1) by (simp add: entry_loaded_def loadKeyFile_ok)
  have rec: "\<lparr>ke_priv = ke_priv key, ke_address = ke_address key, ke_chain = me_chain e,
      ke_bucket = newSpendBucket limit\<rparr> = key"
    using key(1) l(3) by (simp add: entry_loaded_def)
  have "me_key e \<noteq> []" "lookup keys (me_key e) = None"
    using key(1,2) by (simp_all add: entry_loaded_def lookup_def map_of_eq_None_iff)
  with l f key(3) show ?l by (simp add: rec)
qed

lemma load_entries_ok:
  "load_entries L S dir es keys = Inr kr \<longleftrightarrow>
     (\<exists>ks. kr = keys @ ks \<and> list_all2 (entry_loaded L S dir) es ks \<and> distinct (map me_key es) \<and>
        set (map me_key es) \<inter> fst ` set keys = {})"
proof (induction es arbitrary: keys)
  case (Cons e es)
  have "load_entries L S dir (e # es) keys = Inr kr \<longleftrightarrow>
     (\<exists>key ks. entry_loaded L S dir e (me_key e, key) \<and> me_key e \<notin> fst ` set keys \<and>
        kr = keys @ (me_key e, key) # ks \<and> list_all2 (entry_loaded L S dir) es ks \<and> distinct (map me_key es) \<and>
        set (map me_key es) \<inter> insert (me_key e) (fst ` set keys) = {})"
    unfolding load_entry_iff Cons.IH by auto
  also have "\<dots> \<longleftrightarrow> (\<exists>ks. kr = keys @ ks \<and> list_all2 (entry_loaded L S dir) (e # es) ks \<and>
      distinct (map me_key (e # es)) \<and> set (map me_key (e # es)) \<inter> fst ` set keys = {})" (is "?a \<longleftrightarrow> ?b")
  proof
    assume ?a then show ?b by fastforce
  next
    assume ?b
    then obtain ke ks where "kr = keys @ ke # ks" "entry_loaded L S dir e ke"
        "list_all2 (entry_loaded L S dir) es ks" "distinct (map me_key (e # es))"
        "set (map me_key (e # es)) \<inter> fst ` set keys = {}"
      by (auto simp: list_all2_Cons1)
    moreover from this have "ke = (me_key e, snd ke)" by (simp add: entry_loaded_def prod_eq_iff)
    ultimately show ?a by (intro exI [of _ "snd ke"] exI [of _ ks]) auto
  qed
  finally show ?case .
qed auto

lemma LoadKeyring_Inr:
  "LoadKeyring L S path = Inr kr \<longleftrightarrow>
     (\<exists>raw es. ReadFile S path = Inr raw \<and> parse_manifest S raw = Inr es \<and> es \<noteq> [] \<and>
        distinct (map me_key es) \<and> list_all2 (entry_loaded L S (path_Dir S path)) es kr)"
proof -
  have "LoadKeyring L S path = Inr kr \<longleftrightarrow> (\<exists>raw es. ReadFile S path = Inr raw \<and> parse_manifest S raw = Inr es \<and>
      load_entries L S (path_Dir S path) es [] = Inr kr \<and> kr \<noteq> [])"
    by (auto simp: LoadKeyring_def split: sum.splits)
  also have "\<dots> \<longleftrightarrow> (\<exists>raw es. ReadFile S path = Inr raw \<and> parse_manifest S raw = Inr es \<and> es \<noteq> [] \<and>
        distinct (map me_key es) \<and> list_all2 (entry_loaded L S (path_Dir S path)) es kr)"
    unfolding load_entries_ok by (intro ex_cong1) (auto dest: list_all2_lengthD)
  finally show ?thesis .
qed

lemma list_all2_keys: "list_all2 (entry_loaded L S dir) es kr \<Longrightarrow> map fst kr = map me_key es"
  by (induction es kr rule: list_all2_induct) (auto simp: entry_loaded_def)

lemma LoadKeyring_ok: "LoadKeyring L S path = Inr kr \<Longrightarrow> keyring_ok kr"
proof -
  assume "LoadKeyring L S path = Inr kr"
  then obtain es where es: "distinct (map me_key es)" "list_all2 (entry_loaded L S (path_Dir S path)) es kr"
    by (auto simp: LoadKeyring_Inr)
  have "distinct (map fst kr)" using es list_all2_keys by metis
  moreover have "0 \<le> bk_spent (ke_bucket key) \<and> bk_spent (ke_bucket key) \<le> bk_limit (ke_bucket key)"
    if "map_of kr k = Some key" for k key
  proof -
    from that have "(k, key) \<in> set kr" by (rule map_of_SomeD)
    then obtain e where "entry_loaded L S (path_Dir S path) e (k, key)"
      using es(2) by (auto simp: list_all2_conv_all_nth in_set_conv_nth)
    then show ?thesis by (auto simp: entry_loaded_def)
  qed
  ultimately show ?thesis by (simp add: keyring_ok_def)
qed

lemma LoadKeyring_unspent:
  assumes "LoadKeyring L S path = Inr kr" "map_of kr k = Some key"
  shows "bk_spent (ke_bucket key) = 0"
proof -
  obtain es where es: "list_all2 (entry_loaded L S (path_Dir S path)) es kr"
    using assms(1) by (auto simp: LoadKeyring_Inr)
  from assms(2) have "(k, key) \<in> set kr" by (rule map_of_SomeD)
  then obtain e where "entry_loaded L S (path_Dir S path) e (k, key)"
    using es by (auto simp: list_all2_conv_all_nth in_set_conv_nth)
  then show ?thesis by (auto simp: entry_loaded_def)
qed


subsection \<open>Properties\<close>

text \<open>
  C7. Whatever requests arrive after the keyring is loaded, and whichever fail, the amounts of the
  transactions signed with a key sum to at most the limit its manifest entry sets; each of them is
  non-negative and was signed for the chain of the key.\<close>

theorem signer_budget:
  assumes load: "LoadKeyring L S path = Inr kr" and key: "map_of kr k = Some key"
    and run: "serve L qs kr = (out, kr')"
  shows "spending k out \<le> bk_limit (ke_bucket key) \<and>
    (\<forall>(q, a) \<in> set out. 0 \<le> wire_amount q \<and> well_formed (decoded L q))"
proof -
  obtain key' where key': "map_of kr' k = Some key'" "fixed_part key' = fixed_part key"
      "bk_spent (ke_bucket key') = bk_spent (ke_bucket key) + spending k out"
    using serve_spent [OF run key] by blast
  have "keyring_ok kr'" using keyring_ok_serve [OF LoadKeyring_ok [OF load], of L qs] run by simp
  then have "bk_spent (ke_bucket key') \<le> bk_limit (ke_bucket key')" using key'(1) by (simp add: keyring_ok_def)
  then have "spending k out \<le> bk_limit (ke_bucket key)"
    using key' LoadKeyring_unspent [OF load key] by (simp add: fixed_part_def)
  moreover have "0 \<le> wire_amount q \<and> well_formed (decoded L q)" if "(q, a) \<in> set out" for q a
    using serve_wellformed [of q a L qs kr] that run amount_nonneg [of "decoded L q"] by simp
  ultimately show ?thesis by auto
qed

text \<open>
  C32. A request is signed exactly when the context is alive, the key exists and is bound to the
  request's chain, the request is well formed (a real destination, 256-bit amounts, a positive fee
  cap not below the tip, gas within [21000, 30000000], calldata empty or an ERC-20 transfer without
  value), the limit of the key leaves room for the amount, and the library signs and encodes. The
  signed transaction then has exactly the fields of the request, and the amount is charged.\<close>

theorem Sign_exact:
  "Sign L ctx r kr = (Inr s, kr') \<longleftrightarrow>
     ctx = None \<and> (\<exists>key sig raw. map_of kr (sr_key r) = Some key \<and> sr_chain r = ke_chain key \<and>
       well_formed r \<and> bk_spent (ke_bucket key) + amount_of r \<le> bk_limit (ke_bucket key) \<and>
       SignTx L (request_tx r) (uint (ke_chain key)) (ke_priv key) = Inr sig \<and>
       MarshalBinary L (with_sig (request_tx r) sig) = Inr raw \<and>
       s = \<lparr>sg_raw = raw, sg_hash = tx_Hash L (with_sig (request_tx r) sig), sg_from = ke_address key\<rparr> \<and>
       kr' = AList.update (sr_key r)
         (key\<lparr>ke_bucket := (ke_bucket key)\<lparr>bk_spent := bk_spent (ke_bucket key) + amount_of r\<rparr>\<rparr>) kr)"
  unfolding Sign_Inr signTx_ok charged_def by auto

text \<open>
  Loading fails closed: a keyring is loaded exactly when the manifest can be read and decoded, is
  not empty, has no key twice, and every entry has a name, a non-negative decimal limit and a key
  file that is readable, accessible to its owner only and holds a private key. The keyring then has
  exactly these keys, in order, each bound to the chain of its entry, with nothing spent.\<close>

theorem LoadKeyring_exact:
  "LoadKeyring L S path = Inr kr \<longleftrightarrow>
     (\<exists>raw es. ReadFile S path = Inr raw \<and> parse_manifest S raw = Inr es \<and> es \<noteq> [] \<and>
        distinct (map me_key es) \<and> list_all2 (entry_loaded L S (path_Dir S path)) es kr)"
  by (rule LoadKeyring_Inr)

text \<open>
  C33. The keyring keeps its type: loading gives distinct keys whose spent total lies between 0 and
  the limit, every run of the server keeps that, and no request changes the private key, address,
  chain or limit of a key, or adds or removes one.\<close>

theorem keyring_typed:
  assumes "LoadKeyring L S path = Inr kr"
  shows "keyring_ok (snd (serve L qs kr)) \<and>
    map_option fixed_part (map_of (snd (serve L qs kr)) k) = map_option fixed_part (map_of kr k)"
proof
  show "keyring_ok (snd (serve L qs kr))" by (rule keyring_ok_serve [OF LoadKeyring_ok [OF assms]])
  show "map_option fixed_part (map_of (snd (serve L qs kr)) k) = map_option fixed_part (map_of kr k)"
    by (rule fixed_part_serve)
qed

subsection \<open>Instances\<close>

definition native60 :: SignTransactionRequest where
  "native60 = \<lparr>rq_key = ''k'', rq_chain = 5, rq_nonce = 0, rq_gas = 21000, rq_to = replicate 19 (CHR 0x00) @ [CHR 0x09],
     rq_value = [CHR 0x3C], rq_max_fee = [CHR 0x02], rq_tip = [], rq_data = []\<rparr>"

definition os0 :: os where
  "os0 = \<lparr>ReadFile = (\<lambda>p. Inr ''priv''), Stat = (\<lambda>p. Inr 384), path_Dir = (\<lambda>p. p), path_IsAbs = (\<lambda>p. True),
     path_Join = (\<lambda>d f. d @ f),
     parse_manifest = (\<lambda>b. Inr [\<lparr>me_key = ''k'', me_file = ''f'', me_chain = 5, me_limit = ''100''\<rparr>])\<rparr>"

definition kr0 :: Keyring where
  "kr0 = [(''k'', \<lparr>ke_priv = ''priv'', ke_address = 4, ke_chain = 5, ke_bucket = \<lparr>bk_limit = 100, bk_spent = 0\<rparr>\<rparr>)]"

definition signed60 :: Transaction where
  "signed60 = \<lparr>tx_chain = 5, tx_nonce = 0, tx_tip = 0, tx_fee = 2, tx_gas = 21000, tx_to = 9, tx_value = 60,
     tx_data = [], tx_sig = ''priv''\<rparr>"

lemma load0: "LoadKeyring (lib0 signed60) os0 ''m'' = Inr kr0"
  by code_simp

lemma key0: "map_of kr0 ''k'' = Some (snd (hd kr0))" "bk_limit (ke_bucket (snd (hd kr0))) = 100"
  by (simp_all add: kr0_def)

lemma serve0: "serve (lib0 signed60) [(None, native60), (None, native60)] kr0 =
    ([(native60, \<lparr>rs_raw = ''raw'', rs_hash = [], rs_from = ''xxxx''\<rparr>)],
     [(''k'', (snd (hd kr0))\<lparr>ke_bucket := \<lparr>bk_limit = 100, bk_spent = 60\<rparr>\<rparr>)])"
  by code_simp

theorem signer_budget_witness:
  "spending ''k'' (fst (serve (lib0 signed60) [(None, native60), (None, native60)] kr0)) \<le> 100 \<and>
   length (fst (serve (lib0 signed60) [(None, native60), (None, native60)] kr0)) = 1"
  using signer_budget [OF load0 key0(1) serve0] unfolding serve0 key0(2) by simp

theorem keyring_typed_witness:
  "keyring_ok (snd (serve (lib0 signed60) [(None, native60)] kr0)) \<and>
   map_option fixed_part (map_of (snd (serve (lib0 signed60) [(None, native60)] kr0)) ''k'') = Some (''priv'', 4, 5, 100)"
  using keyring_typed [OF load0, of "[(None, native60)]" "''k''"] by (simp add: kr0_def fixed_part_def)

end
