(* ===== verification/Evm.thy ===== *)
theory Evm
  imports Signer
begin

section \<open>The EVM adapter\<close>

text \<open>
  \<open>internal/chain/evm\<close> without the watcher: ERC-20 calldata, gas pricing, the nonce allocator, the
  adapter's \<open>Submit\<close> and the balance reader; and the client of the signer,
  \<open>cmd/paymentrailctl/signerclient.go\<close>. The node's answers are the record \<open>ethRPC\<close>, each a
  function of the number of the call; the state holds that number, the transactions the node has
  accepted, the nonce high-water marks of the adapter, and the state behind the signer port.

  The lemmas show that calldata round-trips through the signer's own decoding, that pricing never
  wraps and respects the caps, that nonces of successful submissions strictly increase, that every
  transaction that reaches the node is the transfer the intent asks for, and that every failure is
  one of the documented sentinels.
\<close>

subsection \<open>Calldata\<close>

definition evm_erc20TransferSelector :: bytes where
  "evm_erc20TransferSelector = [CHR 0xA9, CHR 0x05, CHR 0x9C, CHR 0xBB]"

definition erc20BalanceOfSelector :: bytes where
  "erc20BalanceOfSelector = [CHR 0x70, CHR 0xA0, CHR 0x82, CHR 0x31]"

definition evm_calldataLen :: nat where "evm_calldataLen = 68"
definition erc20BalanceOfCalldataLen :: nat where "erc20BalanceOfCalldataLen = 36"
definition evm_uint256Bits :: nat where "evm_uint256Bits = 256"

text \<open>\<open>copy(data[i:j], src)\<close> with a source of \<open>j - i\<close> bytes.\<close>

definition copy_at :: "nat \<Rightarrow> bytes \<Rightarrow> bytes \<Rightarrow> bytes" where
  "copy_at i src dst = take i dst @ src @ drop (i + length src) dst"

definition packERC20Transfer :: "address \<Rightarrow> int option \<Rightarrow> bytes result" where
  "packERC20Transfer to amount =
     (case amount of
        None \<Rightarrow> Inl ErrInvalidIntent
      | Some a \<Rightarrow>
          if a \<le> 0 then Inl ErrInvalidIntent
          else if BitLen a > evm_uint256Bits then Inl ErrInvalidIntent
          else (let data = replicate evm_calldataLen (CHR 0x00);
                    data = copy_at 0 evm_erc20TransferSelector data;
                    data = copy_at 16 (address_Bytes to) data
                in case FillBytes 32 a of
                     None \<Rightarrow> Inl (OpError ''panic'')
                   | Some w \<Rightarrow> Inr (copy_at 36 w data)))"

definition packERC20BalanceOf :: "address \<Rightarrow> bytes" where
  "packERC20BalanceOf holder =
     (let data = replicate erc20BalanceOfCalldataLen (CHR 0x00);
          data = copy_at 0 erc20BalanceOfSelector data
      in copy_at 16 (address_Bytes holder) data)"

subsection \<open>The node\<close>

record CallMsg =
  cm_from :: address
  cm_to :: address
  cm_value :: "int option"
  cm_data :: bytes

text \<open>
  \<open>SendOk\<close>: the node took the transaction and said so. \<open>SendErr b\<close>: the call failed, and \<open>b\<close> says
  whether the node has the transaction all the same (a timeout after delivery, say).
\<close>

datatype send = SendOk | SendErr bool

record ethRPC =
  rpc_ChainID :: "nat \<Rightarrow> int option result"
  rpc_PendingNonceAt :: "nat \<Rightarrow> address \<Rightarrow> uint64 result"
  rpc_BaseFee :: "nat \<Rightarrow> int option result"
  rpc_SuggestGasTipCap :: "nat \<Rightarrow> int result"
  rpc_EstimateGas :: "nat \<Rightarrow> CallMsg \<Rightarrow> uint64 result"
  rpc_SendTransaction :: "nat \<Rightarrow> Transaction \<Rightarrow> send"
  rpc_CallContract :: "nat \<Rightarrow> CallMsg \<Rightarrow> bytes result"

record 'g chain =
  ch_calls :: nat
  ch_sent :: "Transaction list"
  ch_next :: "address \<Rightarrow> uint64"
  ch_signer :: 'g

definition call :: "(nat \<Rightarrow> 'a) \<Rightarrow> 'g chain \<Rightarrow> 'a \<times> 'g chain" where
  "call f c = (f (ch_calls c), c\<lparr>ch_calls := Suc (ch_calls c)\<rparr>)"

definition send_tx :: "ethRPC \<Rightarrow> Transaction \<Rightarrow> 'g chain \<Rightarrow> unit result \<times> 'g chain" where
  "send_tx R t c =
     (case call (\<lambda>n. rpc_SendTransaction R n t) c of
        (SendOk, c') \<Rightarrow> (Inr (), c'\<lparr>ch_sent := ch_sent c' @ [t]\<rparr>)
      | (SendErr b, c') \<Rightarrow> (Inl ErrBroadcast, if b then c'\<lparr>ch_sent := ch_sent c' @ [t]\<rparr> else c'))"

subsection \<open>Gas\<close>

record Config =
  cf_key :: string
  cf_chain :: uint64
  cf_from :: address
  cf_token :: address
  cf_gas_cap :: uint64
  cf_fee_cap :: "int option"

record gasParams =
  gp_gas :: uint64
  gp_fee :: int
  gp_tip :: int

definition gasLimitBufferPct :: uint64 where "gasLimitBufferPct = 125"
definition baseFeeHeadroom :: int where "baseFeeHeadroom = 2"

text \<open>\<open>bits.Mul64\<close>: the 128-bit product, in two words.\<close>

definition Mul64 :: "uint64 \<Rightarrow> uint64 \<Rightarrow> uint64 \<times> uint64" where
  "Mul64 x y = (of_int (uint x * uint y div 2 ^ 64), of_int (uint x * uint y))"

definition gasEstimate :: "ethRPC \<Rightarrow> Config \<Rightarrow> CallMsg \<Rightarrow> 'g chain \<Rightarrow> gasParams result \<times> 'g chain" where
  "gasEstimate R cfg msg c =
     chk (map_err (\<lambda>_. ErrGasEstimation) (call (\<lambda>n. rpc_EstimateGas R n msg) c)) (\<lambda>estimate c.
       case Mul64 estimate gasLimitBufferPct of (hi, lo) \<Rightarrow>
         if hi \<noteq> 0 then (Inl ErrGasCapExceeded, c)
         else (let gasLimit = lo div 100 in
           if gasLimit > cf_gas_cap cfg then (Inl ErrGasCapExceeded, c)
           else chk (map_err (\<lambda>_. ErrGasEstimation) (call (rpc_SuggestGasTipCap R) c)) (\<lambda>tip c.
             chk (map_err (\<lambda>_. ErrGasEstimation) (call (rpc_BaseFee R) c)) (\<lambda>base c.
               case base of
                 None \<Rightarrow> (Inl ErrGasEstimation, c)
               | Some b \<Rightarrow>
                   (let maxFee = b * baseFeeHeadroom + tip in
                    if maxFee > the (cf_fee_cap cfg) then (Inl ErrFeeCapExceeded, c)
                    else (Inr \<lparr>gp_gas = gasLimit, gp_fee = maxFee, gp_tip = tip\<rparr>, c))))))"

subsection \<open>Nonces\<close>

definition withNonce :: "ethRPC \<Rightarrow> address \<Rightarrow> (uint64 \<Rightarrow> 'g chain \<Rightarrow> 'a result \<times> 'g chain)
    \<Rightarrow> 'g chain \<Rightarrow> 'a result \<times> 'g chain" where
  "withNonce R from fn c =
     chk (map_err (\<lambda>_. ErrNonceUnavailable) (call (\<lambda>n. rpc_PendingNonceAt R n from) c)) (\<lambda>pending c.
       let hw = ch_next c from;
           nonce = (if hw > pending then hw else pending)
       in chk (fn nonce c) (\<lambda>x c. (Inr x, c\<lparr>ch_next := (ch_next c)(from := nonce + 1)\<rparr>)))"

subsection \<open>The adapter\<close>

definition newNonceAllocator :: "address \<Rightarrow> uint64" where
  "newNonceAllocator = (\<lambda>_. 0)"

definition NewAdapter :: "Config \<Rightarrow> Config result" where
  "NewAdapter cfg =
     (if cf_key cfg = [] then Inl (OpError ''evm: config KeyID is required'')
      else if cf_from cfg = 0 then Inl (OpError ''evm: config From address is required'')
      else if cf_token cfg = 0 then Inl (OpError ''evm: config Token address is required'')
      else if cf_gas_cap cfg = 0 then Inl (OpError ''evm: config GasLimitCap must be positive'')
      else case cf_fee_cap cfg of
             None \<Rightarrow> Inl (OpError ''evm: config MaxFeePerGasCapWei must be positive'')
           | Some x \<Rightarrow> if x \<le> 0 then Inl (OpError ''evm: config MaxFeePerGasCapWei must be positive'')
                       else Inr cfg)"

definition VerifyChainID :: "ethRPC \<Rightarrow> Config \<Rightarrow> 'g chain \<Rightarrow> unit result \<times> 'g chain" where
  "VerifyChainID R cfg c =
     chk (call (rpc_ChainID R) c) (\<lambda>got c.
       (guard (got \<noteq> Some (uint (cf_chain cfg))) (OpError ''evm: chain id mismatch''), c))"

record PaymentIntent =
  pi_key :: string
  pi_asset :: string
  pi_to :: string
  pi_amount :: "int option"

record SignerRequest =
  eq_key :: string
  eq_chain :: uint64
  eq_nonce :: uint64
  eq_gas :: uint64
  eq_to :: address
  eq_value :: int
  eq_fee :: int
  eq_tip :: int
  eq_data :: bytes

type_synonym 'g signer = "SignerRequest \<Rightarrow> 'g \<Rightarrow> SignedTx result \<times> 'g"

definition call_signer :: "'g signer \<Rightarrow> SignerRequest \<Rightarrow> 'g chain \<Rightarrow> SignedTx result \<times> 'g chain" where
  "call_signer sign r c = (case sign r (ch_signer c) of (s, g) \<Rightarrow> (s, c\<lparr>ch_signer := g\<rparr>))"

text \<open>The critical section of \<open>Submit\<close>: sign, check the signer's account, decode and broadcast.\<close>

definition sign_and_send ::
  "ethRPC \<Rightarrow> gethtx \<Rightarrow> geth \<Rightarrow> 'g signer \<Rightarrow> Config \<Rightarrow> gasParams \<Rightarrow> bytes \<Rightarrow> uint64 \<Rightarrow> 'g chain \<Rightarrow> string result \<times> 'g chain" where
  "sign_and_send R L G sign cfg gp data nonce c =
     chk (map_err (\<lambda>_. ErrSignerRejected) (call_signer sign
            \<lparr>eq_key = cf_key cfg, eq_chain = cf_chain cfg, eq_nonce = nonce, eq_gas = gp_gas gp,
             eq_to = cf_token cfg, eq_value = 0, eq_fee = gp_fee gp, eq_tip = gp_tip gp, eq_data = data\<rparr> c))
       (\<lambda>signed c.
          if sg_from signed \<noteq> cf_from cfg then (Inl ErrSignerRejected, c)
          else case UnmarshalBinary L (sg_raw signed) of
                 Inl e \<Rightarrow> (Inl ErrBroadcast, c)
               | Inr t \<Rightarrow> chk (send_tx R t c) (\<lambda>_ c. (Inr (HashHex G (sg_hash signed)), c)))"

definition Submit ::
  "ethRPC \<Rightarrow> gethtx \<Rightarrow> geth \<Rightarrow> 'g signer \<Rightarrow> Config \<Rightarrow> PaymentIntent \<Rightarrow> 'g chain \<Rightarrow> string result \<times> 'g chain" where
  "Submit R L G sign cfg intent c =
     (if pi_asset intent \<noteq> ''USDC'' then (Inl ErrUnsupportedAsset, c)
      else if \<not> IsHexAddress L (pi_to intent) then (Inl ErrInvalidIntent, c)
      else let recipient = HexToAddress L (pi_to intent) in
        if recipient = 0 then (Inl ErrInvalidIntent, c)
        else if (case pi_amount intent of None \<Rightarrow> True | Some a \<Rightarrow> a \<le> 0 \<or> BitLen a > evm_uint256Bits)
        then (Inl ErrInvalidIntent, c)
        else if pi_key intent \<noteq> [] \<and> pi_key intent \<noteq> cf_key cfg then (Inl ErrInvalidIntent, c)
        else case packERC20Transfer recipient (pi_amount intent) of
               Inl e \<Rightarrow> (Inl e, c)
             | Inr data \<Rightarrow>
                 chk (gasEstimate R cfg \<lparr>cm_from = cf_from cfg, cm_to = cf_token cfg, cm_value = Some 0,
                                         cm_data = data\<rparr> c)
                   (\<lambda>gp c. withNonce R (cf_from cfg) (sign_and_send R L G sign cfg gp data) c))"

definition submitOutcome :: "err option \<Rightarrow> string" where
  "submitOutcome e = (case e of None \<Rightarrow> ''submitted'' | Some e \<Rightarrow>
     if errorsIs e ErrUnsupportedAsset then ''unsupported_asset''
     else if errorsIs e ErrInvalidIntent then ''invalid_intent''
     else if errorsIs e ErrGasCapExceeded then ''gas_cap_exceeded''
     else if errorsIs e ErrFeeCapExceeded then ''fee_cap_exceeded''
     else if errorsIs e ErrGasEstimation then ''gas_estimation_failed''
     else if errorsIs e ErrNonceUnavailable then ''nonce_unavailable''
     else if errorsIs e ErrSignerRejected then ''signer_rejected''
     else if errorsIs e ErrBroadcast then ''broadcast_failed''
     else ''error'')"

subsection \<open>Balances\<close>

definition erc20WordLen :: nat where "erc20WordLen = 32"

definition BalanceOf :: "ethRPC \<Rightarrow> gethtx \<Rightarrow> string \<Rightarrow> string \<Rightarrow> 'g chain \<Rightarrow> int result \<times> 'g chain" where
  "BalanceOf R L token holder c =
     (if \<not> IsHexAddress L token then (Inl ErrInvalidIntent, c)
      else if \<not> IsHexAddress L holder then (Inl ErrInvalidIntent, c)
      else chk (map_err (\<lambda>_. OpError ''evm: balanceOf call failed'') (call (\<lambda>n. rpc_CallContract R n
               \<lparr>cm_from = 0, cm_to = HexToAddress L token, cm_value = None,
                cm_data = packERC20BalanceOf (HexToAddress L holder)\<rparr>) c))
             (\<lambda>out c. if length out < erc20WordLen then (Inl (OpError ''evm: balanceOf returned too few bytes''), c)
                      else (Inr (SetBytes (take erc20WordLen out)), c)))"

subsection \<open>The client of the signer\<close>

text \<open>
  What happens to the \<open>n\<close>-th call over gRPC: the request or the response can be lost, and the server's
  context can be canceled. The state is the number of calls and the signer's keyring.
\<close>

datatype fate = Delivered | RequestLost | ResponseLost

record grpc =
  net_fate :: "nat \<Rightarrow> fate"
  net_ctx :: "nat \<Rightarrow> err option"

definition encode_request :: "SignerRequest \<Rightarrow> SignTransactionRequest" where
  "encode_request r = \<lparr>rq_key = eq_key r, rq_chain = eq_chain r, rq_nonce = eq_nonce r, rq_gas = eq_gas r,
     rq_to = address_Bytes (eq_to r), rq_value = big_Bytes (eq_value r), rq_max_fee = big_Bytes (eq_fee r),
     rq_tip = big_Bytes (eq_tip r), rq_data = eq_data r\<rparr>"

definition signerClient_Sign :: "gethtx \<Rightarrow> grpc \<Rightarrow> (nat \<times> Keyring) signer" where
  "signerClient_Sign L N r g =
     (case g of (n, kr) \<Rightarrow>
        if net_fate N n = RequestLost then (Inl (OpError ''signer rpc''), (Suc n, kr))
        else case SignTransaction L (net_ctx N n) (encode_request r) kr of
               (Inl c, kr') \<Rightarrow> (Inl (OpError ''signer rpc''), (Suc n, kr'))
             | (Inr a, kr') \<Rightarrow>
                 if net_fate N n = ResponseLost then (Inl (OpError ''signer rpc''), (Suc n, kr'))
                 else (Inr \<lparr>sg_raw = rs_raw a, sg_hash = BytesToHash L (rs_hash a),
                            sg_from = HexToAddress L (rs_from a)\<rparr>, (Suc n, kr')))"


subsection \<open>Calldata round trips\<close>

definition transfer_call :: "address \<Rightarrow> int \<Rightarrow> bytes" where
  "transfer_call to a = evm_erc20TransferSelector @ replicate 12 (CHR 0x00) @ address_Bytes to @ be_bytes 32 (nat a)"

lemma selectors_agree: "evm_erc20TransferSelector = erc20TransferSelector"
  by (simp add: evm_erc20TransferSelector_def erc20TransferSelector_def)

lemma copy_at_append:
  "length u = i \<Longrightarrow> length v = length src \<Longrightarrow> copy_at i src (u @ v @ x) = u @ src @ x"
  by (simp add: copy_at_def)

lemma replicate_split: "n = i + (j + k) \<Longrightarrow> replicate n z = replicate i z @ replicate j z @ replicate k z"
  by (simp add: replicate_add)

lemma pack_layout:
  assumes "length w = 32"
  shows "copy_at 36 w (copy_at 16 (address_Bytes to) (copy_at 0 evm_erc20TransferSelector (replicate 68 z))) =
    evm_erc20TransferSelector @ replicate 12 z @ address_Bytes to @ w"
proof -
  have "copy_at 0 evm_erc20TransferSelector (replicate 68 z) = evm_erc20TransferSelector @ replicate 64 z"
    by (simp add: copy_at_def evm_erc20TransferSelector_def)
  also have "\<dots> = (evm_erc20TransferSelector @ replicate 12 z) @ replicate 20 z @ replicate 32 z"
    by (simp add: replicate_split [of 64 12 20 32])
  also have "copy_at 16 (address_Bytes to) \<dots> = (evm_erc20TransferSelector @ replicate 12 z) @ address_Bytes to @ replicate 32 z"
    by (rule copy_at_append) (simp_all add: evm_erc20TransferSelector_def)
  also have "\<dots> = (evm_erc20TransferSelector @ replicate 12 z @ address_Bytes to) @ replicate 32 z @ []" by simp
  also have "copy_at 36 w \<dots> = (evm_erc20TransferSelector @ replicate 12 z @ address_Bytes to) @ w @ []"
    by (rule copy_at_append) (simp_all add: evm_erc20TransferSelector_def assms)
  finally show ?thesis by simp
qed

lemma BitLen_gt: "BitLen a > 256 \<longleftrightarrow> \<not> \<bar>a\<bar> < 2 ^ 256"
  using BitLen_le [of a 256] by linarith

lemma FillBytes_fits: "0 \<le> a \<Longrightarrow> a < 2 ^ 256 \<Longrightarrow> FillBytes 32 a = Some (be_bytes 32 (nat a))"
  by (simp add: FillBytes_def nat_less_iff)

lemma packERC20Transfer_eq:
  "packERC20Transfer to amount =
     (case amount of None \<Rightarrow> Inl ErrInvalidIntent
      | Some a \<Rightarrow> if 0 < a \<and> a < 2 ^ 256 then Inr (transfer_call to a) else Inl ErrInvalidIntent)"
proof (cases amount)
  case (Some a)
  consider "a \<le> 0" | "0 < a" "\<not> a < 2 ^ 256" | "0 < a" "a < 2 ^ 256" by linarith
  then show ?thesis
  proof cases
    case 3
    then have "FillBytes 32 a = Some (be_bytes 32 (nat a))" "\<not> BitLen a > evm_uint256Bits"
      by (simp_all only: FillBytes_fits evm_uint256Bits_def BitLen_gt abs_of_pos less_imp_le not_not)
    with 3 Some show ?thesis
      by (simp add: packERC20Transfer_def Let_def evm_calldataLen_def pack_layout transfer_call_def)
  next
    case 2
    then have "BitLen a > evm_uint256Bits" by (simp only: evm_uint256Bits_def BitLen_gt abs_of_pos)  simp
    with 2 Some show ?thesis by (simp add: packERC20Transfer_def)
  qed (simp add: packERC20Transfer_def Some)
qed (simp add: packERC20Transfer_def)

lemma transfer_call_data: "transfer_data (transfer_call to a)"
  by (simp add: transfer_data_def transfer_call_def selectors_agree) (simp add: erc20TransferSelector_def)

lemma transfer_call_amount: "0 \<le> a \<Longrightarrow> a < 2 ^ 256 \<Longrightarrow> SetBytes (drop 36 (transfer_call to a)) = a"
proof -
  assume "0 \<le> a" "a < 2 ^ 256"
  then have "nat a mod 256 ^ 32 = nat a" by (intro mod_less) (simp add: nat_less_iff)
  moreover have "drop 36 (transfer_call to a) = be_bytes 32 (nat a)"
    by (simp add: transfer_call_def evm_erc20TransferSelector_def)
  ultimately show ?thesis using \<open>0 \<le> a\<close> by (simp add: SetBytes_be_bytes)
qed

lemma transfer_call_recipient: "take 20 (drop 16 (transfer_call to a)) = address_Bytes to"
  by (simp add: transfer_call_def evm_erc20TransferSelector_def)

lemma transfer_call_nonempty [simp]: "transfer_call to a \<noteq> []"
  by (simp add: transfer_call_def evm_erc20TransferSelector_def)

subsection \<open>Pricing\<close>

lemma Mul64_fits: "fst (Mul64 x y) = 0 \<Longrightarrow> uint (snd (Mul64 x y)) = uint x * uint y"
proof -
  let ?p = "uint x * uint y"
  have b: "0 \<le> uint x" "uint x < 2 ^ 64" "0 \<le> uint y" "uint y < 2 ^ 64"
    using unsigned_less [of x, where 'a = int] unsigned_less [of y, where 'a = int] by simp_all
  have p: "0 \<le> ?p" "?p < 2 ^ 64 * 2 ^ 64"
    using b(1,3) by simp (rule mult_strict_mono [OF b(2,4) _ b(3)], simp)
  have d: "0 \<le> ?p div 2 ^ 64" "?p div 2 ^ 64 < 2 ^ 64"
    using p by (simp only: pos_imp_zdiv_nonneg_iff zero_less_power zero_less_numeral)
      (use p(2) in \<open>simp add: div_less_iff_less_mult\<close>)
  assume "fst (Mul64 x y) = 0"
  then have "uint (of_int (?p div 2 ^ 64) :: uint64) = 0" by (simp add: Mul64_def)
  then have "?p div 2 ^ 64 mod 2 ^ 64 = 0" by (simp add: uint_word_of_int)
  with d have "?p div 2 ^ 64 = 0" by simp
  with p have "?p < 2 ^ 64" by (simp add: div_eq_0_iff) 
  then show ?thesis using uint_mult_lem [of x y] by (simp add: Mul64_def)
qed


text \<open>What a call to the node leaves alone.\<close>

definition same_chain :: "'g chain \<Rightarrow> 'g chain \<Rightarrow> bool" where
  "same_chain c c' \<longleftrightarrow> ch_sent c' = ch_sent c \<and> ch_next c' = ch_next c \<and> ch_signer c' = ch_signer c"

lemma same_chain_refl [simp]: "same_chain c c"
  by (simp add: same_chain_def)

lemma call_same: "call f c = (r, c') \<Longrightarrow> same_chain c c'"
  by (auto simp: call_def same_chain_def)

definition priced :: "Config \<Rightarrow> uint64 \<Rightarrow> int \<Rightarrow> int \<Rightarrow> gasParams \<Rightarrow> bool" where
  "priced cfg estimate base tip gp \<longleftrightarrow>
     uint (gp_gas gp) = uint estimate * 125 div 100 \<and> gp_gas gp \<le> cf_gas_cap cfg \<and>
     gp_tip gp = tip \<and> gp_fee gp = 2 * base + tip \<and> gp_fee gp \<le> the (cf_fee_cap cfg)"

lemma buffered_gas:
  "Mul64 e gasLimitBufferPct = (0, lo) \<Longrightarrow> uint (lo div 100) = uint e * 125 div 100"
  using Mul64_fits [of e gasLimitBufferPct] by (simp add: uint_div gasLimitBufferPct_def)

lemma gasEstimate_run:
  assumes "gasEstimate R cfg msg c = (r, c')"
  shows "same_chain c c' \<and>
    (case r of
       Inl e \<Rightarrow> e \<in> {ErrGasEstimation, ErrGasCapExceeded, ErrFeeCapExceeded}
     | Inr gp \<Rightarrow> \<exists>estimate base tip. rpc_EstimateGas R (ch_calls c) msg = Inr estimate \<and>
         rpc_SuggestGasTipCap R (Suc (ch_calls c)) = Inr tip \<and>
         rpc_BaseFee R (Suc (Suc (ch_calls c))) = Inr (Some base) \<and>
         priced cfg estimate base tip gp)"
  using assms
  by (auto simp: gasEstimate_def call_def map_err_def chk_def same_chain_def Let_def priced_def
      baseFeeHeadroom_def not_less algebra_simps dest: buffered_gas
      split: sum.splits prod.splits if_splits option.splits)

subsection \<open>Nonces\<close>

lemma withNonce_run:
  assumes "withNonce R from fn c = (r, c')"
  obtains (unavailable) "r = Inl ErrNonceUnavailable" "same_chain c c'"
  | (ran) nonce c1 c2 where "same_chain c c1" "ch_next c from \<le> nonce" "fn nonce c1 = (r, c2)"
      "c' = (case r of Inl e \<Rightarrow> c2 | Inr x \<Rightarrow> c2\<lparr>ch_next := (ch_next c2)(from := nonce + 1)\<rparr>)"
proof -
  obtain p c1 where p: "call (\<lambda>n. rpc_PendingNonceAt R n from) c = (p, c1)" by (rule prod.exhaust)
  have same: "same_chain c c1" by (rule call_same [OF p])
  show thesis
  proof (cases p)
    case (Inl e)
    with assms p same show thesis by (intro unavailable) (auto simp: withNonce_def map_err_def)
  next
    case (Inr pending)
    define nonce where "nonce = (if ch_next c1 from > pending then ch_next c1 from else pending)"
    obtain r2 c2 where f: "fn nonce c1 = (r2, c2)" by (rule prod.exhaust)
    have w: "withNonce R from fn c = chk (fn nonce c1)
        (\<lambda>x c. (Inr x, c\<lparr>ch_next := (ch_next c)(from := nonce + 1)\<rparr>))"
      using p Inr by (simp add: withNonce_def map_err_def nonce_def Let_def)
    have "r2 = r \<and> c' = (case r of Inl e \<Rightarrow> c2 | Inr x \<Rightarrow> c2\<lparr>ch_next := (ch_next c2)(from := nonce + 1)\<rparr>)"
      using w assms f by (cases r2) auto
    moreover have "ch_next c from \<le> nonce"
      using same by (auto simp: nonce_def same_chain_def)
    ultimately show thesis using ran [OF same _ _ ] f by blast
  qed
qed


subsection \<open>What reaches the node\<close>

definition sign_request :: "Config \<Rightarrow> gasParams \<Rightarrow> bytes \<Rightarrow> uint64 \<Rightarrow> SignerRequest" where
  "sign_request cfg gp data nonce = \<lparr>eq_key = cf_key cfg, eq_chain = cf_chain cfg, eq_nonce = nonce,
     eq_gas = gp_gas gp, eq_to = cf_token cfg, eq_value = 0, eq_fee = gp_fee gp, eq_tip = gp_tip gp, eq_data = data\<rparr>"

lemma send_tx_run:
  assumes "send_tx R t c = (r, c')"
  shows "ch_next c' = ch_next c \<and> ch_signer c' = ch_signer c \<and>
    (r = Inr () \<and> ch_sent c' = ch_sent c @ [t] \<or>
     r = Inl ErrBroadcast \<and> (ch_sent c' = ch_sent c \<or> ch_sent c' = ch_sent c @ [t]))"
  using assms by (auto simp: send_tx_def call_def split: send.splits if_splits)

text \<open>How the critical section can end.\<close>

lemma sign_and_send_run:
  assumes "sign_and_send R L G sign cfg gp data nonce c = (r, c')"
  obtains (declined) "r = Inl ErrSignerRejected" "ch_sent c' = ch_sent c" "ch_next c' = ch_next c"
  | (undecodable) "r = Inl ErrBroadcast" "ch_sent c' = ch_sent c" "ch_next c' = ch_next c"
  | (sent) signed t where
      "sign (sign_request cfg gp data nonce) (ch_signer c) = (Inr signed, ch_signer c')"
      "sg_from signed = cf_from cfg" "UnmarshalBinary L (sg_raw signed) = Inr t"
      "ch_next c' = ch_next c" "ch_sent c' = ch_sent c @ [t]"
      "r = Inr (HashHex G (sg_hash signed)) \<or> r = Inl ErrBroadcast"
proof -
  obtain s g where s: "sign (sign_request cfg gp data nonce) (ch_signer c) = (s, g)" by (rule prod.exhaust)
  let ?c1 = "c\<lparr>ch_signer := g\<rparr>"
  have cs: "call_signer sign (sign_request cfg gp data nonce) c = (s, ?c1)" by (simp add: call_signer_def s)
  note run = assms [unfolded sign_and_send_def, folded sign_request_def, unfolded cs]
  show thesis
  proof (cases s)
    case (Inl e)
    with run show thesis by (intro declined) (auto simp: map_err_def)
  next
    case (Inr signed)
    show thesis
    proof (cases "sg_from signed = cf_from cfg")
      case False
      with run Inr show thesis by (intro declined) (auto simp: map_err_def)
    next
      case own: True
      show thesis
      proof (cases "UnmarshalBinary L (sg_raw signed)")
        case (Inl e)
        with run Inr own show thesis by (intro undecodable) (auto simp: map_err_def)
      next
        case t: (Inr t)
        obtain r2 c2 where st: "send_tx R t ?c1 = (r2, c2)" by (rule prod.exhaust)
        with run Inr own t have rc: "r = (case r2 of Inl e \<Rightarrow> Inl e | Inr _ \<Rightarrow> Inr (HashHex G (sg_hash signed)))" "c' = c2"
          by (cases r2; simp add: map_err_def)+
        from send_tx_run [OF st] show thesis
        proof (elim conjE disjE)
          assume "ch_next c2 = ch_next ?c1" "ch_signer c2 = ch_signer ?c1" "r2 = Inr ()" "ch_sent c2 = ch_sent ?c1 @ [t]"
          with s Inr own t rc show thesis by (intro sent [of signed t]) simp_all
        next
          assume "ch_next c2 = ch_next ?c1" "r2 = Inl ErrBroadcast" "ch_sent c2 = ch_sent ?c1"
          with rc show thesis by (intro undecodable) simp_all
        next
          assume "ch_next c2 = ch_next ?c1" "ch_signer c2 = ch_signer ?c1" "r2 = Inl ErrBroadcast" "ch_sent c2 = ch_sent ?c1 @ [t]"
          with s Inr own t rc show thesis by (intro sent [of signed t]) simp_all
        qed
      qed
    qed
  qed
qed

text \<open>How a submission can end: before anything is signed, or in the critical section.\<close>

definition sentinels :: "err set" where
  "sentinels = {ErrUnsupportedAsset, ErrInvalidIntent, ErrGasCapExceeded, ErrFeeCapExceeded,
     ErrGasEstimation, ErrNonceUnavailable, ErrSignerRejected, ErrBroadcast}"

lemma Submit_run:
  assumes "Submit R L G sign cfg intent c = (r, c')"
  obtains (rejected) e where "r = Inl e" "e \<in> sentinels" "same_chain c c'"
  | (ran) a gp estimate base tip m nonce c1 c2 where
      "pi_asset intent = ''USDC''" "IsHexAddress L (pi_to intent)" "HexToAddress L (pi_to intent) \<noteq> 0"
      "pi_amount intent = Some a" "0 < a" "a < 2 ^ 256"
      "rpc_SuggestGasTipCap R m = Inr tip" "rpc_BaseFee R (Suc m) = Inr (Some base)"
      "priced cfg estimate base tip gp" "same_chain c c1" "ch_next c (cf_from cfg) \<le> nonce"
      "sign_and_send R L G sign cfg gp (transfer_call (HexToAddress L (pi_to intent)) a) nonce c1 = (r, c2)"
      "c' = (case r of Inl e \<Rightarrow> c2 | Inr x \<Rightarrow> c2\<lparr>ch_next := (ch_next c2)(cf_from cfg := nonce + 1)\<rparr>)"
proof -
  let ?to = "HexToAddress L (pi_to intent)"
  let ?bad = "case pi_amount intent of None \<Rightarrow> True | Some a \<Rightarrow> a \<le> 0 \<or> BitLen a > evm_uint256Bits"
  show thesis
  proof (cases "pi_asset intent \<noteq> ''USDC'' \<or> \<not> IsHexAddress L (pi_to intent) \<or> ?to = 0 \<or> ?bad \<or>
      pi_key intent \<noteq> [] \<and> pi_key intent \<noteq> cf_key cfg")
    case True
    then have "Submit R L G sign cfg intent c =
        (Inl (if pi_asset intent \<noteq> ''USDC'' then ErrUnsupportedAsset else ErrInvalidIntent), c)"
      unfolding Submit_def Let_def by (elim disjE conjE; simp)
    with assms show thesis
      by (intro rejected [of "if pi_asset intent \<noteq> ''USDC'' then ErrUnsupportedAsset else ErrInvalidIntent"])
        (simp_all add: sentinels_def)
  next
    case False
    then have "\<not> ?bad" by blast
    then obtain a where am: "pi_amount intent = Some a" and pos: "0 < a" and len: "\<not> BitLen a > 256"
      by (cases "pi_amount intent") (simp_all add: evm_uint256Bits_def)
    have lt: "a < 2 ^ 256" using len pos unfolding BitLen_gt by linarith
    note a = am pos lt
    let ?msg = "\<lparr>cm_from = cf_from cfg, cm_to = cf_token cfg, cm_value = Some 0, cm_data = transfer_call ?to a\<rparr>"
    have sub: "Submit R L G sign cfg intent c =
        chk (gasEstimate R cfg ?msg c) (\<lambda>gp c. withNonce R (cf_from cfg) (sign_and_send R L G sign cfg gp (transfer_call ?to a)) c)"
      using False pos lt by (simp add: Submit_def Let_def packERC20Transfer_eq am) blast
    obtain p c0 where ge: "gasEstimate R cfg ?msg c = (p, c0)" by (rule prod.exhaust)
    note priced = gasEstimate_run [OF ge]
    show thesis
    proof (cases p)
      case (Inl e)
      with assms sub ge priced show thesis by (intro rejected [of e]) (auto simp: sentinels_def)
    next
      case (Inr gp)
      then obtain estimate base tip where gp: "rpc_SuggestGasTipCap R (Suc (ch_calls c)) = Inr tip"
          "rpc_BaseFee R (Suc (Suc (ch_calls c))) = Inr (Some base)" "priced cfg estimate base tip gp"
          and same0: "same_chain c c0"
        using priced by auto
      have "withNonce R (cf_from cfg) (sign_and_send R L G sign cfg gp (transfer_call ?to a)) c0 = (r, c')"
        using assms sub ge Inr by simp
      then show thesis
      proof (cases rule: withNonce_run)
        case unavailable
        with same0 show thesis by (intro rejected [of ErrNonceUnavailable]) (auto simp: sentinels_def same_chain_def)
      next
        case (ran nonce c1 c2)
        with same0 have "same_chain c c1" "ch_next c (cf_from cfg) \<le> nonce" by (simp_all add: same_chain_def)
        moreover have "pi_asset intent = ''USDC''" "IsHexAddress L (pi_to intent)" "?to \<noteq> 0" using False by simp_all
        ultimately show thesis by (intro that(2) [OF _ _ _ a gp _ _ ran(3,4)])
      qed
    qed
  qed
qed


subsection \<open>Adapter, client and signer together\<close>

definition signer_tx :: "SignerRequest \<Rightarrow> DynamicFeeTx" where
  "signer_tx r = \<lparr>tx_chain = uint (eq_chain r), tx_nonce = eq_nonce r, tx_tip = eq_tip r, tx_fee = eq_fee r,
     tx_gas = eq_gas r, tx_to = eq_to r, tx_value = eq_value r, tx_data = eq_data r\<rparr>"

lemma request_tx_encoded:
  assumes "address_laws L" "0 \<le> eq_value r" "0 \<le> eq_fee r" "0 \<le> eq_tip r"
  shows "request_tx (decoded L (encode_request r)) = signer_tx r"
  using assms by (simp add: request_tx_def decoded_def encode_request_def signer_tx_def address_laws_def)

lemma signerClient_Inr:
  assumes laws: "address_laws L" and run: "signerClient_Sign L N r (n, kr) = (Inr s, g)"
    and nonneg: "0 \<le> eq_value r" "0 \<le> eq_fee r" "0 \<le> eq_tip r"
  obtains key sig raw where
    "map_of kr (eq_key r) = Some key" "eq_chain r = ke_chain key" "well_formed (decoded L (encode_request r))"
    "MarshalBinary L (with_sig (signer_tx r) sig) = Inr raw"
    "s = \<lparr>sg_raw = raw, sg_hash = BytesToHash L (tx_Hash L (with_sig (signer_tx r) sig)), sg_from = ke_address key\<rparr>"
    "g = (Suc n, charged (decoded L (encode_request r)) key kr)"
proof -
  obtain a kr' where st: "SignTransaction L (net_ctx N n) (encode_request r) kr = (Inr a, kr')"
      and s: "s = \<lparr>sg_raw = rs_raw a, sg_hash = BytesToHash L (rs_hash a), sg_from = HexToAddress L (rs_from a)\<rparr>"
      and g: "g = (Suc n, kr')"
    using run by (auto simp: signerClient_Sign_def split: if_splits prod.splits sum.splits)
  from st obtain s0 where s0: "Sign L (net_ctx N n) (decoded L (encode_request r)) kr = (Inr s0, kr')"
      "a = \<lparr>rs_raw = sg_raw s0, rs_hash = sg_hash s0, rs_from = AddressHex L (sg_from s0)\<rparr>"
    by (auto simp: SignTransaction_Inr)
  from s0(1) obtain key where key: "map_of kr (eq_key r) = Some key" "eq_chain r = ke_chain key"
      "well_formed (decoded L (encode_request r))" "signTx L key (decoded L (encode_request r)) = Inr s0"
      "kr' = charged (decoded L (encode_request r)) key kr"
    unfolding Sign_Inr by (auto simp: encode_request_def)
  from key(4) obtain sig raw where "MarshalBinary L (with_sig (signer_tx r) sig) = Inr raw"
      "s0 = \<lparr>sg_raw = raw, sg_hash = tx_Hash L (with_sig (signer_tx r) sig), sg_from = ke_address key\<rparr>"
    unfolding signTx_ok request_tx_encoded [OF laws nonneg] by blast
  moreover have "HexToAddress L (AddressHex L (ke_address key)) = ke_address key"
    using laws by (simp add: address_laws_def)
  ultimately show thesis using that [OF key(1,2,3)] s s0(2) g key(5) by simp
qed

text \<open>The transaction an intent asks for, within the limits of the adapter's configuration.\<close>

definition pays :: "Config \<Rightarrow> address \<Rightarrow> int \<Rightarrow> Transaction \<Rightarrow> bool" where
  "pays cfg to a t \<longleftrightarrow> tx_chain t = uint (cf_chain cfg) \<and> tx_to t = cf_token cfg \<and> tx_value t = 0 \<and>
     tx_data t = transfer_call to a \<and> tx_gas t \<le> cf_gas_cap cfg \<and>
     tx_fee t \<le> the (cf_fee_cap cfg) \<and> 0 \<le> tx_tip t \<and> tx_tip t \<le> tx_fee t"

text \<open>What the RPC encoding of quantities guarantees: fees are not negative.\<close>

definition fees_nonneg :: "ethRPC \<Rightarrow> bool" where
  "fees_nonneg R \<longleftrightarrow> (\<forall>n x. rpc_SuggestGasTipCap R n = Inr x \<longrightarrow> 0 \<le> x) \<and>
     (\<forall>n x. rpc_BaseFee R n = Inr (Some x) \<longrightarrow> 0 \<le> x)"

lemma with_sig_simps [simp]:
  "tx_chain (with_sig t s) = tx_chain t" "tx_nonce (with_sig t s) = tx_nonce t" "tx_tip (with_sig t s) = tx_tip t"
  "tx_fee (with_sig t s) = tx_fee t" "tx_gas (with_sig t s) = tx_gas t" "tx_to (with_sig t s) = tx_to t"
  "tx_value (with_sig t s) = tx_value t" "tx_data (with_sig t s) = tx_data t"
  by (simp_all add: with_sig_def DynamicFeeTx.extend_def)

text \<open>
  A submission through the client and the signer: nothing reaches the node, or exactly one
  transaction does, which is the one the intent asks for, signed with the configured key for the
  amount that is charged to it.
\<close>

definition one_transfer :: "gethtx \<Rightarrow> geth \<Rightarrow> Config \<Rightarrow> PaymentIntent \<Rightarrow> string result \<Rightarrow>
    (nat \<times> Keyring) chain \<Rightarrow> (nat \<times> Keyring) chain \<Rightarrow> bool" where
  "one_transfer L G cfg intent r c c' \<longleftrightarrow>
     (\<exists>t a key. ch_sent c' = ch_sent c @ [t] \<and> pi_asset intent = ''USDC'' \<and> pi_amount intent = Some a \<and> 0 < a \<and>
        pays cfg (HexToAddress L (pi_to intent)) a t \<and> ch_next c (cf_from cfg) \<le> tx_nonce t \<and>
        map_of (snd (ch_signer c)) (cf_key cfg) = Some key \<and> ke_address key = cf_from cfg \<and>
        ke_chain key = cf_chain cfg \<and>
        map_of (snd (ch_signer c')) (cf_key cfg) =
          Some (key\<lparr>ke_bucket := (ke_bucket key)\<lparr>bk_spent := bk_spent (ke_bucket key) + a\<rparr>\<rparr>) \<and>
        (r = Inl ErrBroadcast \<and> ch_next c' = ch_next c \<or>
         r = Inr (HashHex G (tx_Hash L t)) \<and> ch_next c' = (ch_next c)(cf_from cfg := tx_nonce t + 1)))"

lemma Submit_one_transfer:
  assumes laws: "address_laws L" "codec_law L" "hash_law L" and fees: "fees_nonneg R"
    and run: "Submit R L G (signerClient_Sign L N) cfg intent c = (r, c')"
  shows "(\<exists>e. r = Inl e) \<and> ch_sent c' = ch_sent c \<and> ch_next c' = ch_next c \<or> one_transfer L G cfg intent r c c'"
  using run
proof (cases rule: Submit_run)
  case (rejected e)
  then show ?thesis by (simp add: same_chain_def)
next
  case (ran a gp estimate base tip m nonce c1 c2)
  let ?to = "HexToAddress L (pi_to intent)"
  let ?rq = "sign_request cfg gp (transfer_call ?to a) nonce"
  have fee: "0 \<le> tip" "0 \<le> base" using fees ran(7,8) by (auto simp: fees_nonneg_def)
  then have gp: "0 \<le> gp_tip gp" "gp_tip gp \<le> gp_fee gp" "gp_fee gp \<le> the (cf_fee_cap cfg)"
      "gp_gas gp \<le> cf_gas_cap cfg"
    using ran(9) by (auto simp: priced_def)
  from ran(12) show ?thesis
  proof (cases rule: sign_and_send_run)
    case (sent signed t)
    obtain n kr where g: "ch_signer c1 = (n, kr)" by (rule prod.exhaust)
    have nn: "0 \<le> eq_value ?rq" "0 \<le> eq_fee ?rq" "0 \<le> eq_tip ?rq"
      using gp by (simp_all add: sign_request_def)
    obtain key sig raw where key: "map_of kr (eq_key ?rq) = Some key" "eq_chain ?rq = ke_chain key"
        "MarshalBinary L (with_sig (signer_tx ?rq) sig) = Inr raw"
        "signed = \<lparr>sg_raw = raw, sg_hash = BytesToHash L (tx_Hash L (with_sig (signer_tx ?rq) sig)), sg_from = ke_address key\<rparr>"
        "ch_signer c2 = (Suc n, charged (decoded L (encode_request ?rq)) key kr)"
      by (rule signerClient_Inr [OF laws(1) sent(1) [unfolded g] nn])
    have t: "t = with_sig (signer_tx ?rq) sig"
      using sent(3) key(3,4) laws(2) by (simp add: codec_law_def)
    have h: "sg_hash signed = tx_Hash L t" using key(4) t laws(3) by (simp add: hash_law_def)
    have am: "wire_amount (encode_request ?rq) = a"
      using transfer_call_amount [of a ?to] ran(5,6)
      by (simp add: wire_amount_def encode_request_def sign_request_def)
    have p: "pays cfg ?to a t" using gp t by (simp add: pays_def signer_tx_def sign_request_def)
    have c1: "ch_sent c1 = ch_sent c" "ch_next c1 = ch_next c" "ch_signer c1 = ch_signer c"
      using ran(10) by (simp_all add: same_chain_def)
    have "one_transfer L G cfg intent r c c'"
      unfolding one_transfer_def
    proof (intro exI [of _ t] exI [of _ a] exI [of _ key] conjI)
      show "ch_sent c' = ch_sent c @ [t]" using ran(13) sent(5) c1 by (cases r) simp_all
      show "ch_next c (cf_from cfg) \<le> tx_nonce t" using ran(11) t by (simp add: signer_tx_def sign_request_def)
      show "map_of (snd (ch_signer c)) (cf_key cfg) = Some key" using key(1) g c1(3) by (simp add: sign_request_def)
      show "ke_address key = cf_from cfg" using sent(2) key(4) by simp
      show "ke_chain key = cf_chain cfg" using key(2) by (simp add: sign_request_def)
      have "ch_signer c' = ch_signer c2" using ran(13) by (cases r) simp_all
      then show "map_of (snd (ch_signer c')) (cf_key cfg) =
          Some (key\<lparr>ke_bucket := (ke_bucket key)\<lparr>bk_spent := bk_spent (ke_bucket key) + a\<rparr>\<rparr>)"
        using key(5) am by (simp add: charged_map_of) (simp add: encode_request_def sign_request_def)
      have "tx_nonce t = nonce" using t by (simp add: signer_tx_def sign_request_def)
      then show "r = Inl ErrBroadcast \<and> ch_next c' = ch_next c \<or>
         r = Inr (HashHex G (tx_Hash L t)) \<and> ch_next c' = (ch_next c)(cf_from cfg := tx_nonce t + 1)"
        using sent(4,6) ran(13) c1 h by auto
    qed (use ran(1,4,5) p in simp_all)
    then show ?thesis by blast
  qed (use ran(10,13) in \<open>simp_all add: same_chain_def\<close>)
qed


subsection \<open>Successive submissions\<close>

text \<open>A sequence of submissions through one adapter, with the transactions of those that succeed.\<close>

fun submit_all :: "ethRPC \<Rightarrow> gethtx \<Rightarrow> geth \<Rightarrow> 'g signer \<Rightarrow> Config \<Rightarrow> PaymentIntent list \<Rightarrow> 'g chain
    \<Rightarrow> Transaction list \<times> 'g chain" where
  "submit_all R L G sign cfg [] c = ([], c)"
| "submit_all R L G sign cfg (i # is) c =
     (case Submit R L G sign cfg i c of
        (Inl e, c') \<Rightarrow> submit_all R L G sign cfg is c'
      | (Inr h, c') \<Rightarrow> (case submit_all R L G sign cfg is c' of (ts, c'') \<Rightarrow> (last (ch_sent c') # ts, c'')))"

lemma word_less_Suc: "x \<noteq> - 1 \<Longrightarrow> x < x + 1" for x :: "'a::len word"
proof -
  assume "x \<noteq> - 1"
  then have "x + 1 \<noteq> 0" by (metis add_eq_0_iff2)
  then have "unat (x + 1) = unat x + 1" by (simp add: add.commute unatSuc)
  then show ?thesis by (simp add: word_less_nat_alt)
qed

lemma submit_all_nonces:
  assumes laws: "address_laws L" "codec_law L" "hash_law L" "fees_nonneg R"
    and "submit_all R L G (signerClient_Sign L N) cfg is c = (ts, c')" "\<forall>t \<in> set ts. tx_nonce t \<noteq> - 1"
  shows "sorted_wrt (<) (map tx_nonce ts) \<and> (\<forall>t \<in> set ts. ch_next c (cf_from cfg) \<le> tx_nonce t)"
  using assms(5,6)
proof (induction "is" arbitrary: c ts)
  case (Cons i "is")
  obtain r c1 where sub: "Submit R L G (signerClient_Sign L N) cfg i c = (r, c1)" by (rule prod.exhaust)
  note one = Submit_one_transfer [OF laws sub]
  show ?case
  proof (cases r)
    case (Inl e)
    with one have "ch_next c1 = ch_next c" by (auto simp: one_transfer_def)
    have "submit_all R L G (signerClient_Sign L N) cfg is c1 = (ts, c')"
      using Cons.prems(1) sub Inl by simp
    from Cons.IH [OF this Cons.prems(2)] \<open>ch_next c1 = ch_next c\<close> show ?thesis by simp
  next
    case (Inr h)
    with one obtain t where t: "last (ch_sent c1) = t" "ch_next c (cf_from cfg) \<le> tx_nonce t"
        "ch_next c1 (cf_from cfg) = tx_nonce t + 1"
      by (auto simp: one_transfer_def)
    obtain ts1 where ts: "submit_all R L G (signerClient_Sign L N) cfg is c1 = (ts1, c')" "ts = t # ts1"
      using Cons.prems(1) sub Inr t(1) by (auto split: prod.splits)
    have IH: "sorted_wrt (<) (map tx_nonce ts1)" "\<forall>u \<in> set ts1. tx_nonce t + 1 \<le> tx_nonce u"
      using Cons.IH [OF ts(1)] Cons.prems(2) ts(2) t(3) by simp_all
    have "tx_nonce t \<noteq> - 1" using Cons.prems(2) ts(2) by simp
    then have "tx_nonce t < tx_nonce t + 1" by (rule word_less_Suc)
    with IH t(2) ts(2) show ?thesis by (auto intro: order_trans less_imp_le order_less_le_trans)
  qed
qed simp


subsection \<open>Properties\<close>

text \<open>
  C12. A submission through the adapter, the gRPC client and the signer, whatever the node and the
  network do, puts nothing on the chain (and then reports an error) or exactly one transaction: a
  call of the configured token on the configured chain, without value, whose calldata transfers
  exactly the intent's amount to the intent's recipient, with gas and fees within the caps, signed by
  the configured sender's key, whose budget is charged exactly that amount. Success is reported only
  for a transaction the node has, and with its hash.\<close>

theorem Submit_transfers:
  assumes "address_laws L" "codec_law L" "hash_law L" "fees_nonneg R"
    and "Submit R L G (signerClient_Sign L N) cfg intent c = (r, c')"
  shows "(\<exists>e. r = Inl e) \<and> ch_sent c' = ch_sent c \<and> ch_next c' = ch_next c \<or> one_transfer L G cfg intent r c c'"
  by (rule Submit_one_transfer [OF assms])

text \<open>
  Over any sequence of submissions through one adapter, whatever the node answers, the
  transactions of the successful ones have strictly increasing nonces, none below the high-water mark
  the adapter started with, as long as none of them is the last 64-bit number.\<close>

theorem nonces_increase:
  assumes "address_laws L" "codec_law L" "hash_law L" "fees_nonneg R"
    and "submit_all R L G (signerClient_Sign L N) cfg is c = (ts, c')" "\<forall>t \<in> set ts. tx_nonce t \<noteq> - 1"
  shows "sorted_wrt (<) (map tx_nonce ts) \<and> (\<forall>t \<in> set ts. ch_next c (cf_from cfg) \<le> tx_nonce t)"
  by (rule submit_all_nonces [OF assms])

text \<open>
  Pricing: the gas limit is the node's estimate plus 25 percent computed without wrap-around,
  however large the estimate, and within the cap; the fee is twice the base fee plus the tip, within
  its cap, and never below the tip.\<close>

theorem gasEstimate_bounds:
  assumes "gasEstimate R cfg msg c = (Inr gp, c')" "fees_nonneg R"
  shows "\<exists>estimate. rpc_EstimateGas R (ch_calls c) msg = Inr estimate \<and>
    uint (gp_gas gp) = uint estimate * 125 div 100 \<and> gp_gas gp \<le> cf_gas_cap cfg \<and>
    0 \<le> gp_tip gp \<and> gp_tip gp \<le> gp_fee gp \<and> gp_fee gp \<le> the (cf_fee_cap cfg)"
proof -
  obtain estimate base tip where *: "rpc_EstimateGas R (ch_calls c) msg = Inr estimate"
      "rpc_SuggestGasTipCap R (Suc (ch_calls c)) = Inr tip"
      "rpc_BaseFee R (Suc (Suc (ch_calls c))) = Inr (Some base)" "priced cfg estimate base tip gp"
    using gasEstimate_run [OF assms(1)] by auto
  then have "0 \<le> tip" "0 \<le> base" using assms(2) by (auto simp: fees_nonneg_def)
  with * show ?thesis by (intro exI [of _ estimate]) (auto simp: priced_def)
qed

text \<open>
  The calldata the adapter packs is 68 bytes long, is accepted by the signer's allowlist, and
  decodes to exactly the recipient and the amount it was packed from; packing succeeds exactly for
  amounts between 1 and 2^256 - 1.\<close>

theorem calldata_roundtrip:
  "packERC20Transfer to (Some a) =
     (if 0 < a \<and> a < 2 ^ 256 then Inr (transfer_call to a) else Inl ErrInvalidIntent) \<and>
   length (transfer_call to a) = 68 \<and>
   SetBytes (take 20 (drop 16 (transfer_call to a))) = uint to \<and>
   chargedAmount 0 (transfer_call to a) = Inr (if 0 < a \<and> a < 2 ^ 256 then a else SetBytes (drop 36 (transfer_call to a)))"
  using transfer_call_data [of to a]
  by (auto simp: packERC20Transfer_eq transfer_call_recipient SetBytes_address chargedAmount_ok
      transfer_call_amount transfer_data_def)

text \<open>
  Every error of a submission is one of the eight sentinels, so that the logged outcome is never
  the catch-all label; and a failed submission leaves the nonce high-water marks alone, whatever the
  signer and the node do.\<close>

theorem Submit_errors:
  assumes "Submit R L G sign cfg intent c = (Inl e, c')"
  shows "e \<in> sentinels \<and> submitOutcome (Some e) \<noteq> ''error'' \<and> ch_next c' = ch_next c"
proof -
  have "e \<in> sentinels \<and> ch_next c' = ch_next c"
    using assms
  proof (cases rule: Submit_run)
    case (ran a gp estimate base tip m nonce c1 c2)
    from ran(12) show ?thesis
      by (cases rule: sign_and_send_run) (use ran(10,13) in \<open>auto simp: sentinels_def same_chain_def\<close>)
  qed (auto simp: same_chain_def)
  then show ?thesis by (auto simp: sentinels_def submitOutcome_def)
qed

subsection \<open>Instances\<close>

definition usdc_transfer :: Transaction where
  "usdc_transfer = \<lparr>tx_chain = 5, tx_nonce = 7, tx_tip = 1, tx_fee = 21, tx_gas = 50000, tx_to = 9, tx_value = 0,
     tx_data = transfer_call 3 50, tx_sig = ''priv''\<rparr>"

definition rpc0 :: "send \<Rightarrow> ethRPC" where
  "rpc0 snt = \<lparr>rpc_ChainID = (\<lambda>n. Inr (Some 5)), rpc_PendingNonceAt = (\<lambda>n a. Inr 7), rpc_BaseFee = (\<lambda>n. Inr (Some 10)),
     rpc_SuggestGasTipCap = (\<lambda>n. Inr 1), rpc_EstimateGas = (\<lambda>n m. Inr 40000),
     rpc_SendTransaction = (\<lambda>n t. snt), rpc_CallContract = (\<lambda>n m. Inr (be_bytes 32 1000))\<rparr>"

definition cfg0 :: Config where
  "cfg0 = \<lparr>cf_key = ''k'', cf_chain = 5, cf_from = 4, cf_token = 9, cf_gas_cap = 300000, cf_fee_cap = Some 1000\<rparr>"

definition intent0 :: PaymentIntent where
  "intent0 = \<lparr>pi_key = ''k'', pi_asset = ''USDC'', pi_to = ''abc'', pi_amount = Some 50\<rparr>"

definition grpc0 :: grpc where
  "grpc0 = \<lparr>net_fate = (\<lambda>n. Delivered), net_ctx = (\<lambda>n. None)\<rparr>"

definition chain0 :: "(nat \<times> Keyring) chain" where
  "chain0 = \<lparr>ch_calls = 0, ch_sent = [], ch_next = newNonceAllocator, ch_signer = (0, kr0)\<rparr>"

definition geth1 :: geth where
  "geth1 = \<lparr>HexToHash = (\<lambda>s. s), HashHex = (\<lambda>h. ''0x'')\<rparr>"

abbreviation submit0 :: "send \<Rightarrow> string result \<times> (nat \<times> Keyring) chain" where
  "submit0 snt \<equiv> Submit (rpc0 snt) (lib0 usdc_transfer) geth1 (signerClient_Sign (lib0 usdc_transfer) grpc0) cfg0 intent0 chain0"

lemma rpc0_fees: "fees_nonneg (rpc0 snt)"
  by (simp add: fees_nonneg_def rpc0_def)

lemma submit0_ok: "fst (submit0 SendOk) = Inr ''0x''" "ch_sent (snd (submit0 SendOk)) = [usdc_transfer]"
  by code_simp+

lemma submit_all0:
  "fst (submit_all (rpc0 SendOk) (lib0 usdc_transfer) geth1 (signerClient_Sign (lib0 usdc_transfer) grpc0) cfg0
     [intent0, intent0] chain0) = [usdc_transfer]"
  by code_simp

lemma gas0: "fst (gasEstimate (rpc0 SendOk) cfg0 \<lparr>cm_from = 4, cm_to = 9, cm_value = Some 0, cm_data = []\<rparr> chain0) =
    Inr \<lparr>gp_gas = 50000, gp_fee = 21, gp_tip = 1\<rparr>"
  by code_simp

lemma submit0_lost: "fst (submit0 (SendErr True)) = Inl ErrBroadcast"
  by code_simp

theorem Submit_transfers_witness:
  "one_transfer (lib0 usdc_transfer) geth1 cfg0 intent0 (fst (submit0 SendOk)) chain0 (snd (submit0 SendOk))"
proof -
  have "submit0 SendOk = (fst (submit0 SendOk), snd (submit0 SendOk))" by simp
  from Submit_transfers [OF lib0_laws rpc0_fees this] submit0_ok show ?thesis by (simp only: sum.distinct simp_thms)
qed

theorem nonces_increase_witness:
  "sorted_wrt (<) (map tx_nonce (fst (submit_all (rpc0 SendOk) (lib0 usdc_transfer) geth1
     (signerClient_Sign (lib0 usdc_transfer) grpc0) cfg0 [intent0, intent0] chain0)))"
  by (rule nonces_increase [OF lib0_laws rpc0_fees prod.collapse [symmetric], THEN conjunct1])
    (unfold submit_all0, simp add: usdc_transfer_def)

theorem gasEstimate_bounds_witness:
  "\<exists>estimate. rpc_EstimateGas (rpc0 SendOk) (ch_calls chain0) \<lparr>cm_from = 4, cm_to = 9, cm_value = Some 0, cm_data = []\<rparr> =
     Inr estimate \<and> 50000 = uint estimate * 125 div 100"
proof -
  have "gasEstimate (rpc0 SendOk) cfg0 \<lparr>cm_from = 4, cm_to = 9, cm_value = Some 0, cm_data = []\<rparr> chain0 =
      (Inr \<lparr>gp_gas = 50000, gp_fee = 21, gp_tip = 1\<rparr>,
       snd (gasEstimate (rpc0 SendOk) cfg0 \<lparr>cm_from = 4, cm_to = 9, cm_value = Some 0, cm_data = []\<rparr> chain0))"
    by (simp add: prod_eq_iff gas0)
  from gasEstimate_bounds [OF this rpc0_fees] show ?thesis by auto
qed

theorem Submit_errors_witness:
  "ErrBroadcast \<in> sentinels \<and> ch_next (snd (submit0 (SendErr True))) = ch_next chain0"
proof -
  have "submit0 (SendErr True) = (Inl ErrBroadcast, snd (submit0 (SendErr True)))"
    by (simp add: prod_eq_iff submit0_lost)
  from Submit_errors [OF this] show ?thesis by blast
qed

end
