(* ===== verification/Watcher.thy ===== *)
theory Watcher
  imports Database Geth
begin

section \<open>The chain watcher\<close>

text \<open>
  \<open>internal/chain/evm/watcher.go\<close>: the watcher polls a node for the transactions it tracks and
  reports each change of a transaction's position. One pass of the poll is a function of the
  watcher's state, of the order in which Go happens to range over its map, and of what the node
  answers (\<open>chain_view\<close>). The lemmas show that a pass reports exactly the changes it makes, that
  Confirmed, Finalized and Reorged are reported only on the evidence they claim, that a failed
  query changes nothing, and that a canonical transaction is confirmed and then finalized.
\<close>

subsection \<open>What the watcher sees and says\<close>

type_synonym txhash = string

datatype Phase = PhasePending | PhaseMined | PhaseConfirmed | PhaseReorged | PhaseFinalized

record Status =
  s_tx :: txhash
  s_phase :: Phase
  s_block_hash :: string
  s_block_number :: uint64
  s_depth :: uint64

record tracked =
  t_phase :: Phase
  t_block_hash :: hash
  t_block_number :: uint64
  t_last_phase :: Phase
  t_last_depth :: uint64

record Receipt =
  r_block_hash :: hash
  r_block_number :: uint64

text \<open>
  The node's answers during one pass: the head, the receipt of a transaction and, for each tracked
  transaction, the hash of the canonical header at a height. \<open>Inl NotFound\<close> is
  \<open>ethereum.NotFound\<close>, any other \<open>Inl\<close> a transport fault, \<open>Inr None\<close> a nil result without error.
\<close>

record chain_view =
  v_head :: "uint64 result"
  v_receipt :: "hash \<Rightarrow> Receipt option result"
  v_header :: "hash \<Rightarrow> uint64 \<Rightarrow> hash option result"

definition zero_hash :: hash where
  "zero_hash = replicate 32 (CHR 0x00)"

record Watcher =
  wt_depth :: uint64
  wt_finality :: uint64
  wt_tracked :: "txhash \<rightharpoonup> tracked"

subsection \<open>Registration\<close>

definition is_hex_digit :: "char \<Rightarrow> bool" where
  "is_hex_digit c \<longleftrightarrow> c \<in> set ''0123456789abcdefABCDEF''"

definition isHexTxHash :: "string \<Rightarrow> bool" where
  "isHexTxHash s \<longleftrightarrow> length s = 66 \<and> s ! 0 = CHR ''0'' \<and> (s ! 1 = CHR ''x'' \<or> s ! 1 = CHR ''X'')
     \<and> list_all is_hex_digit (drop 2 s)"

definition NewWatcher :: "uint64 \<Rightarrow> uint64 \<Rightarrow> int \<Rightarrow> Watcher result" where
  "NewWatcher depth finalityDepth interval =
     (if depth = 0 then Inl (OpError ''depth'')
      else if finalityDepth \<le> depth then Inl (OpError ''finality depth'')
      else if interval \<le> 0 then Inl (OpError ''interval'')
      else Inr \<lparr>wt_depth = depth, wt_finality = finalityDepth, wt_tracked = Map.empty\<rparr>)"

definition fresh_track :: tracked where
  "fresh_track = \<lparr>t_phase = PhasePending, t_block_hash = zero_hash, t_block_number = 0,
                  t_last_phase = PhasePending, t_last_depth = 0\<rparr>"

definition Track :: "txhash \<Rightarrow> Watcher \<Rightarrow> unit result \<times> Watcher" where
  "Track tx W =
     (if \<not> isHexTxHash tx then (Inl ErrInvalidIntent, W)
      else if tx \<in> dom (wt_tracked W) then (Inr (), W)
      else (Inr (), W\<lparr>wt_tracked := (wt_tracked W)(tx \<mapsto> fresh_track)\<rparr>))"

definition Resume :: "geth \<Rightarrow> txhash \<Rightarrow> string \<Rightarrow> uint64 \<Rightarrow> Watcher \<Rightarrow> unit result \<times> Watcher" where
  "Resume G tx blockHash blockNumber W =
     (if \<not> isHexTxHash tx then (Inl ErrInvalidIntent, W)
      else if \<not> isHexTxHash blockHash then (Inl ErrInvalidIntent, W)
      else if tx \<in> dom (wt_tracked W) then (Inr (), W)
      else (Inr (), W\<lparr>wt_tracked := (wt_tracked W)(tx \<mapsto>
              \<lparr>t_phase = PhaseConfirmed, t_block_hash = HexToHash G blockHash,
               t_block_number = blockNumber, t_last_phase = PhaseConfirmed,
               t_last_depth = wt_depth W\<rparr>)\<rparr>))"

subsection \<open>One pass\<close>

definition confirmations :: "uint64 \<Rightarrow> uint64 \<Rightarrow> uint64" where
  "confirmations head mined = (if head < mined then 0 else head - mined + 1)"

text \<open>\<open>emit\<close> and \<open>reverse\<close> change one tracked entry and return what they append to the output.\<close>

definition emit :: "geth \<Rightarrow> tracked \<Rightarrow> txhash \<Rightarrow> Phase \<Rightarrow> hash \<Rightarrow> uint64 \<Rightarrow> uint64 \<Rightarrow> tracked \<times> Status list" where
  "emit G t tx phase bHash bNum depth =
     (if phase = t_last_phase t \<and> depth \<le> t_last_depth t then (t, [])
      else (t\<lparr>t_last_phase := phase, t_last_depth := depth\<rparr>,
            [\<lparr>s_tx = tx, s_phase = phase, s_block_hash = (if bNum \<noteq> 0 then HashHex G bHash else []),
              s_block_number = bNum, s_depth = depth\<rparr>]))"

definition reverse :: "geth \<Rightarrow> tracked \<Rightarrow> txhash \<Rightarrow> hash \<Rightarrow> uint64 \<Rightarrow> tracked \<times> Status list" where
  "reverse G t tx bHash bNum =
     (let (t, out) = emit G t tx PhaseReorged bHash bNum 0
      in (t\<lparr>t_phase := PhasePending, t_block_hash := zero_hash, t_block_number := 0\<rparr>, out))"

text \<open>
  The body of the loop for one transaction: the entry it leaves (\<open>None\<close> when it is evicted) and the
  statuses it emits.
\<close>

definition poll_pending :: "geth \<Rightarrow> Watcher \<Rightarrow> uint64 \<Rightarrow> chain_view \<Rightarrow> txhash \<Rightarrow> tracked \<Rightarrow> tracked option \<times> Status list" where
  "poll_pending G W head v tx t =
     (case v_receipt v (HexToHash G tx) of
        Inl e \<Rightarrow> (Some t, [])
      | Inr None \<Rightarrow> (Some t, [])
      | Inr (Some r) \<Rightarrow>
          (let h = r_block_number r;
               depth = (if confirmations head h = 0 then 1 else confirmations head h);
               t = t\<lparr>t_block_hash := r_block_hash r, t_block_number := h\<rparr>
           in if wt_depth W \<le> depth
              then apfst Some (emit G (t\<lparr>t_phase := PhaseConfirmed\<rparr>) tx PhaseConfirmed (r_block_hash r) h depth)
              else apfst Some (emit G (t\<lparr>t_phase := PhaseMined\<rparr>) tx PhaseMined (r_block_hash r) h depth)))"

text \<open>
  The checks that the mined and the confirmed case share: the receipt, then the canonical header at
  the recorded height; \<open>k\<close> is what follows when the anchor still is canonical.
\<close>

definition verify_anchor ::
  "geth \<Rightarrow> chain_view \<Rightarrow> txhash \<Rightarrow> tracked \<Rightarrow> (tracked option \<times> Status list) \<Rightarrow> tracked option \<times> Status list" where
  "verify_anchor G v tx t k =
     (case v_receipt v (HexToHash G tx) of
        Inl e \<Rightarrow> if errorsIs e NotFound
                 then apfst Some (reverse G t tx (t_block_hash t) (t_block_number t)) else (Some t, [])
      | Inr None \<Rightarrow> (Some t, [])
      | Inr (Some r) \<Rightarrow>
          (case v_header v (HexToHash G tx) (t_block_number t) of
             Inl e \<Rightarrow> (Some t, [])
           | Inr None \<Rightarrow> (Some t, [])
           | Inr (Some hdr) \<Rightarrow>
               if hdr \<noteq> t_block_hash t
               then apfst Some (reverse G t tx (t_block_hash t) (t_block_number t)) else k))"

definition poll_mined :: "geth \<Rightarrow> Watcher \<Rightarrow> uint64 \<Rightarrow> chain_view \<Rightarrow> txhash \<Rightarrow> tracked \<Rightarrow> tracked option \<times> Status list" where
  "poll_mined G W head v tx t = verify_anchor G v tx t
     (let bNum = t_block_number t; depth = head - bNum + 1
      in if head < bNum then (Some t, [])
         else if wt_depth W \<le> depth
         then apfst Some (emit G (t\<lparr>t_phase := PhaseConfirmed\<rparr>) tx PhaseConfirmed (t_block_hash t) bNum depth)
         else apfst Some (emit G t tx PhaseMined (t_block_hash t) bNum depth))"

definition poll_confirmed :: "geth \<Rightarrow> Watcher \<Rightarrow> uint64 \<Rightarrow> chain_view \<Rightarrow> txhash \<Rightarrow> tracked \<Rightarrow> tracked option \<times> Status list" where
  "poll_confirmed G W head v tx t = verify_anchor G v tx t
     (let bNum = t_block_number t
      in if bNum \<le> head \<and> wt_finality W \<le> head - bNum + 1
         then (None, snd (emit G t tx PhaseFinalized (t_block_hash t) bNum (head - bNum + 1)))
         else (Some t, []))"

definition poll_tx :: "geth \<Rightarrow> Watcher \<Rightarrow> uint64 \<Rightarrow> chain_view \<Rightarrow> txhash \<Rightarrow> tracked \<Rightarrow> tracked option \<times> Status list" where
  "poll_tx G W head v tx t =
     (case t_phase t of
        PhasePending \<Rightarrow> poll_pending G W head v tx t
      | PhaseMined \<Rightarrow> poll_mined G W head v tx t
      | PhaseConfirmed \<Rightarrow> poll_confirmed G W head v tx t
      | _ \<Rightarrow> (Some t, []))"

text \<open>The loop over the snapshot \<open>keys\<close> of the tracked set, in the order it was taken.\<close>

primrec poll_keys :: "geth \<Rightarrow> uint64 \<Rightarrow> chain_view \<Rightarrow> txhash list \<Rightarrow> Watcher \<Rightarrow> Watcher \<times> Status list" where
  "poll_keys G head v [] W = (W, [])"
| "poll_keys G head v (tx # txs) W =
     (case wt_tracked W tx of
        None \<Rightarrow> poll_keys G head v txs W
      | Some t \<Rightarrow>
          (let (t', out) = poll_tx G W head v tx t;
               (W', outs) = poll_keys G head v txs (W\<lparr>wt_tracked := (wt_tracked W)(tx := t')\<rparr>)
           in (W', out @ outs)))"

definition poll :: "geth \<Rightarrow> chain_view \<Rightarrow> txhash list \<Rightarrow> Watcher \<Rightarrow> Watcher \<times> Status list" where
  "poll G v keys W = (case v_head v of Inl e \<Rightarrow> (W, []) | Inr head \<Rightarrow> poll_keys G head v keys W)"

subsection \<open>The loop\<close>

text \<open>
  The sink is an interface of the source: a function on the state of the outside world. A failed
  Confirmed delivery rolls the entry back to Mined so that it is emitted again.
\<close>

type_synonym 'w sink = "Status \<Rightarrow> 'w \<Rightarrow> unit result \<times> 'w"

definition rollback :: "txhash \<Rightarrow> Watcher \<Rightarrow> Watcher" where
  "rollback tx W =
     (case wt_tracked W tx of
        None \<Rightarrow> W
      | Some t \<Rightarrow> if t_phase t = PhaseConfirmed
          then W\<lparr>wt_tracked := (wt_tracked W)(tx \<mapsto>
                 t\<lparr>t_phase := PhaseMined, t_last_phase := PhasePending, t_last_depth := 0\<rparr>)\<rparr>
          else W)"

primrec dispatch :: "'w sink \<Rightarrow> Status list \<Rightarrow> Watcher \<times> 'w \<Rightarrow> Watcher \<times> 'w" where
  "dispatch sink [] ww = ww"
| "dispatch sink (s # ss) ww =
     (let (r, w) = sink s (snd ww)
      in dispatch sink ss
           (if r \<noteq> Inr () \<and> s_phase s = PhaseConfirmed then rollback (s_tx s) (fst ww) else fst ww, w))"

definition watcher_tick :: "geth \<Rightarrow> 'w sink \<Rightarrow> chain_view \<times> txhash list \<Rightarrow> Watcher \<times> 'w \<Rightarrow> Watcher \<times> 'w" where
  "watcher_tick G sink vk ww =
     (let (W, out) = poll G (fst vk) (snd vk) (fst ww) in dispatch sink out (W, snd ww))"

text \<open>\<open>Run\<close> until the context is cancelled: one tick per element.\<close>

primrec watcher_Run :: "geth \<Rightarrow> 'w sink \<Rightarrow> (chain_view \<times> txhash list) list \<Rightarrow> Watcher \<times> 'w \<Rightarrow> Watcher \<times> 'w" where
  "watcher_Run G sink [] ww = ww"
| "watcher_Run G sink (vk # vks) ww = watcher_Run G sink vks (watcher_tick G sink vk ww)"

text \<open>\<open>cmd/chainwatcher\<close>: registering the open settlements, at the start and on every rescan.\<close>

definition seed :: "geth \<Rightarrow> Settlement \<Rightarrow> Watcher \<Rightarrow> unit result \<times> Watcher" where
  "seed G row W =
     (case st_block_hash row of
        Some bh \<Rightarrow>
          if st_status row = ''settled''
          then Resume G (st_tx row) bh (word_of_int (case st_block_number row of None \<Rightarrow> 0 | Some n \<Rightarrow> n)) W
          else Track (st_tx row) W
      | None \<Rightarrow> Track (st_tx row) W)"

primrec seed_all :: "geth \<Rightarrow> Settlement list \<Rightarrow> Watcher \<Rightarrow> Watcher" where
  "seed_all G [] W = W"
| "seed_all G (row # rows) W = seed_all G rows (snd (seed G row W))"

subsection \<open>A pass, transaction by transaction\<close>

text \<open>The effect of a pass on one key, as a function of the state before the pass.\<close>

definition next_entry :: "geth \<Rightarrow> Watcher \<Rightarrow> uint64 \<Rightarrow> chain_view \<Rightarrow> txhash \<Rightarrow> tracked option" where
  "next_entry G W head v tx =
     (case wt_tracked W tx of None \<Rightarrow> None | Some t \<Rightarrow> fst (poll_tx G W head v tx t))"

definition said :: "geth \<Rightarrow> Watcher \<Rightarrow> uint64 \<Rightarrow> chain_view \<Rightarrow> txhash \<Rightarrow> Status list" where
  "said G W head v tx =
     (case wt_tracked W tx of None \<Rightarrow> [] | Some t \<Rightarrow> snd (poll_tx G W head v tx t))"

lemma poll_tx_cong:
  assumes "wt_depth W' = wt_depth W" "wt_finality W' = wt_finality W"
  shows "poll_tx G W' head v tx t = poll_tx G W head v tx t"
  unfolding poll_tx_def poll_pending_def poll_mined_def poll_confirmed_def assms ..

lemma poll_keys_pointwise:
  assumes "distinct keys"
  shows "poll_keys G head v keys W =
    (W\<lparr>wt_tracked := (\<lambda>tx. if tx \<in> set keys then next_entry G W head v tx else wt_tracked W tx)\<rparr>,
     concat (map (said G W head v) keys))"
  using assms
proof (induction keys arbitrary: W)
  case Nil
  then show ?case by simp
next
  case (Cons k ks)
  show ?case
  proof (cases "wt_tracked W k")
    case None
    then have "next_entry G W head v k = wt_tracked W k" "said G W head v k = []"
      by (simp_all add: next_entry_def said_def)
    moreover from this have "(\<lambda>tx. if tx \<in> set (k # ks) then next_entry G W head v tx else wt_tracked W tx) =
        (\<lambda>tx. if tx \<in> set ks then next_entry G W head v tx else wt_tracked W tx)" by auto
    ultimately show ?thesis using Cons None by simp
  next
    case (Some t)
    define W1 where "W1 = W\<lparr>wt_tracked := (wt_tracked W)(k := fst (poll_tx G W head v k t))\<rparr>"
    have same: "next_entry G W1 head v tx = next_entry G W head v tx" "said G W1 head v tx = said G W head v tx"
      if "tx \<noteq> k" for tx
      using that poll_tx_cong [of W1 W] by (auto simp: next_entry_def said_def W1_def split: option.splits)
    have ks: "k \<notin> set ks" using Cons.prems by simp
    have IH: "poll_keys G head v ks W1 =
      (W1\<lparr>wt_tracked := (\<lambda>tx. if tx \<in> set ks then next_entry G W1 head v tx else wt_tracked W1 tx)\<rparr>,
       concat (map (said G W1 head v) ks))" using Cons by simp
    have out: "concat (map (said G W1 head v) ks) = concat (map (said G W head v) ks)"
      using same(2) ks by (metis map_cong)
    have upd: "(\<lambda>tx. if tx \<in> set ks then next_entry G W1 head v tx else wt_tracked W1 tx) =
        (\<lambda>tx. if tx \<in> set (k # ks) then next_entry G W head v tx else wt_tracked W tx)"
      using same(1) ks Some by (auto simp: W1_def next_entry_def)
    have "poll_keys G head v (k # ks) W =
        (fst (poll_keys G head v ks W1), snd (poll_tx G W head v k t) @ snd (poll_keys G head v ks W1))"
      using Some by (simp add: W1_def Let_def split: prod.splits)
    also have "\<dots> = (W1\<lparr>wt_tracked := (\<lambda>tx. if tx \<in> set (k # ks) then next_entry G W head v tx else wt_tracked W tx)\<rparr>,
        said G W head v k @ concat (map (said G W head v) ks))"
      unfolding IH out upd using Some by (simp add: said_def)
    finally show ?thesis by (simp add: W1_def)
  qed
qed

lemma emit_cases:
  "emit G t tx p bh bn d = (t, []) \<and> p = t_last_phase t \<and> d \<le> t_last_depth t \<or>
   emit G t tx p bh bn d = (t\<lparr>t_last_phase := p, t_last_depth := d\<rparr>,
      [\<lparr>s_tx = tx, s_phase = p, s_block_hash = (if bn \<noteq> 0 then HashHex G bh else []),
        s_block_number = bn, s_depth = d\<rparr>]) \<and> \<not> (p = t_last_phase t \<and> d \<le> t_last_depth t)"
  by (simp add: emit_def)

lemma emit_new:
  "p \<noteq> t_last_phase t \<Longrightarrow> emit G t tx p bh bn d =
     (t\<lparr>t_last_phase := p, t_last_depth := d\<rparr>,
      [\<lparr>s_tx = tx, s_phase = p, s_block_hash = (if bn \<noteq> 0 then HashHex G bh else []),
        s_block_number = bn, s_depth = d\<rparr>])"
  by (simp add: emit_def)

text \<open>
  What every tracked entry satisfies: which phase it is in restricts which phase it last reported,
  so that a change of phase is never swallowed by the deduplication.
\<close>

definition entry_ok :: "tracked \<Rightarrow> bool" where
  "entry_ok t \<longleftrightarrow>
     (case t_phase t of
        PhasePending \<Rightarrow> t_last_phase t \<in> {PhasePending, PhaseReorged}
      | PhaseMined \<Rightarrow> t_last_phase t \<in> {PhasePending, PhaseMined}
      | PhaseConfirmed \<Rightarrow> t_last_phase t = PhaseConfirmed
      | _ \<Rightarrow> False)"

definition watcher_ok :: "Watcher \<Rightarrow> bool" where
  "watcher_ok W \<longleftrightarrow> 0 < wt_depth W \<and> wt_depth W < wt_finality W \<and>
     (\<forall>tx t. wt_tracked W tx = Some t \<longrightarrow> isHexTxHash tx \<and> entry_ok t)"

text \<open>The life of a transaction: from its phase, what is said of it, to its phase after the pass.\<close>

inductive lifecycle :: "Phase \<Rightarrow> Status list \<Rightarrow> Phase option \<Rightarrow> bool" where
  stay: "lifecycle p [] (Some p)"
| mined: "s_phase s = PhaseMined \<Longrightarrow> lifecycle PhasePending [s] (Some PhaseMined)"
| deeper: "s_phase s = PhaseMined \<Longrightarrow> lifecycle PhaseMined [s] (Some PhaseMined)"
| confirmed: "s_phase s = PhaseConfirmed \<Longrightarrow> p \<in> {PhasePending, PhaseMined} \<Longrightarrow>
    lifecycle p [s] (Some PhaseConfirmed)"
| reorged: "s_phase s = PhaseReorged \<Longrightarrow> p \<in> {PhaseMined, PhaseConfirmed} \<Longrightarrow>
    lifecycle p [s] (Some PhasePending)"
| finalized: "s_phase s = PhaseFinalized \<Longrightarrow> lifecycle PhaseConfirmed [s] None"

inductive_simps lifecycle_nil [simp]: "lifecycle p [] q"
inductive_simps lifecycle_one: "lifecycle p [s] q"

definition step_ok :: "tracked \<Rightarrow> tracked option \<times> Status list \<Rightarrow> bool" where
  "step_ok t r \<longleftrightarrow> lifecycle (t_phase t) (snd r) (map_option t_phase (fst r)) \<and>
     (case fst r of None \<Rightarrow> True | Some t' \<Rightarrow> entry_ok t')"

lemma step_ok_stay: "entry_ok t \<Longrightarrow> step_ok t (Some t, [])"
  by (simp add: step_ok_def)

lemma reverse_step_ok:
  assumes "entry_ok t" "t_phase t \<in> {PhaseMined, PhaseConfirmed}"
  shows "step_ok t (apfst Some (reverse G t tx bh bn))"
proof -
  have "t_last_phase t \<noteq> PhaseReorged" using assms by (auto simp: entry_ok_def)
  then show ?thesis
    using assms(2) by (auto simp: reverse_def emit_new step_ok_def entry_ok_def simp: lifecycle_one)
qed

lemma verify_anchor_step_ok:
  assumes "entry_ok t" "t_phase t \<in> {PhaseMined, PhaseConfirmed}" "step_ok t k"
  shows "step_ok t (verify_anchor G v tx t k)"
  using step_ok_stay [OF assms(1)] reverse_step_ok [OF assms(1,2)] assms(3)
  by (simp add: verify_anchor_def split: sum.splits option.splits)

lemma poll_tx_step_ok:
  assumes "entry_ok t" shows "step_ok t (poll_tx G W head v tx t)"
proof (cases "t_phase t")
  case PhasePending
  then have "t_last_phase t \<noteq> PhaseMined" "t_last_phase t \<noteq> PhaseConfirmed"
    using assms by (auto simp: entry_ok_def)
  then show ?thesis
    using PhasePending step_ok_stay [OF assms]
    by (auto simp: poll_tx_def poll_pending_def Let_def emit_new step_ok_def entry_ok_def
        simp: lifecycle_one split: sum.splits option.splits)
next
  case PhaseMined
  then have l: "t_last_phase t \<noteq> PhaseConfirmed" "t_last_phase t \<in> {PhasePending, PhaseMined}"
    using assms by (auto simp: entry_ok_def)
  have "step_ok t (apfst Some (emit G t tx PhaseMined bh bn d))" for bh bn d
    using emit_cases [of G t tx PhaseMined bh bn d] PhaseMined l(2)
    by (auto simp: step_ok_def entry_ok_def simp: lifecycle_one)
  moreover have "step_ok t (apfst Some (emit G (t\<lparr>t_phase := PhaseConfirmed\<rparr>) tx PhaseConfirmed bh bn d))" for bh bn d
    using PhaseMined l(1) by (auto simp: emit_new step_ok_def entry_ok_def simp: lifecycle_one)
  ultimately show ?thesis
    using PhaseMined verify_anchor_step_ok [OF assms] step_ok_stay [OF assms]
    by (simp add: poll_tx_def poll_mined_def Let_def)
next
  case PhaseConfirmed
  then have "t_last_phase t \<noteq> PhaseFinalized" using assms by (auto simp: entry_ok_def)
  then have "step_ok t (None, snd (emit G t tx PhaseFinalized bh bn d))" for bh bn d
    using PhaseConfirmed by (auto simp: emit_new step_ok_def simp: lifecycle_one)
  then show ?thesis
    using PhaseConfirmed verify_anchor_step_ok [OF assms] step_ok_stay [OF assms]
    by (simp add: poll_tx_def poll_confirmed_def Let_def)
qed (use assms in \<open>simp_all add: entry_ok_def\<close>)


lemma poll_pointwise:
  assumes "distinct keys" "v_head v = Inr head"
  shows "wt_tracked (fst (poll G v keys W)) tx =
      (if tx \<in> set keys then next_entry G W head v tx else wt_tracked W tx)"
    "snd (poll G v keys W) = concat (map (said G W head v) keys)"
    "wt_depth (fst (poll G v keys W)) = wt_depth W" "wt_finality (fst (poll G v keys W)) = wt_finality W"
  using poll_keys_pointwise [OF assms(1), of G head v W] assms(2) by (simp_all add: poll_def)

lemma emit_about: "\<forall>s \<in> set (snd (emit G t tx p bh bn d)). s_tx s = tx"
  by (simp add: emit_def)

lemma snd_reverse: "snd (reverse G t tx bh bn) = snd (emit G t tx PhaseReorged bh bn 0)"
  by (simp add: reverse_def split_def Let_def)

lemma verify_anchor_about:
  "\<forall>s \<in> set (snd k). s_tx s = tx \<Longrightarrow> \<forall>s \<in> set (snd (verify_anchor G v tx t k)). s_tx s = tx"
  using emit_about [of G t tx PhaseReorged]
  by (simp add: verify_anchor_def snd_reverse split: sum.splits option.splits)

lemma poll_tx_about: "\<forall>s \<in> set (snd (poll_tx G W head v tx t)). s_tx s = tx"
proof (cases "t_phase t")
  case PhasePending
  then show ?thesis
    using emit_about by (auto simp: poll_tx_def poll_pending_def Let_def split: sum.splits option.splits)
next
  case PhaseMined
  show ?thesis
    unfolding poll_tx_def PhaseMined poll_mined_def Phase.case
    by (rule verify_anchor_about) (use emit_about in \<open>auto simp: Let_def\<close>)
next
  case PhaseConfirmed
  show ?thesis
    unfolding poll_tx_def PhaseConfirmed poll_confirmed_def Phase.case
    by (rule verify_anchor_about) (use emit_about in \<open>auto simp: Let_def\<close>)
qed (simp_all add: poll_tx_def)

definition about :: "txhash \<Rightarrow> Status list \<Rightarrow> Status list" where
  "about tx = filter (\<lambda>s. s_tx s = tx)"

lemma about_append: "about tx [] = []" "about tx (a @ b) = about tx a @ about tx b"
  by (simp_all add: about_def)

lemma about_said: "about tx (said G W head v k) = (if k = tx then said G W head v tx else [])"
  using poll_tx_about [of G W head v k]
  by (auto simp: about_def said_def filter_id_conv filter_empty_conv split: option.splits)

lemma about_poll:
  assumes "distinct keys" "v_head v = Inr head" "tx \<in> set keys"
  shows "about tx (snd (poll G v keys W)) = said G W head v tx"
proof -
  have "about tx (concat (map (said G W head v) keys)) = said G W head v tx"
    using assms(1,3)
  proof (induction keys)
    case (Cons k ks)
    have "about tx (concat (map (said G W head v) ks)) = []" if "tx \<notin> set ks"
      using that by (induction ks) (auto simp: about_append about_said)
    with Cons show ?case by (auto simp: about_append about_said)
  qed simp
  then show ?thesis by (simp add: poll_pointwise(2) [OF assms(1,2)])
qed

lemma poll_one:
  assumes "distinct keys" "v_head v = Inr head" "tx \<in> set keys" "wt_tracked W tx = Some t"
  shows "about tx (snd (poll G v keys W)) = snd (poll_tx G W head v tx t)"
    "wt_tracked (fst (poll G v keys W)) tx = fst (poll_tx G W head v tx t)"
  using assms(3,4) unfolding about_poll [OF assms(1-3)] poll_pointwise(1) [OF assms(1,2)]
  by (simp_all add: next_entry_def said_def)

subsection \<open>Evidence\<close>

text \<open>What the node must have answered in this pass for a status to be reported.\<close>

definition has_receipt :: "geth \<Rightarrow> chain_view \<Rightarrow> txhash \<Rightarrow> bool" where
  "has_receipt G v tx \<longleftrightarrow> (\<exists>r. v_receipt v (HexToHash G tx) = Inr (Some r))"

definition anchored :: "geth \<Rightarrow> chain_view \<Rightarrow> txhash \<Rightarrow> tracked \<Rightarrow> bool" where
  "anchored G v tx t \<longleftrightarrow> v_header v (HexToHash G tx) (t_block_number t) = Inr (Some (t_block_hash t))"

definition gone :: "geth \<Rightarrow> chain_view \<Rightarrow> txhash \<Rightarrow> tracked \<Rightarrow> bool" where
  "gone G v tx t \<longleftrightarrow>
     (\<exists>e. v_receipt v (HexToHash G tx) = Inl e \<and> errorsIs e NotFound) \<or>
     (\<exists>hdr. v_header v (HexToHash G tx) (t_block_number t) = Inr (Some hdr) \<and> hdr \<noteq> t_block_hash t)"

definition evidence :: "geth \<Rightarrow> Watcher \<Rightarrow> chain_view \<Rightarrow> tracked \<Rightarrow> Status \<Rightarrow> bool" where
  "evidence G W v t s \<longleftrightarrow>
     (case s_phase s of
        PhasePending \<Rightarrow> False
      | PhaseMined \<Rightarrow> has_receipt G v (s_tx s) \<and> s_depth s < wt_depth W
      | PhaseConfirmed \<Rightarrow> has_receipt G v (s_tx s) \<and> wt_depth W \<le> s_depth s \<and>
          (t_phase t = PhaseMined \<longrightarrow> anchored G v (s_tx s) t)
      | PhaseReorged \<Rightarrow> t_phase t \<in> {PhaseMined, PhaseConfirmed} \<and> gone G v (s_tx s) t \<and>
          s_block_number s = t_block_number t
      | PhaseFinalized \<Rightarrow> t_phase t = PhaseConfirmed \<and> has_receipt G v (s_tx s) \<and>
          anchored G v (s_tx s) t \<and> wt_finality W \<le> s_depth s)"

lemma emit_in:
  "s \<in> set (snd (emit G t tx p bh bn d)) \<Longrightarrow>
     s_tx s = tx \<and> s_phase s = p \<and> s_depth s = d \<and> s_block_number s = bn"
  by (auto simp: emit_def split: if_splits)

lemma verify_anchor_evidence:
  assumes "t_phase t \<in> {PhaseMined, PhaseConfirmed}"
    "\<And>s. s \<in> set (snd k) \<Longrightarrow> has_receipt G v tx \<Longrightarrow> anchored G v tx t \<Longrightarrow> evidence G W v t s"
    "s \<in> set (snd (verify_anchor G v tx t k))"
  shows "evidence G W v t s"
proof (cases "\<exists>r. v_receipt v (HexToHash G tx) = Inr (Some r) \<and> anchored G v tx t")
  case True
  then show ?thesis
    using assms(2,3) by (auto simp: verify_anchor_def has_receipt_def anchored_def)
next
  case False
  with assms(3) have "gone G v tx t" "s \<in> set (snd (emit G t tx PhaseReorged (t_block_hash t) (t_block_number t) 0))"
    by (auto simp: verify_anchor_def gone_def anchored_def snd_reverse
        split: sum.splits option.splits if_splits)
  with emit_in [OF this(2)] assms(1) show ?thesis by (simp add: evidence_def)
qed

lemma poll_tx_evidence:
  assumes "s \<in> set (snd (poll_tx G W head v tx t))"
  shows "evidence G W v t s"
proof (cases "t_phase t")
  case PhasePending
  with assms obtain r bh bn d t' p where r: "v_receipt v (HexToHash G tx) = Inr (Some r)"
    and e: "s \<in> set (snd (emit G t' tx p bh bn d))"
    and p: "p = PhaseConfirmed \<and> wt_depth W \<le> d \<or> p = PhaseMined \<and> d < wt_depth W"
    by (auto simp: poll_tx_def poll_pending_def Let_def not_le
        split: sum.splits option.splits if_splits)
  from emit_in [OF e] r p PhasePending show ?thesis by (auto simp: evidence_def has_receipt_def)
next
  case PhaseMined
  show ?thesis
  proof (rule verify_anchor_evidence)
    show "s \<in> set (snd (verify_anchor G v tx t (let bNum = t_block_number t; depth = head - bNum + 1
      in if head < bNum then (Some t, [])
         else if wt_depth W \<le> depth
         then apfst Some (emit G (t\<lparr>t_phase := PhaseConfirmed\<rparr>) tx PhaseConfirmed (t_block_hash t) bNum depth)
         else apfst Some (emit G t tx PhaseMined (t_block_hash t) bNum depth))))"
      using assms by (simp add: poll_tx_def PhaseMined poll_mined_def)
  qed (auto simp: PhaseMined Let_def evidence_def not_le dest!: emit_in split: if_splits)
next
  case PhaseConfirmed
  show ?thesis
  proof (rule verify_anchor_evidence)
    show "s \<in> set (snd (verify_anchor G v tx t (let bNum = t_block_number t
      in if bNum \<le> head \<and> wt_finality W \<le> head - bNum + 1
         then (None, snd (emit G t tx PhaseFinalized (t_block_hash t) bNum (head - bNum + 1)))
         else (Some t, []))))"
      using assms by (simp add: poll_tx_def PhaseConfirmed poll_confirmed_def)
  qed (auto simp: PhaseConfirmed Let_def evidence_def dest!: emit_in split: if_splits)
qed (use assms in \<open>simp_all add: poll_tx_def\<close>)


text \<open>Every status of a pass is about a transaction that was tracked, and one the pass looked at.\<close>

lemma poll_statusE:
  assumes "distinct keys" "s \<in> set (snd (poll G v keys W))"
  obtains head t where "v_head v = Inr head" "s_tx s \<in> set keys" "wt_tracked W (s_tx s) = Some t"
    "s \<in> set (snd (poll_tx G W head v (s_tx s) t))"
proof -
  obtain head where h: "v_head v = Inr head"
    using assms(2) by (auto simp: poll_def split: sum.splits)
  then obtain k where k: "k \<in> set keys" "s \<in> set (said G W head v k)"
    using assms(2) by (auto simp: poll_pointwise [OF assms(1)])
  then obtain t where "wt_tracked W k = Some t" "s \<in> set (snd (poll_tx G W head v k t))"
    by (cases "wt_tracked W k") (auto simp: said_def)
  moreover from this have "s_tx s = k" using poll_tx_about by blast
  ultimately show ?thesis using h k that by blast
qed

lemma poll_untouched:
  assumes "distinct keys" "\<not> (\<exists>head. v_head v = Inr head \<and> tx \<in> set keys)"
  shows "about tx (snd (poll G v keys W)) = []" "wt_tracked (fst (poll G v keys W)) tx = wt_tracked W tx"
proof -
  have "s_tx s \<noteq> tx" if "s \<in> set (snd (poll G v keys W))" for s
    by (rule poll_statusE [OF assms(1) that]) (use assms(2) in auto)
  then show "about tx (snd (poll G v keys W)) = []" by (simp add: about_def filter_empty_conv)
  show "wt_tracked (fst (poll G v keys W)) tx = wt_tracked W tx"
    using assms(2) poll_pointwise(1) [OF assms(1)] by (cases "v_head v") (simp_all add: poll_def)
qed

lemma poll_watcher_ok:
  assumes "watcher_ok W" "distinct keys"
  shows "watcher_ok (fst (poll G v keys W))"
proof (cases "v_head v")
  case (Inr head)
  have "entry_ok t'" if "next_entry G W head v tx = Some t'" for tx t'
  proof (cases "wt_tracked W tx")
    case (Some t)
    then have "step_ok t (poll_tx G W head v tx t)"
      using assms(1) by (intro poll_tx_step_ok) (auto simp: watcher_ok_def)
    then show ?thesis using that Some by (simp add: next_entry_def step_ok_def)
  qed (use that in \<open>simp add: next_entry_def\<close>)
  moreover have "isHexTxHash tx" if "next_entry G W head v tx = Some t'" for tx t'
    using that assms(1) by (auto simp: next_entry_def watcher_ok_def split: option.splits)
  ultimately show ?thesis
    using assms(1) by (simp add: watcher_ok_def poll_pointwise [OF assms(2) Inr])
qed (use assms in \<open>simp add: poll_def\<close>)

text \<open>
  C13. A pass of the poll refines the life cycle of a transaction: for every tracked transaction what
  the pass says of it is at most one status, and that status is the change of phase the pass makes
  (Pending to Mined or Confirmed, Mined deeper or to Confirmed, Mined or Confirmed back to Pending
  when reorged, Confirmed out of the set when finalized). The watcher's invariant is kept.
\<close>

theorem poll_refines_lifecycle:
  assumes "watcher_ok W" "distinct keys" "wt_tracked W tx = Some t"
  shows "watcher_ok (fst (poll G v keys W)) \<and>
    lifecycle (t_phase t) (about tx (snd (poll G v keys W)))
      (map_option t_phase (wt_tracked (fst (poll G v keys W)) tx))"
proof
  show "watcher_ok (fst (poll G v keys W))" using assms by (simp add: poll_watcher_ok)
  show "lifecycle (t_phase t) (about tx (snd (poll G v keys W)))
      (map_option t_phase (wt_tracked (fst (poll G v keys W)) tx))"
  proof (cases "\<exists>head. v_head v = Inr head \<and> tx \<in> set keys")
    case True
    then obtain head where h: "v_head v = Inr head" "tx \<in> set keys" by blast
    have "step_ok t (poll_tx G W head v tx t)"
      using assms by (intro poll_tx_step_ok) (auto simp: watcher_ok_def)
    then show ?thesis
      unfolding poll_one [OF assms(2) h assms(3)] step_ok_def by simp
  next
    case False
    show ?thesis unfolding poll_untouched [OF assms(2) False] assms(3) by simp
  qed
qed


text \<open>
  A transport fault is not a reorganisation: when the node cannot report its head, or fails on a
  transaction's receipt with anything but not-found, the pass leaves that transaction's entry as it
  was and says nothing of it.
\<close>

theorem poll_transient:
  assumes "distinct keys"
    "(\<exists>e. v_head v = Inl e) \<or> (\<exists>e. v_receipt v (HexToHash G tx) = Inl e \<and> \<not> errorsIs e NotFound)"
  shows "wt_tracked (fst (poll G v keys W)) tx = wt_tracked W tx \<and> about tx (snd (poll G v keys W)) = []"
proof (cases "\<exists>head. v_head v = Inr head \<and> tx \<in> set keys")
  case True
  then obtain head e where h: "v_head v = Inr head" "tx \<in> set keys"
    and e: "v_receipt v (HexToHash G tx) = Inl e" "\<not> errorsIs e NotFound" using assms(2) by auto
  then have "poll_tx G W head v tx t = (Some t, [])" for t
    by (auto simp: poll_tx_def poll_pending_def poll_mined_def poll_confirmed_def verify_anchor_def
        split: Phase.splits)
  then have "next_entry G W head v tx = wt_tracked W tx" "said G W head v tx = []"
    by (simp_all add: next_entry_def said_def split: option.splits)
  then show ?thesis
    using h(2) unfolding about_poll [OF assms(1) h] poll_pointwise(1) [OF assms(1) h(1)] by simp
next
  case False
  show ?thesis unfolding poll_untouched [OF assms(1) False] by simp
qed

subsection \<open>Progress\<close>

text \<open>The node reports the transaction in block \<open>r\<close>, which is canonical, with \<open>n\<close> confirmations or more.\<close>

definition canonical_for :: "geth \<Rightarrow> chain_view \<Rightarrow> txhash \<Rightarrow> Receipt \<Rightarrow> uint64 \<Rightarrow> bool" where
  "canonical_for G v tx r n \<longleftrightarrow>
     v_receipt v (HexToHash G tx) = Inr (Some r) \<and>
     v_header v (HexToHash G tx) (r_block_number r) = Inr (Some (r_block_hash r)) \<and>
     (\<exists>head. v_head v = Inr head \<and> n \<le> confirmations head (r_block_number r))"

definition in_block :: "Receipt \<Rightarrow> tracked \<Rightarrow> bool" where
  "in_block r t \<longleftrightarrow> t_block_hash t = r_block_hash r \<and> t_block_number t = r_block_number r"

lemma confirmations_pos: "0 < n \<Longrightarrow> n \<le> confirmations head h \<Longrightarrow> h \<le> head \<and> \<not> head < h \<and> confirmations head h = head - h + 1"
  by (auto simp: confirmations_def)

lemma poll_tx_confirms:
  assumes "watcher_ok W" "wt_tracked W tx = Some t" "canonical_for G v tx r (wt_depth W)" "v_head v = Inr head"
    "t_phase t = PhasePending \<or> t_phase t = PhaseMined \<and> in_block r t"
  shows "\<exists>t' s. poll_tx G W head v tx t = (Some t', [s]) \<and> t_phase t' = PhaseConfirmed \<and> in_block r t' \<and>
    s_phase s = PhaseConfirmed \<and> s_block_number s = r_block_number r"
proof -
  have ok: "entry_ok t" "0 < wt_depth W" using assms(1,2) by (auto simp: watcher_ok_def)
  then have l: "t_last_phase t \<noteq> PhaseConfirmed" using assms(5) by (auto simp: entry_ok_def)
  have d: "wt_depth W \<le> confirmations head (r_block_number r)"
    using assms(3,4) by (auto simp: canonical_for_def)
  note c = confirmations_pos [OF ok(2) d]
  have nz: "confirmations head (r_block_number r) \<noteq> 0" using d ok(2) by auto
  from assms(5) show ?thesis
  proof
    assume "t_phase t = PhasePending"
    then show ?thesis using assms(3) d l nz
      by (simp add: poll_tx_def poll_pending_def canonical_for_def Let_def emit_new in_block_def)
  next
    assume "t_phase t = PhaseMined \<and> in_block r t"
    then show ?thesis using assms(3) d l c
      by (simp add: poll_tx_def poll_mined_def verify_anchor_def canonical_for_def Let_def emit_new in_block_def)
  qed
qed

lemma poll_tx_finalizes:
  assumes "watcher_ok W" "wt_tracked W tx = Some t" "canonical_for G v tx r (wt_finality W)" "v_head v = Inr head"
    "t_phase t = PhaseConfirmed" "in_block r t"
  shows "\<exists>s. poll_tx G W head v tx t = (None, [s]) \<and> s_phase s = PhaseFinalized \<and> s_block_number s = r_block_number r"
proof -
  have ok: "entry_ok t" "0 < wt_finality W" using assms(1,2) by (auto simp: watcher_ok_def)
  then have l: "t_last_phase t \<noteq> PhaseFinalized" using assms(5) by (auto simp: entry_ok_def)
  have d: "wt_finality W \<le> confirmations head (r_block_number r)"
    using assms(3,4) by (auto simp: canonical_for_def)
  note c = confirmations_pos [OF ok(2) d]
  show ?thesis
    using assms(3,5,6) d l c
    by (simp add: poll_tx_def poll_confirmed_def verify_anchor_def canonical_for_def Let_def emit_new in_block_def)
qed

lemma canonical_for_mono: "canonical_for G v tx r n \<Longrightarrow> m \<le> n \<Longrightarrow> canonical_for G v tx r m"
  by (auto simp: canonical_for_def)


lemma about_in: "about tx out = [s] \<Longrightarrow> s \<in> set out \<and> s_tx s = tx"
  unfolding about_def by (drule arg_cong [where f = set]) auto

lemma poll_confirms:
  assumes "watcher_ok W" "distinct keys" "tx \<in> set keys" "wt_tracked W tx = Some t"
    "canonical_for G v tx r (wt_depth W)" "t_phase t = PhasePending \<or> t_phase t = PhaseMined \<and> in_block r t"
  obtains t' s where "wt_tracked (fst (poll G v keys W)) tx = Some t'" "t_phase t' = PhaseConfirmed" "in_block r t'"
    "s \<in> set (snd (poll G v keys W))" "s_tx s = tx" "s_phase s = PhaseConfirmed" "s_block_number s = r_block_number r"
proof -
  obtain head where h: "v_head v = Inr head" using assms(5) by (auto simp: canonical_for_def)
  from poll_tx_confirms [OF assms(1,4,5) h assms(6)] obtain t' s where
    p: "poll_tx G W head v tx t = (Some t', [s])" "t_phase t' = PhaseConfirmed" "in_block r t'"
      "s_phase s = PhaseConfirmed" "s_block_number s = r_block_number r" by blast
  note one = poll_one [OF assms(2) h assms(3,4), where G = G]
  have "about tx (snd (poll G v keys W)) = [s]" "wt_tracked (fst (poll G v keys W)) tx = Some t'"
    unfolding one p(1) by simp_all
  then show ?thesis using that p about_in by blast
qed

lemma poll_finalizes:
  assumes "watcher_ok W" "distinct keys" "tx \<in> set keys" "wt_tracked W tx = Some t"
    "canonical_for G v tx r (wt_finality W)" "t_phase t = PhaseConfirmed" "in_block r t"
  obtains s where "wt_tracked (fst (poll G v keys W)) tx = None"
    "s \<in> set (snd (poll G v keys W))" "s_tx s = tx" "s_phase s = PhaseFinalized" "s_block_number s = r_block_number r"
proof -
  obtain head where h: "v_head v = Inr head" using assms(5) by (auto simp: canonical_for_def)
  from poll_tx_finalizes [OF assms(1,4,5) h assms(6,7)] obtain s where
    p: "poll_tx G W head v tx t = (None, [s])" "s_phase s = PhaseFinalized" "s_block_number s = r_block_number r"
    by blast
  note one = poll_one [OF assms(2) h assms(3,4), where G = G]
  have "about tx (snd (poll G v keys W)) = [s]" "wt_tracked (fst (poll G v keys W)) tx = None"
    unfolding one p(1) by simp_all
  then show ?thesis using that p about_in by blast
qed

text \<open>
  C23. A transaction that stays in a canonical block at the finality depth is confirmed and then
  finalized: one pass reports it Confirmed if it was not yet, and the next reports it Finalized and
  drops it, wherever in its life cycle it was.
\<close>

theorem canonical_finalizes:
  assumes "watcher_ok W" "wt_tracked W tx = Some t" "t_phase t \<in> {PhasePending, PhaseMined}"
    "t_phase t = PhaseMined \<Longrightarrow> in_block r t"
    "distinct keys" "tx \<in> set keys" "canonical_for G v tx r (wt_finality W)"
    "distinct keys'" "tx \<in> set keys'" "canonical_for G v' tx r (wt_finality W)"
  shows "\<exists>W1 W2 s1 s2. poll G v keys W = (W1, s1) \<and> poll G v' keys' W1 = (W2, s2) \<and>
    (\<exists>s \<in> set s1. s_tx s = tx \<and> s_phase s = PhaseConfirmed \<and> s_block_number s = r_block_number r) \<and>
    (\<exists>s \<in> set s2. s_tx s = tx \<and> s_phase s = PhaseFinalized \<and> s_block_number s = r_block_number r) \<and>
    wt_tracked W2 tx = None"
proof -
  define W1 where "W1 = fst (poll G v keys W)"
  have "canonical_for G v tx r (wt_depth W)"
    using assms(1) by (intro canonical_for_mono [OF assms(7)]) (auto simp: watcher_ok_def)
  moreover have "t_phase t = PhasePending \<or> t_phase t = PhaseMined \<and> in_block r t" using assms(3,4) by blast
  ultimately obtain t' s where c: "wt_tracked W1 tx = Some t'" "t_phase t' = PhaseConfirmed" "in_block r t'"
    and s: "s \<in> set (snd (poll G v keys W))" "s_tx s = tx" "s_phase s = PhaseConfirmed"
      "s_block_number s = r_block_number r"
    unfolding W1_def by (rule poll_confirms [OF assms(1,5,6,2)]) blast
  have W1: "watcher_ok W1" unfolding W1_def using assms(1,5) by (rule poll_watcher_ok)
  have "wt_finality W1 = wt_finality W"
    using poll_pointwise(4) [OF assms(5)] assms(7) by (auto simp: W1_def canonical_for_def)
  with assms(10) have "canonical_for G v' tx r (wt_finality W1)" by simp
  then obtain s' where "wt_tracked (fst (poll G v' keys' W1)) tx = None" "s' \<in> set (snd (poll G v' keys' W1))"
    "s_tx s' = tx" "s_phase s' = PhaseFinalized" "s_block_number s' = r_block_number r"
    by (rule poll_finalizes [OF W1 assms(8,9) c(1) _ c(2,3)]) blast
  moreover have "poll G v keys W = (W1, snd (poll G v keys W))" by (simp add: W1_def)
  moreover have "poll G v' keys' W1 = (fst (poll G v' keys' W1), snd (poll G v' keys' W1))" by simp
  ultimately show ?thesis using s by blast
qed

subsection \<open>Delivery to the sink\<close>

definition rolled :: "tracked \<Rightarrow> tracked" where
  "rolled t = (if t_phase t = PhaseConfirmed
     then t\<lparr>t_phase := PhaseMined, t_last_phase := PhasePending, t_last_depth := 0\<rparr> else t)"

lemma rolled_rolled [simp]: "rolled (rolled t) = rolled t"
  by (simp add: rolled_def)

lemma entry_ok_rolled: "entry_ok t \<Longrightarrow> entry_ok (rolled t)"
  by (simp add: entry_ok_def rolled_def split: Phase.splits)

lemma rollback_tracked [simp]:
  "wt_tracked (rollback tx W) k = (if k = tx then map_option rolled (wt_tracked W k) else wt_tracked W k)"
  by (auto simp: rollback_def rolled_def split: option.splits)

lemma rollback_depths [simp]: "wt_depth (rollback tx W) = wt_depth W" "wt_finality (rollback tx W) = wt_finality W"
  by (auto simp: rollback_def split: option.splits)

lemma rollback_ok: "watcher_ok W \<Longrightarrow> watcher_ok (rollback tx W)"
  by (auto simp: watcher_ok_def entry_ok_rolled)

lemma dispatch_depths [simp]:
  "wt_depth (fst (dispatch sink ss ww)) = wt_depth (fst ww)"
  "wt_finality (fst (dispatch sink ss ww)) = wt_finality (fst ww)"
  by (induction ss arbitrary: ww) (simp_all add: split_def Let_def)

lemma dispatch_ok: "watcher_ok (fst ww) \<Longrightarrow> watcher_ok (fst (dispatch sink ss ww))"
  by (induction ss arbitrary: ww) (simp_all add: split_def Let_def rollback_ok)

lemma dispatch_tracked:
  "wt_tracked (fst (dispatch sink ss ww)) tx \<in> {wt_tracked (fst ww) tx, map_option rolled (wt_tracked (fst ww) tx)}"
proof (induction ss arbitrary: ww)
  case (Cons s ss)
  have "map_option rolled (map_option rolled o') = map_option rolled o'" for o'
    by (cases o') simp_all
  then show ?case
    using Cons [of "(if fst (sink s (snd ww)) \<noteq> Inr () \<and> s_phase s = PhaseConfirmed
      then rollback (s_tx s) (fst ww) else fst ww, snd (sink s (snd ww)))"]
    by (auto simp: split_def Let_def split: if_splits)
qed simp

lemma dispatch_rejected:
  assumes "s \<in> set ss" "s_phase s = PhaseConfirmed" "\<And>w. fst (sink s w) \<noteq> Inr ()"
  shows "wt_tracked (fst (dispatch sink ss ww)) (s_tx s) = map_option rolled (wt_tracked (fst ww) (s_tx s))"
  using assms(1)
proof (induction ss arbitrary: ww)
  case (Cons a ss)
  have twice: "map_option rolled (map_option rolled o') = map_option rolled o'" for o'
    by (cases o') simp_all
  show ?case
  proof (cases "s \<in> set ss")
    case True
    then show ?thesis using Cons.IH twice by (simp add: split_def Let_def)
  next
    case False
    then have a: "a = s" using Cons.prems by simp
    show ?thesis
      using dispatch_tracked [of sink ss "(rollback (s_tx s) (fst ww), snd (sink s (snd ww)))" "s_tx s"]
        assms(2,3) twice by (simp add: a split_def Let_def)
  qed
qed simp

lemma watcher_tick_fst:
  "watcher_tick G sink (v, keys) (W, w) = dispatch sink (snd (poll G v keys W)) (fst (poll G v keys W), w)"
  by (simp add: watcher_tick_def split_def Let_def)

lemma watcher_tick_ok:
  "watcher_ok (fst ww) \<Longrightarrow> distinct (snd vk) \<Longrightarrow> watcher_ok (fst (watcher_tick G sink vk ww))"
  by (cases vk; cases ww) (simp add: watcher_tick_fst dispatch_ok poll_watcher_ok)

text \<open>A pass that reports Confirmed leaves the entry confirmed, anchored in the block it reports.\<close>

lemma verify_anchor_phase:
  assumes "s \<in> set (snd (verify_anchor G v tx t k))" "s_phase s \<noteq> PhaseReorged"
  shows "verify_anchor G v tx t k = k"
  using assms emit_in [of s G t tx PhaseReorged]
  by (auto simp: verify_anchor_def snd_reverse split: sum.splits option.splits if_splits)

lemma poll_tx_confirmed_entry:
  assumes "s \<in> set (snd (poll_tx G W head v tx t))" "s_phase s = PhaseConfirmed"
  shows "\<exists>t'. fst (poll_tx G W head v tx t) = Some t' \<and> t_phase t' = PhaseConfirmed \<and>
    t_block_number t' = s_block_number s"
proof -
  have emit: "t_phase (fst (emit G t0 tx p bh bn d)) = t_phase t0 \<and>
      t_block_number (fst (emit G t0 tx p bh bn d)) = t_block_number t0" for t0 p bh bn d
    by (simp add: emit_def)
  show ?thesis
  proof (cases "t_phase t")
    case PhasePending
    with assms show ?thesis
      by (auto simp: poll_tx_def poll_pending_def Let_def emit dest!: emit_in
          split: sum.splits option.splits if_splits)
  next
    case PhaseMined
    with assms have "s \<in> set (snd (poll_mined G W head v tx t))" by (simp add: poll_tx_def)
    from verify_anchor_phase [OF this [unfolded poll_mined_def]] this assms(2) PhaseMined show ?thesis
      by (auto simp: poll_tx_def poll_mined_def Let_def emit dest!: emit_in split: if_splits)
  next
    case PhaseConfirmed
    with assms have "s \<in> set (snd (poll_confirmed G W head v tx t))" by (simp add: poll_tx_def)
    from verify_anchor_phase [OF this [unfolded poll_confirmed_def]] this assms(2) show ?thesis
      by (auto simp: poll_confirmed_def Let_def dest!: emit_in split: if_splits)
  qed (use assms in \<open>simp_all add: poll_tx_def\<close>)
qed

text \<open>
  A confirmation the sink fails to record is not lost: the tick in which the sink rejects a
  Confirmed status leaves the transaction tracked as Mined in the reported block, and the next pass
  that finds that block canonical at the confirmation depth reports Confirmed again.
\<close>

theorem confirmed_redelivered:
  assumes "watcher_ok W" "distinct keys" "s \<in> set (snd (poll G v keys W))" "s_phase s = PhaseConfirmed"
    "\<And>w. fst (sink s w) \<noteq> Inr ()" "W1 = fst (watcher_tick G sink (v, keys) (W, w))"
  shows "\<exists>t. wt_tracked W1 (s_tx s) = Some t \<and> t_phase t = PhaseMined \<and> t_block_number t = s_block_number s \<and>
    (\<forall>v' keys' r. distinct keys' \<and> s_tx s \<in> set keys' \<and> in_block r t \<and> canonical_for G v' (s_tx s) r (wt_depth W) \<longrightarrow>
      (\<exists>s' \<in> set (snd (poll G v' keys' W1)). s_tx s' = s_tx s \<and> s_phase s' = PhaseConfirmed \<and>
         s_block_number s' = s_block_number s))"
proof -
  obtain head t0 where h: "v_head v = Inr head" "s_tx s \<in> set keys" "wt_tracked W (s_tx s) = Some t0"
    "s \<in> set (snd (poll_tx G W head v (s_tx s) t0))" by (rule poll_statusE [OF assms(2,3)])
  from poll_tx_confirmed_entry [OF h(4) assms(4)] obtain t1 where
    t1: "fst (poll_tx G W head v (s_tx s) t0) = Some t1" "t_phase t1 = PhaseConfirmed"
      "t_block_number t1 = s_block_number s" by blast
  have "wt_tracked (fst (poll G v keys W)) (s_tx s) = Some t1"
    using poll_one(2) [OF assms(2) h(1,2,3), where G = G] t1(1) by simp
  then have W1: "wt_tracked W1 (s_tx s) = Some (rolled t1)"
    unfolding assms(6) watcher_tick_fst dispatch_rejected [where sink = sink, OF assms(3,4,5)] by simp
  have ok: "watcher_ok W1" unfolding assms(6) using assms(1,2) by (simp add: watcher_tick_ok)
  have "wt_depth W1 = wt_depth W"
    unfolding assms(6) watcher_tick_fst by (simp add: poll_pointwise(3) [OF assms(2) h(1)])
  then have "\<exists>s' \<in> set (snd (poll G v' keys' W1)). s_tx s' = s_tx s \<and> s_phase s' = PhaseConfirmed \<and>
         s_block_number s' = s_block_number s"
    if "distinct keys'" "s_tx s \<in> set keys'" "in_block r (rolled t1)" "canonical_for G v' (s_tx s) r (wt_depth W)"
    for v' keys' r
  proof -
    have "canonical_for G v' (s_tx s) r (wt_depth W1)" using that(4) \<open>wt_depth W1 = wt_depth W\<close> by simp
    moreover have "t_phase (rolled t1) = PhaseMined" using t1(2) by (simp add: rolled_def)
    moreover have "r_block_number r = s_block_number s" using that(3) t1(2,3) by (simp add: in_block_def rolled_def)
    ultimately show ?thesis
      using poll_confirms [OF ok that(1,2) W1] that(3) by metis
  qed
  then show ?thesis using W1 t1(2,3) by (simp add: rolled_def) blast
qed


lemma poll_tx_reorged_entry:
  assumes "s \<in> set (snd (poll_tx G W head v tx t))" "s_phase s = PhaseReorged"
  shows "\<exists>t'. fst (poll_tx G W head v tx t) = Some t' \<and> t_phase t' = PhasePending"
proof -
  have r: "t_phase (fst (reverse G t tx bh bn)) = PhasePending" for bh bn
    by (simp add: reverse_def emit_def)
  have no: "s \<notin> set (snd (emit G t0 tx p bh bn d))" if "p \<noteq> PhaseReorged" for t0 p bh bn d
    using emit_in assms(2) that by metis
  have va: "\<exists>t'. fst (verify_anchor G v tx t k) = Some t' \<and> t_phase t' = PhasePending"
    if "s \<in> set (snd (verify_anchor G v tx t k))" "s \<notin> set (snd k)" for k
    using r that by (auto simp: verify_anchor_def split: sum.splits option.splits if_splits)
  show ?thesis
  proof (cases "t_phase t")
    case PhasePending
    with assms(1) no show ?thesis
      by (auto simp: poll_tx_def poll_pending_def Let_def split: sum.splits option.splits if_splits)
  next
    case PhaseMined
    show ?thesis
      unfolding poll_tx_def PhaseMined Phase.case poll_mined_def
      by (rule va) (use assms(1) no in \<open>simp_all add: poll_tx_def PhaseMined poll_mined_def Let_def\<close>)
  next
    case PhaseConfirmed
    show ?thesis
      unfolding poll_tx_def PhaseConfirmed Phase.case poll_confirmed_def
      by (rule va) (use assms(1) no in \<open>simp_all add: poll_tx_def PhaseConfirmed poll_confirmed_def Let_def\<close>)
  qed (use assms(1) in \<open>simp_all add: poll_tx_def\<close>)
qed

text \<open>A pending transaction the node has no receipt for.\<close>

definition absent :: "geth \<Rightarrow> txhash \<Rightarrow> chain_view \<Rightarrow> bool" where
  "absent G tx v \<longleftrightarrow> (\<forall>r. v_receipt v (HexToHash G tx) \<noteq> Inr (Some r))"

lemma poll_absent:
  assumes "distinct keys" "wt_tracked W tx = Some t" "t_phase t = PhasePending" "absent G tx v"
  shows "about tx (snd (poll G v keys W)) = []" "wt_tracked (fst (poll G v keys W)) tx = Some t"
proof -
  have "poll_tx G W head v tx t = (Some t, [])" for head
    using assms(3,4) by (auto simp: poll_tx_def poll_pending_def absent_def split: sum.splits option.splits)
  then show "about tx (snd (poll G v keys W)) = []" "wt_tracked (fst (poll G v keys W)) tx = Some t"
    using poll_untouched [OF assms(1), of v tx G W] poll_one [OF assms(1) _ _ assms(2), of v _ G] assms(2)
    by (cases "\<exists>head. v_head v = Inr head \<and> tx \<in> set keys", auto)+
qed

lemma watcher_Run_absent:
  assumes "wt_tracked (fst ww) tx = Some t" "t_phase t = PhasePending"
    "\<forall>(v, keys) \<in> set vks. distinct keys \<and> absent G tx v"
  shows "wt_tracked (fst (watcher_Run G sink vks ww)) tx = Some t"
  using assms(1,3)
proof (induction vks arbitrary: ww)
  case (Cons vk vks)
  obtain v keys W w where vk: "vk = (v, keys)" "ww = (W, w)" by (metis surj_pair)
  have "wt_tracked (fst (poll G v keys W)) tx = Some t"
    using Cons.prems assms(2) vk by (intro poll_absent(2)) auto
  moreover have "rolled t = t" using assms(2) by (simp add: rolled_def)
  ultimately have "wt_tracked (fst (watcher_tick G sink vk ww)) tx = Some t"
    using dispatch_tracked [of sink "snd (poll G v keys W)" "(fst (poll G v keys W), w)" tx]
    by (auto simp: vk watcher_tick_fst)
  then show ?case using Cons by simp
qed simp

text \<open>
  C24. A reorganisation the sink fails to record is not reported again: after the tick that reports a
  transaction Reorged, whatever the sink answered, every later pass says nothing of that transaction
  for as long as the node has no receipt for it, however many ticks go by. (The comment of \<open>Run\<close> says
  that a failed Reorged delivery is re-derived on the next pass.)
\<close>

theorem reorged_not_redelivered:
  assumes "distinct keys" "s \<in> set (snd (poll G v keys W))" "s_phase s = PhaseReorged"
    "\<forall>(v, keys) \<in> set vks. distinct keys \<and> absent G (s_tx s) v" "distinct keys'" "absent G (s_tx s) v'"
  shows "about (s_tx s) (snd (poll G v' keys'
    (fst (watcher_Run G sink vks (watcher_tick G sink (v, keys) (W, w)))))) = []"
proof -
  obtain head t0 where h: "v_head v = Inr head" "s_tx s \<in> set keys" "wt_tracked W (s_tx s) = Some t0"
    "s \<in> set (snd (poll_tx G W head v (s_tx s) t0))" by (rule poll_statusE [OF assms(1,2)])
  from poll_tx_reorged_entry [OF h(4) assms(3)] obtain t where
    t: "fst (poll_tx G W head v (s_tx s) t0) = Some t" "t_phase t = PhasePending" by blast
  have "wt_tracked (fst (poll G v keys W)) (s_tx s) = Some t"
    using poll_one(2) [OF assms(1) h(1,2,3), where G = G] t(1) by simp
  moreover have "rolled t = t" using t(2) by (simp add: rolled_def)
  ultimately have "wt_tracked (fst (watcher_tick G sink (v, keys) (W, w))) (s_tx s) = Some t"
    using dispatch_tracked [of sink "snd (poll G v keys W)" "(fst (poll G v keys W), w)" "s_tx s"]
    by (auto simp: watcher_tick_fst)
  from watcher_Run_absent [OF this t(2) assms(4)] show ?thesis
    by (rule poll_absent(1) [OF assms(5) _ t(2) assms(6)])
qed

subsection \<open>Registration keeps the invariant\<close>

lemma NewWatcher_ok: "NewWatcher depth finality interval = Inr W \<Longrightarrow> watcher_ok W"
  by (auto simp: NewWatcher_def watcher_ok_def word_neq_0_conv split: if_splits)

lemma Track_ok: "watcher_ok W \<Longrightarrow> watcher_ok (snd (Track tx W))"
  by (auto simp: Track_def watcher_ok_def entry_ok_def fresh_track_def)

lemma Resume_ok: "watcher_ok W \<Longrightarrow> watcher_ok (snd (Resume G tx bh bn W))"
  by (auto simp: Resume_def watcher_ok_def entry_ok_def)

lemma seed_ok: "watcher_ok W \<Longrightarrow> watcher_ok (snd (seed G row W))"
  by (auto simp: seed_def Track_ok Resume_ok split: option.splits)

lemma seed_all_ok: "watcher_ok W \<Longrightarrow> watcher_ok (seed_all G rows W)"
  by (induction rows arbitrary: W) (simp_all add: seed_ok)

lemma watcher_Run_ok:
  "watcher_ok (fst ww) \<Longrightarrow> \<forall>vk \<in> set vks. distinct (snd vk) \<Longrightarrow> watcher_ok (fst (watcher_Run G sink vks ww))"
  by (induction vks arbitrary: ww) (simp_all add: watcher_tick_ok)

text \<open>A row the watcher can register: valid hashes.\<close>

definition seedable :: "Settlement \<Rightarrow> bool" where
  "seedable row \<longleftrightarrow> isHexTxHash (st_tx row) \<and>
     (case st_block_hash row of None \<Rightarrow> True | Some bh \<Rightarrow> st_status row = ''settled'' \<longrightarrow> isHexTxHash bh)"

lemma seed_noop: "\<not> seedable row \<or> st_tx row \<in> dom (wt_tracked W) \<Longrightarrow> snd (seed G row W) = W"
  by (simp add: seedable_def seed_def Track_def Resume_def split: option.splits)

lemma seed_registers: "seedable row \<Longrightarrow> st_tx row \<in> dom (wt_tracked (snd (seed G row W)))"
  by (cases "st_tx row \<in> dom (wt_tracked W)")
    (auto simp: seed_noop, auto simp: seedable_def seed_def Track_def Resume_def split: option.splits)

lemma seed_keeps: "wt_tracked W tx = Some t \<Longrightarrow> wt_tracked (snd (seed G row W)) tx = Some t"
  by (cases "tx = st_tx row")
    (auto simp: seed_noop, auto simp: seed_def Track_def Resume_def split: option.splits)

lemma seed_all_keeps: "wt_tracked W tx = Some t \<Longrightarrow> wt_tracked (seed_all G rows W) tx = Some t"
  by (induction rows arbitrary: W) (simp_all add: seed_keeps)

lemma seed_all_registers:
  "row \<in> set rows \<Longrightarrow> seedable row \<Longrightarrow> st_tx row \<in> dom (wt_tracked (seed_all G rows W))"
proof (induction rows arbitrary: W)
  case (Cons r rows)
  show ?case
  proof (cases "row \<in> set rows")
    case False
    with Cons.prems have "r = row" by simp
    then obtain t where "wt_tracked (snd (seed G r W)) (st_tx row) = Some t"
      using seed_registers Cons.prems(2) by blast
    then show ?thesis by (simp add: seed_all_keeps dom_def)
  qed (use Cons in simp)
qed simp

lemma seed_all_noop:
  "(\<And>row. row \<in> set rows \<Longrightarrow> seedable row \<Longrightarrow> st_tx row \<in> dom (wt_tracked W)) \<Longrightarrow> seed_all G rows W = W"
proof (induction rows)
  case (Cons r rows)
  then have "snd (seed G r W) = W" by (intro seed_noop) auto
  then show ?case using Cons by simp
qed simp

text \<open>
  Seeding is idempotent and never disturbs a transaction that is already followed: the rescan of
  the open settlements leaves every entry of the running watcher as it is, registers each open
  settlement with valid hashes, and doing it again changes nothing.
\<close>

theorem seed_all_idempotent:
  "(\<forall>tx t. wt_tracked W tx = Some t \<longrightarrow> wt_tracked (seed_all G rows W) tx = Some t) \<and>
   (\<forall>row \<in> set rows. seedable row \<longrightarrow> st_tx row \<in> dom (wt_tracked (seed_all G rows W))) \<and>
   seed_all G rows (seed_all G rows W) = seed_all G rows W"
  using seed_all_keeps seed_all_registers seed_all_noop [of rows "seed_all G rows W"] by blast

subsection \<open>The interface of the sink\<close>

text \<open>
  What the watcher needs of \<open>StatusSink\<close>: an invariant of the world that every delivery keeps. Then
  the whole loop keeps it, whatever the node answers and in whatever order the passes see it.
\<close>

locale status_sink =
  fixes on_status :: "'w sink" and inv :: "'w \<Rightarrow> bool"
  assumes on_status_keeps: "inv w \<Longrightarrow> inv (snd (on_status s w))"
begin

lemma dispatch_keeps: "inv (snd ww) \<Longrightarrow> inv (snd (dispatch on_status ss ww))"
  by (induction ss arbitrary: ww) (simp_all add: split_def Let_def on_status_keeps)

lemma tick_keeps: "inv (snd ww) \<Longrightarrow> inv (snd (watcher_tick G on_status vk ww))"
  by (simp add: watcher_tick_def split_def Let_def dispatch_keeps)

lemma Run_keeps: "inv (snd ww) \<Longrightarrow> inv (snd (watcher_Run G on_status vks ww))"
  by (induction vks arbitrary: ww) (simp_all add: tick_keeps)

end


subsection \<open>A concrete watcher\<close>

definition geth0 :: geth where
  "geth0 = \<lparr>HexToHash = id, HashHex = id\<rparr>"

definition tx0 :: txhash where
  "tx0 = ''0x'' @ replicate 64 (CHR ''a'')"

definition block0 :: Receipt where
  "block0 = \<lparr>r_block_hash = ''b7'', r_block_number = 7\<rparr>"

text \<open>A node that has the transaction in block 7, with that block canonical, and one that lost it.\<close>

definition mined_view :: "uint64 \<Rightarrow> chain_view" where
  "mined_view head = \<lparr>v_head = Inr head, v_receipt = (\<lambda>_. Inr (Some block0)), v_header = (\<lambda>_ _. Inr (Some ''b7''))\<rparr>"

definition lost_view :: chain_view where
  "lost_view = \<lparr>v_head = Inr 10, v_receipt = (\<lambda>_. Inl NotFound), v_header = (\<lambda>_ _. Inl NotFound)\<rparr>"

definition at_phase :: "Phase \<Rightarrow> tracked" where
  "at_phase p = \<lparr>t_phase = p, t_block_hash = ''b7'', t_block_number = 7, t_last_phase = p, t_last_depth = 1\<rparr>"

definition watching :: "Phase \<Rightarrow> Watcher" where
  "watching p = \<lparr>wt_depth = 2, wt_finality = 4, wt_tracked = [tx0 \<mapsto> at_phase p]\<rparr>"

lemma tx0_hex: "isHexTxHash tx0"
  by (simp add: isHexTxHash_def tx0_def is_hex_digit_def nth_append list_all_iff)

lemma watching_ok: "p \<in> {PhasePending, PhaseMined, PhaseConfirmed} \<Longrightarrow> watcher_ok (watching p)"
  using tx0_hex by (auto simp: watching_def watcher_ok_def entry_ok_def at_phase_def)

lemma watching_tracked [simp]: "wt_tracked (watching p) tx0 = Some (at_phase p)" "wt_finality (watching p) = 4"
  "wt_depth (watching p) = 2"
  by (simp_all add: watching_def)

lemma mined_canonical: "canonical_for geth0 (mined_view 10) tx0 block0 4"
  by (simp add: canonical_for_def mined_view_def block0_def geth0_def confirmations_def)

lemmas watcher_run = poll_def poll_tx_def poll_pending_def poll_mined_def poll_confirmed_def verify_anchor_def
  emit_def reverse_def confirmations_def mined_view_def lost_view_def block0_def at_phase_def geth0_def

definition confirmed0 :: Status where
  "confirmed0 = \<lparr>s_tx = tx0, s_phase = PhaseConfirmed, s_block_hash = ''b7'', s_block_number = 7, s_depth = 4\<rparr>"

definition reorged0 :: Status where
  "reorged0 = \<lparr>s_tx = tx0, s_phase = PhaseReorged, s_block_hash = ''b7'', s_block_number = 7, s_depth = 0\<rparr>"

lemma poll_confirmed0: "snd (poll geth0 (mined_view 10) [tx0] (watching PhaseMined)) = [confirmed0]"
  by (simp add: watcher_run confirmed0_def)

lemma poll_reorged0: "snd (poll geth0 lost_view [tx0] (watching PhaseConfirmed)) = [reorged0]"
  by (simp add: watcher_run reorged0_def)

theorem poll_refines_lifecycle_witness:
  "watcher_ok (watching PhaseMined) \<and> lifecycle PhaseMined [confirmed0]
    (map_option t_phase (wt_tracked (fst (poll geth0 (mined_view 10) [tx0] (watching PhaseMined))) tx0))"
  using poll_refines_lifecycle [OF watching_ok [of PhaseMined], of "[tx0]" tx0 _ geth0 "mined_view 10"]
    watching_ok [of PhaseMined]
  by (simp add: poll_confirmed0 about_def confirmed0_def at_phase_def)


theorem poll_transient_witness:
  "wt_tracked (fst (poll geth0 (mined_view 10\<lparr>v_receipt := \<lambda>_. Inl (OpError ''rpc'')\<rparr>) [tx0] (watching PhaseConfirmed))) tx0 =
     Some (at_phase PhaseConfirmed)"
  using poll_transient [of "[tx0]" "mined_view 10\<lparr>v_receipt := \<lambda>_. Inl (OpError ''rpc'')\<rparr>" geth0 tx0 "watching PhaseConfirmed"]
  by simp

theorem canonical_finalizes_witness:
  "\<exists>W1 W2 s1 s2. poll geth0 (mined_view 10) [tx0] (watching PhaseMined) = (W1, s1) \<and>
    poll geth0 (mined_view 10) [tx0] W1 = (W2, s2) \<and> wt_tracked W2 tx0 = None"
  using canonical_finalizes [OF watching_ok [of PhaseMined], of tx0 "at_phase PhaseMined" block0 "[tx0]" geth0
      "mined_view 10" "[tx0]" "mined_view 10"] mined_canonical
  by (force simp: at_phase_def in_block_def block0_def)

theorem confirmed_redelivered_witness:
  "\<exists>t. wt_tracked (fst (watcher_tick geth0 (\<lambda>_ w. (Inl (OpError ''rpc''), w)) (mined_view 10, [tx0]) (watching PhaseMined, ()))) tx0
     = Some t \<and> t_phase t = PhaseMined"
  using confirmed_redelivered [OF watching_ok [of PhaseMined], of "[tx0]" confirmed0 geth0 "mined_view 10"
      "\<lambda>_ w. (Inl (OpError ''rpc''), w)", OF _ _ _ _ _ refl, of "()"]
  by (auto simp: poll_confirmed0) (auto simp: confirmed0_def)

theorem reorged_not_redelivered_witness:
  "snd (poll geth0 lost_view [tx0] (watching PhaseConfirmed)) = [reorged0] \<and>
   about tx0 (snd (poll geth0 lost_view [tx0]
     (fst (watcher_Run geth0 (\<lambda>_ w. (Inl (OpError ''rpc''), w)) [(lost_view, [tx0])]
       (watcher_tick geth0 (\<lambda>_ w. (Inl (OpError ''rpc''), w)) (lost_view, [tx0]) (watching PhaseConfirmed, ())))))) = []"
  using reorged_not_redelivered [of "[tx0]" reorged0 geth0 lost_view "watching PhaseConfirmed" "[(lost_view, [tx0])]"
      "[tx0]" lost_view "\<lambda>_ w. (Inl (OpError ''rpc''), w)" "()"]
  by (simp add: poll_reorged0) (simp add: reorged0_def absent_def lost_view_def)

definition open_row :: Settlement where
  "open_row = \<lparr>st_id = 1, st_payment = 2, st_tx = tx0, st_status = ''pending'', st_entry = None, st_created = 0,
     st_updated = 0, st_block_hash = None, st_block_number = None\<rparr>"

theorem seed_all_idempotent_witness:
  "tx0 \<in> dom (wt_tracked (seed_all geth0 [open_row] \<lparr>wt_depth = 2, wt_finality = 4, wt_tracked = Map.empty\<rparr>)) \<and>
   wt_tracked (seed_all geth0 [open_row] (watching PhaseMined)) tx0 = Some (at_phase PhaseMined)"
  using seed_all_idempotent [of "\<lparr>wt_depth = 2, wt_finality = 4, wt_tracked = Map.empty\<rparr>" geth0 "[open_row]"]
    seed_all_idempotent [of "watching PhaseMined" geth0 "[open_row]"]
  by (simp add: seedable_def tx0_hex open_row_def)

end
