(* ===== verification/Settlement.thy ===== *)
theory Settlement
  imports Growth Watcher
begin

section \<open>Settlement\<close>

text \<open>
  \<open>internal/settlement/settlement.go\<close>: the recorder links a payment to the transaction that settles
  it, and the sink turns the watcher's statuses into ledger entries between the destination of the
  payment and the per-asset clearing account. \<open>settle\<close> and \<open>reverse\<close> post an entry, flip the
  settlement row, and announce the change in one transaction; \<open>finalize\<close> only flips and announces.
  The lemmas give the effect of every status on every row, show that a redelivered status changes
  nothing, that the system invariant survives, and that the clearing account holds what is on chain.
\<close>

subsection \<open>The recorder\<close>

definition Link :: "env \<Rightarrow> uuid \<Rightarrow> string \<Rightarrow> world \<Rightarrow> unit result \<times> world" where
  "Link E paymentID txHash w =
     chk_found (InsertSettlement E paymentID txHash w)
       (\<lambda>w. chk (GetSettlementByTxHash E txHash w) (\<lambda>existing w.
              if st_payment existing \<noteq> paymentID then (Inl (OpError ''already linked''), w) else (Inr (), w)))
       (\<lambda>_ w. (Inr (), w))"

subsection \<open>The sink\<close>

definition settlementEvent :: "env \<Rightarrow> uuid \<Rightarrow> string \<Rightarrow> string \<Rightarrow> int \<Rightarrow> json" where
  "settlementEvent E pid tx asset amount = JObject
     ([(''payment_id'', JString (uuid_String E pid)), (''tx_hash'', JString tx)] @
      (if asset = [] then [] else [(''asset'', JString asset)]) @
      (if amount = 0 then [] else [(''amount'', JNumber amount)]))"

definition houseAccountName :: string where
  "houseAccountName = ''onchain_settlement''"

definition settlement_event :: "env \<Rightarrow> string \<Rightarrow> uuid \<Rightarrow> string \<Rightarrow> string \<Rightarrow> int \<Rightarrow> Event" where
  "settlement_event E typ pid tx asset amount =
     \<lparr>ev_type = typ, ev_aggregate = tx, ev_data = settlementEvent E pid tx asset amount\<rparr>"

definition settlement_audit :: "env \<Rightarrow> string \<Rightarrow> uuid \<Rightarrow> string \<Rightarrow> string \<Rightarrow> int \<Rightarrow> AuditEntry" where
  "settlement_audit E typ pid tx asset amount =
     \<lparr>ae_actor = ''system:chainwatcher'', ae_action = typ, ae_agg_type = ''settlement'',
      ae_agg_id = tx, ae_occurred = None, ae_data = settlementEvent E pid tx asset amount\<rparr>"

text \<open>Both writes end with the event and the audit row.\<close>

definition announce :: "env \<Rightarrow> Event \<Rightarrow> AuditEntry \<Rightarrow> world \<Rightarrow> unit result \<times> world" where
  "announce E e a w = chk (Emit E e w) (\<lambda>_ w. Append E a w)"

definition settle_entry :: "env \<Rightarrow> Settlement \<Rightarrow> Payment \<Rightarrow> Account \<Rightarrow> Status \<Rightarrow> Entry" where
  "settle_entry E sett pay house st =
     \<lparr>en_kind = ''settlement.settle'',
      en_ref = ''settle:'' @ uuid_String E (st_payment sett) @ '':'' @ s_block_hash st,
      en_asset = pay_asset pay,
      en_lines = [\<lparr>ln_account = pay_dest pay, ln_direction = Debit, ln_amount = pay_amount pay\<rparr>,
                  \<lparr>ln_account = acc_id house, ln_direction = Credit, ln_amount = pay_amount pay\<rparr>]\<rparr>"

definition settle :: "env \<Rightarrow> Settlement \<Rightarrow> Payment \<Rightarrow> Account \<Rightarrow> Status \<Rightarrow> world \<Rightarrow> unit result \<times> world" where
  "settle E sett pay house st w =
     (if st_status sett = ''settled'' then (Inr (), w)
      else chk (PostWithin E (settle_entry E sett pay house st) w) (\<lambda>je w.
        chk_found (MarkSettlementSettled E (s_tx st) (je_id je) (s_block_hash st) (sint (s_block_number st)) w)
          (\<lambda>w. (Inr (), w))
          (\<lambda>_ w. announce E
             (settlement_event E ''settlement.confirmed'' (st_payment sett) (s_tx st) (pay_asset pay) (pay_amount pay))
             (settlement_audit E ''settlement.confirmed'' (st_payment sett) (s_tx st) (pay_asset pay) (pay_amount pay))
             w)))"

definition unsettle_entry :: "env \<Rightarrow> Settlement \<Rightarrow> Payment \<Rightarrow> Account \<Rightarrow> Status \<Rightarrow> Entry" where
  "unsettle_entry E sett pay house st =
     \<lparr>en_kind = ''settlement.reversal'',
      en_ref = ''reverse:'' @ uuid_String E (st_payment sett) @ '':'' @ s_block_hash st,
      en_asset = pay_asset pay,
      en_lines = [\<lparr>ln_account = acc_id house, ln_direction = Debit, ln_amount = pay_amount pay\<rparr>,
                  \<lparr>ln_account = pay_dest pay, ln_direction = Credit, ln_amount = pay_amount pay\<rparr>]\<rparr>"

definition sink_reverse :: "env \<Rightarrow> Settlement \<Rightarrow> Payment \<Rightarrow> Account \<Rightarrow> Status \<Rightarrow> world \<Rightarrow> unit result \<times> world" where
  "sink_reverse E sett pay house st w =
     (if st_status sett \<noteq> ''settled'' then (Inr (), w)
      else chk (PostWithin E (unsettle_entry E sett pay house st) w) (\<lambda>_ w.
        chk_found (MarkSettlementReorged E (s_tx st) w)
          (\<lambda>w. (Inr (), w))
          (\<lambda>_ w. announce E
             (settlement_event E ''settlement.reorged'' (st_payment sett) (s_tx st) (pay_asset pay) (pay_amount pay))
             (settlement_audit E ''settlement.reorged'' (st_payment sett) (s_tx st) (pay_asset pay) (pay_amount pay))
             w)))"

definition finalize :: "env \<Rightarrow> Status \<Rightarrow> world \<Rightarrow> unit result \<times> world" where
  "finalize E st = ExecTx E (\<lambda>w.
     chk_found (MarkSettlementFinalized E (s_tx st) w)
       (\<lambda>w. (Inr (), w))
       (\<lambda>sett w. announce E
          (settlement_event E ''settlement.finalized'' (st_payment sett) (s_tx st) [] 0)
          (settlement_audit E ''settlement.finalized'' (st_payment sett) (s_tx st) [] 0) w))"

definition resolve_and :: "env \<Rightarrow> (Settlement \<Rightarrow> Payment \<Rightarrow> Account \<Rightarrow> Status \<Rightarrow> world \<Rightarrow> unit result \<times> world)
    \<Rightarrow> Status \<Rightarrow> world \<Rightarrow> unit result \<times> world" where
  "resolve_and E act st = ExecTx E (\<lambda>w.
     chk_found (GetSettlementByTxHash E (s_tx st) w) (\<lambda>w. (Inr (), w)) (\<lambda>sett w.
     chk (GetPayment E (st_payment sett) w) (\<lambda>pay w.
     chk (GetAccountByNameAndAsset E houseAccountName (pay_asset pay) w) (\<lambda>house w.
       act sett pay house st w))))"

definition OnStatus :: "env \<Rightarrow> Status \<Rightarrow> world \<Rightarrow> unit result \<times> world" where
  "OnStatus E st w =
     (case s_phase st of
        PhaseConfirmed \<Rightarrow> resolve_and E (settle E) st w
      | PhaseReorged \<Rightarrow> resolve_and E (sink_reverse E) st w
      | PhaseFinalized \<Rightarrow> finalize E st w
      | _ \<Rightarrow> (Inr (), w))"

text \<open>
  \<open>rescan\<close> of \<open>cmd/chainwatcher\<close>: one tick lists the open settlements and seeds the watcher with
  them; a failed query skips the tick.
\<close>

definition rescan_tick :: "env \<Rightarrow> geth \<Rightarrow> Watcher \<times> world \<Rightarrow> Watcher \<times> world" where
  "rescan_tick E G ww =
     (case ListPendingSettlements E (snd ww) of
        (Inl e, w) \<Rightarrow> (fst ww, w)
      | (Inr rows, w) \<Rightarrow> (seed_all G rows (fst ww), w))"

subsection \<open>Effects of the statements\<close>

lemma mark_settlement_ok:
  assumes "mark_settlement E hit fk f w = (Inr s', w')"
  shows "\<exists>s now. s \<in> set (settlements (db w)) \<and> hit s \<and> s' = f now s \<and>
    db w' = (db w)\<lparr>settlements := update_where hit (f now) (settlements (db w))\<rparr>"
proof -
  obtain s where s: "List.find hit (settlements (db w)) = Some s"
    using assms by (cases "List.find hit (settlements (db w))") (auto simp: mark_settlement_def query_Inr)
  have "s' = f (pg_now E w) s \<and> w' = w\<lparr>db := (db w)\<lparr>settlements := update_where hit (f (pg_now E w)) (settlements (db w))\<rparr>,
      tick := Suc (tick w)\<rparr>"
    using assms unfolding mark_settlement_def statement_Inr s option.case by blast
  with find_Some_in [OF s] show ?thesis by (intro exI [of _ s] exI [of _ "pg_now E w"]) simp
qed

lemma mark_settlement_none:
  assumes "mark_settlement E hit fk f w = (Inl e, w')" "errorsIs e ErrNoRows"
  shows "db w' = db w" "\<And>s. s \<in> set (settlements (db w)) \<Longrightarrow> \<not> hit s"
proof -
  show "db w' = db w" using assms(1) by (auto simp: mark_settlement_def dest: query_err_db)
  have "List.find hit (settlements (db w)) = None"
    using assms by (auto simp: mark_settlement_def query_def split: if_splits option.splits)
  then show "\<And>s. s \<in> set (settlements (db w)) \<Longrightarrow> \<not> hit s" by (auto simp: find_None_iff)
qed

lemma GetSettlement_ok:
  "GetSettlementByTxHash E tx w = (Inr s, w') \<Longrightarrow>
     List.find (\<lambda>s. st_tx s = tx) (settlements (db w)) = Some s \<and> db w' = db w"
  unfolding GetSettlementByTxHash_def by (auto elim!: reading_okE simp: one_row_def split: option.splits)

lemma GetSettlement_none:
  "GetSettlementByTxHash E tx w = (Inl e, w') \<Longrightarrow> errorsIs e ErrNoRows \<Longrightarrow>
     List.find (\<lambda>s. st_tx s = tx) (settlements (db w)) = None \<and> db w' = db w"
  unfolding GetSettlementByTxHash_def reading_def query_def
  by (auto simp: one_row_def split: option.splits if_splits)

lemma GetAccountByName_ok:
  "GetAccountByNameAndAsset E n a w = (Inr h, w') \<Longrightarrow>
     List.find (\<lambda>x. acc_name x = n \<and> acc_asset x = a) (accounts (db w)) = Some h \<and> db w' = db w"
  unfolding GetAccountByNameAndAsset_def by (auto elim!: reading_okE simp: one_row_def split: option.splits)

lemma announce_ok:
  "announce E e a w = (Inr u, w') \<Longrightarrow> log_ok E (db w) \<Longrightarrow> micro_exact E \<Longrightarrow> announced E e a (db w) (db w')"
  unfolding announce_def by (elim chk_okE) (rule announced_ok(1))

subsection \<open>What a status does to the tables\<close>

definition flip :: "string \<Rightarrow> (Settlement \<Rightarrow> Settlement) \<Rightarrow> tables \<Rightarrow> tables" where
  "flip tx f t = t\<lparr>settlements := update_where (\<lambda>s. st_tx s = tx) f (settlements t)\<rparr>"

definition settled_row :: "uuid \<Rightarrow> Status \<Rightarrow> time \<Rightarrow> Settlement \<Rightarrow> Settlement" where
  "settled_row entry st now s = s\<lparr>st_status := ''settled'', st_entry := Some entry,
     st_block_hash := Some (s_block_hash st), st_block_number := Some (sint (s_block_number st)), st_updated := now\<rparr>"

definition reorged_row :: "time \<Rightarrow> Settlement \<Rightarrow> Settlement" where
  "reorged_row now s = s\<lparr>st_status := ''reorged'', st_block_hash := None, st_block_number := None, st_updated := now\<rparr>"

definition finalized_row :: "time \<Rightarrow> Settlement \<Rightarrow> Settlement" where
  "finalized_row now s = s\<lparr>st_status := ''finalized'', st_updated := now\<rparr>"

definition row_of_tx :: "tables \<Rightarrow> string \<Rightarrow> Settlement option" where
  "row_of_tx t tx = List.find (\<lambda>s. st_tx s = tx) (settlements t)"

definition house_of :: "tables \<Rightarrow> string \<Rightarrow> Account option" where
  "house_of t asset = List.find (\<lambda>a. acc_name a = houseAccountName \<and> acc_asset a = asset) (accounts t)"

text \<open>A journal entry posted between the destination of the row's payment and the clearing account.\<close>

definition moved :: "(Payment \<Rightarrow> Account \<Rightarrow> Entry) \<Rightarrow> Settlement \<Rightarrow> Payment \<Rightarrow> JournalEntry \<Rightarrow> tables \<Rightarrow> tables \<Rightarrow> bool" where
  "moved entry s p je t t1 \<longleftrightarrow>
     (\<exists>h. p \<in> set (payments t) \<and> pay_id p = st_payment s \<and> house_of t (pay_asset p) = Some h \<and>
          postable (entry p h) t \<and> posted (entry p h) je t t1 \<and> je_id je \<notin> je_id ` set (journal t))"

definition told :: "env \<Rightarrow> string \<Rightarrow> Settlement \<Rightarrow> string \<Rightarrow> int \<Rightarrow> tables \<Rightarrow> tables \<Rightarrow> bool" where
  "told E typ s asset amount = announced E (settlement_event E typ (st_payment s) (st_tx s) asset amount)
     (settlement_audit E typ (st_payment s) (st_tx s) asset amount)"

definition confirm_effect :: "env \<Rightarrow> Status \<Rightarrow> Settlement \<Rightarrow> tables \<Rightarrow> tables \<Rightarrow> bool" where
  "confirm_effect E st s t t' \<longleftrightarrow>
     (if st_status s = ''settled'' then t' = t
      else \<exists>p je t1. moved (\<lambda>p h. settle_entry E s p h st) s p je t t1 \<and>
        (if st_status s \<in> {''pending'', ''reorged''}
         then \<exists>now. told E ''settlement.confirmed'' s (pay_asset p) (pay_amount p)
                (flip (s_tx st) (settled_row (je_id je) st now) t1) t'
         else t' = t1))"

definition reorg_effect :: "env \<Rightarrow> Status \<Rightarrow> Settlement \<Rightarrow> tables \<Rightarrow> tables \<Rightarrow> bool" where
  "reorg_effect E st s t t' \<longleftrightarrow>
     (if st_status s \<noteq> ''settled'' then t' = t
      else \<exists>p je t1 now. moved (\<lambda>p h. unsettle_entry E s p h st) s p je t t1 \<and>
        told E ''settlement.reorged'' s (pay_asset p) (pay_amount p) (flip (s_tx st) (reorged_row now) t1) t')"

definition finalize_effect :: "env \<Rightarrow> Status \<Rightarrow> Settlement \<Rightarrow> tables \<Rightarrow> tables \<Rightarrow> bool" where
  "finalize_effect E st s t t' \<longleftrightarrow>
     (if st_status s \<noteq> ''settled'' then t' = t
      else \<exists>now. told E ''settlement.finalized'' s [] 0 (flip (s_tx st) (finalized_row now) t) t')"

definition status_effect :: "env \<Rightarrow> Status \<Rightarrow> tables \<Rightarrow> tables \<Rightarrow> bool" where
  "status_effect E st t t' \<longleftrightarrow>
     (case row_of_tx t (s_tx st) of
        None \<Rightarrow> t' = t
      | Some s \<Rightarrow>
          (case s_phase st of
             PhaseConfirmed \<Rightarrow> confirm_effect E st s t t'
           | PhaseReorged \<Rightarrow> reorg_effect E st s t t'
           | PhaseFinalized \<Rightarrow> finalize_effect E st s t t'
           | _ \<Rightarrow> t' = t))"

lemma row_of_txD: "row_of_tx t tx = Some s \<Longrightarrow> s \<in> set (settlements t) \<and> st_tx s = tx"
  unfolding row_of_tx_def by (auto dest: find_Some_in)

text \<open>With unique transaction hashes a guarded update touches the row found, or none.\<close>

lemma mark_row:
  assumes "distinct (map st_tx (settlements t))" "row_of_tx t tx = Some s" "P s"
  shows "update_where (\<lambda>s. st_tx s = tx \<and> P s) f (settlements t) = update_where (\<lambda>s. st_tx s = tx) f (settlements t)"
  using update_where_by_key [OF assms(1), of s "\<lambda>s. st_tx s = tx \<and> P s"] row_of_txD [OF assms(2)] assms(3) by simp

lemma only_row:
  assumes "distinct (map st_tx (settlements t))" "row_of_tx t tx = Some s" "s' \<in> set (settlements t)" "st_tx s' = tx"
  shows "s' = s"
  using inj_onD [of st_tx "set (settlements t)" s' s] row_of_txD [OF assms(2)] assms by (simp add: distinct_map)

text \<open>The transaction of \<open>settle\<close> and \<open>reverse\<close>: resolve the row, the payment and the clearing account.\<close>

lemma resolve_and_ok:
  assumes "resolve_and E act st w = (Inr (), w')"
  shows "row_of_tx (db w) (s_tx st) = None \<and> db w' = db w \<or>
    (\<exists>s p h w1 w2. row_of_tx (db w) (s_tx st) = Some s \<and> p \<in> set (payments (db w)) \<and> pay_id p = st_payment s \<and>
       house_of (db w) (pay_asset p) = Some h \<and> db w1 = db w \<and> act s p h st w1 = (Inr (), w2) \<and> db w' = db w2)"
proof -
  obtain w1 w2 where w1: "db w1 = db w" and w': "db w' = db w2" and
    run: "chk_found (GetSettlementByTxHash E (s_tx st) w1) (\<lambda>w. (Inr (), w)) (\<lambda>sett w.
     chk (GetPayment E (st_payment sett) w) (\<lambda>pay w.
     chk (GetAccountByNameAndAsset E houseAccountName (pay_asset pay) w) (\<lambda>house w.
       act sett pay house st w))) = (Inr (), w2)"
    by (rule sql.exec_okE [OF assms [unfolded resolve_and_def]]) simp
  from run show ?thesis
  proof (cases rule: chk_found_okE)
    case (absent e wx)
    with GetSettlement_none [OF absent(1,2)] w1 w' show ?thesis by (simp add: row_of_tx_def)
  next
    case (found s wx)
    from found(2) obtain p wy h wz where
      p: "GetPayment E (st_payment s) wx = (Inr p, wy)"
      and h: "GetAccountByNameAndAsset E houseAccountName (pay_asset p) wy = (Inr h, wz)"
      and a: "act s p h st wz = (Inr (), w2)" by (elim chk_okE)
    note s' = GetSettlement_ok [OF found(1)] and p' = GetPayment_ok [OF p] and h' = GetAccountByName_ok [OF h]
    have "db wz = db w" using s' p' h' w1 by simp
    moreover have "row_of_tx (db w) (s_tx st) = Some s" "house_of (db w) (pay_asset p) = Some h"
      using s' p' h' w1 by (simp_all add: row_of_tx_def house_of_def)
    ultimately show ?thesis using s' p' h' a w1 w' by metis
  qed
qed


lemma settle_ok:
  assumes "settle E s p h st w = (Inr (), w')" "ledger_ok (db w)" "log_ok E (db w)" "micro_exact E"
    "distinct (map st_tx (settlements (db w)))" "row_of_tx (db w) (s_tx st) = Some s"
    "p \<in> set (payments (db w))" "pay_id p = st_payment s" "house_of (db w) (pay_asset p) = Some h"
  shows "confirm_effect E st s (db w) (db w')"
proof (cases "st_status s = ''settled''")
  case True
  with assms(1) show ?thesis by (simp add: settle_def confirm_effect_def)
next
  case False
  let ?e = "settle_entry E s p h st"
  from False assms(1) obtain je w1 where po: "PostWithin E ?e w = (Inr je, w1)"
    and mk: "chk_found (MarkSettlementSettled E (s_tx st) (je_id je) (s_block_hash st) (sint (s_block_number st)) w1)
          (\<lambda>w. (Inr (), w))
          (\<lambda>_ w. announce E
             (settlement_event E ''settlement.confirmed'' (st_payment s) (s_tx st) (pay_asset p) (pay_amount p))
             (settlement_audit E ''settlement.confirmed'' (st_payment s) (s_tx st) (pay_asset p) (pay_amount p))
             w) = (Inr (), w')"
    unfolding settle_def by (auto elim: chk_okE)
  note po' = PostWithin_ok [OF po ledger_okD(1) [OF assms(2)]]
  note tabs = posted_tables [OF po'(2)]
  have mv: "moved (\<lambda>p h. settle_entry E s p h st) s p je (db w) (db w1)"
    unfolding moved_def using po'(1-3) assms(7-9) by blast
  have st1: "settlements (db w1) = settlements (db w)" "row_of_tx (db w1) (s_tx st) = Some s"
    using tabs assms(6) by (simp_all add: row_of_tx_def)
  from mk show ?thesis
  proof (cases rule: chk_found_okE)
    case (absent e w2)
    note none = mark_settlement_none [OF absent(1) [unfolded MarkSettlementSettled_def] absent(2)]
    have "st_status s \<notin> {''pending'', ''reorged''}"
      using none(2) [of s] row_of_txD [OF st1(2)] by auto
    with False mv none(1) absent(3) show ?thesis unfolding confirm_effect_def by auto
  next
    case (found s' w2)
    let ?P = "\<lambda>s. st_tx s = s_tx st \<and> st_status s \<in> {''pending'', ''reorged''}"
    from mark_settlement_ok [OF found(1) [unfolded MarkSettlementSettled_def]] obtain s0 now where
      s0: "s0 \<in> set (settlements (db w1))" "?P s0"
      and d2: "db w2 = (db w1)\<lparr>settlements := update_where ?P (settled_row (je_id je) st now) (settlements (db w1))\<rparr>"
      unfolding settled_row_def by blast
    have s0s: "s0 = s" using only_row [of "db w1" "s_tx st" s s0] assms(5) st1 s0 by simp
    have "db w2 = flip (s_tx st) (settled_row (je_id je) st now) (db w1)"
      using mark_row [of "db w1" "s_tx st" s "\<lambda>s. st_status s \<in> {''pending'', ''reorged''}"] assms(5) st1 s0 s0s d2
      by (simp add: flip_def)
    moreover have "log_ok E (db w2)" using assms(3) tabs(6) d2 by (simp add: log_ok_def)
    note announce_ok [OF found(2) this assms(4)]
    ultimately have "told E ''settlement.confirmed'' s (pay_asset p) (pay_amount p)
        (flip (s_tx st) (settled_row (je_id je) st now) (db w1)) (db w')"
      using row_of_txD [OF assms(6)] by (simp add: told_def)
    with False mv s0 s0s show ?thesis unfolding confirm_effect_def by auto
  qed
qed

lemma sink_reverse_ok:
  assumes "sink_reverse E s p h st w = (Inr (), w')" "ledger_ok (db w)" "log_ok E (db w)" "micro_exact E"
    "distinct (map st_tx (settlements (db w)))" "row_of_tx (db w) (s_tx st) = Some s"
    "p \<in> set (payments (db w))" "pay_id p = st_payment s" "house_of (db w) (pay_asset p) = Some h"
  shows "reorg_effect E st s (db w) (db w')"
proof (cases "st_status s = ''settled''")
  case False
  with assms(1) show ?thesis by (simp add: sink_reverse_def reorg_effect_def)
next
  case True
  let ?e = "unsettle_entry E s p h st"
  from True assms(1) obtain je w1 where po: "PostWithin E ?e w = (Inr je, w1)"
    and mk: "chk_found (MarkSettlementReorged E (s_tx st) w1)
          (\<lambda>w. (Inr (), w))
          (\<lambda>_ w. announce E
             (settlement_event E ''settlement.reorged'' (st_payment s) (s_tx st) (pay_asset p) (pay_amount p))
             (settlement_audit E ''settlement.reorged'' (st_payment s) (s_tx st) (pay_asset p) (pay_amount p))
             w) = (Inr (), w')"
    unfolding sink_reverse_def by (auto elim: chk_okE)
  note po' = PostWithin_ok [OF po ledger_okD(1) [OF assms(2)]]
  note tabs = posted_tables [OF po'(2)]
  have mv: "moved (\<lambda>p h. unsettle_entry E s p h st) s p je (db w) (db w1)"
    unfolding moved_def using po'(1-3) assms(7-9) by blast
  have st1: "settlements (db w1) = settlements (db w)" "row_of_tx (db w1) (s_tx st) = Some s"
    using tabs assms(6) by (simp_all add: row_of_tx_def)
  from mk show ?thesis
  proof (cases rule: chk_found_okE)
    case (absent e w2)
    note none = mark_settlement_none [OF absent(1) [unfolded MarkSettlementReorged_def] absent(2)]
    show ?thesis using none(2) [of s] row_of_txD [OF st1(2)] True by simp
  next
    case (found s' w2)
    let ?P = "\<lambda>s. st_tx s = s_tx st \<and> st_status s = ''settled''"
    from mark_settlement_ok [OF found(1) [unfolded MarkSettlementReorged_def]] obtain now where
      d2: "db w2 = (db w1)\<lparr>settlements := update_where ?P (reorged_row now) (settlements (db w1))\<rparr>"
      unfolding reorged_row_def by blast
    have "db w2 = flip (s_tx st) (reorged_row now) (db w1)"
      using mark_row [of "db w1" "s_tx st" s "\<lambda>s. st_status s = ''settled''"] assms(5) st1 True d2
      by (simp add: flip_def)
    moreover have "log_ok E (db w2)" using assms(3) tabs(6) d2 by (simp add: log_ok_def)
    note announce_ok [OF found(2) this assms(4)]
    ultimately have "told E ''settlement.reorged'' s (pay_asset p) (pay_amount p)
        (flip (s_tx st) (reorged_row now) (db w1)) (db w')"
      using row_of_txD [OF assms(6)] by (simp add: told_def)
    with True mv show ?thesis unfolding reorg_effect_def by auto
  qed
qed

lemma finalize_ok:
  assumes "finalize E st w = (Inr (), w')" "log_ok E (db w)" "micro_exact E"
    "distinct (map st_tx (settlements (db w)))"
  shows "case row_of_tx (db w) (s_tx st) of None \<Rightarrow> db w' = db w | Some s \<Rightarrow> finalize_effect E st s (db w) (db w')"
proof -
  let ?P = "\<lambda>s. st_tx s = s_tx st \<and> st_status s = ''settled''"
  obtain w1 w2 where w1: "db w1 = db w" and w': "db w' = db w2" and
    run: "chk_found (MarkSettlementFinalized E (s_tx st) w1) (\<lambda>w. (Inr (), w))
       (\<lambda>sett w. announce E
          (settlement_event E ''settlement.finalized'' (st_payment sett) (s_tx st) [] 0)
          (settlement_audit E ''settlement.finalized'' (st_payment sett) (s_tx st) [] 0) w) = (Inr (), w2)"
    by (rule sql.exec_okE [OF assms(1) [unfolded finalize_def]]) simp
  from run show ?thesis
  proof (cases rule: chk_found_okE)
    case (absent e w2)
    note none = mark_settlement_none [OF absent(1) [unfolded MarkSettlementFinalized_def] absent(2)]
    show ?thesis
      using none absent(3) w1 w' row_of_txD
      by (fastforce simp: finalize_effect_def split: option.splits)
  next
    case (found s' wm)
    from mark_settlement_ok [OF found(1) [unfolded MarkSettlementFinalized_def]] obtain s now where
      s: "s \<in> set (settlements (db w))" "?P s" "s' = finalized_row now s"
      and d2: "db wm = (db w)\<lparr>settlements := update_where ?P (finalized_row now) (settlements (db w))\<rparr>"
      unfolding finalized_row_def w1 by blast
    have row: "row_of_tx (db w) (s_tx st) = Some s"
      unfolding row_of_tx_def by (rule find_by_key [OF assms(4) s(1)]) (use s(2) in simp)
    have "db wm = flip (s_tx st) (finalized_row now) (db w)"
      using mark_row [OF assms(4) row, of "\<lambda>s. st_status s = ''settled''"] s(2) d2 by (simp add: flip_def)
    moreover have "log_ok E (db wm)" using assms(2) d2 by (simp add: log_ok_def)
    note announce_ok [OF found(2) this assms(3)]
    ultimately have "told E ''settlement.finalized'' s [] 0 (flip (s_tx st) (finalized_row now) (db w)) (db w')"
      using s(2,3) w' by (simp add: told_def finalized_row_def)
    with row s(2) show ?thesis by (auto simp: finalize_effect_def)
  qed
qed

lemma OnStatus_ok:
  assumes "OnStatus E st w = (Inr (), w')" "ledger_ok (db w)" "log_ok E (db w)" "micro_exact E"
    "distinct (map st_tx (settlements (db w)))"
  shows "status_effect E st (db w) (db w')"
proof (cases "s_phase st")
  case PhaseConfirmed
  with assms(1) have "resolve_and E (settle E) st w = (Inr (), w')" by (simp add: OnStatus_def)
  from resolve_and_ok [OF this] show ?thesis
  proof (elim disjE exE conjE)
    fix s p h w1 w2
    assume a: "row_of_tx (db w) (s_tx st) = Some s" "p \<in> set (payments (db w))" "pay_id p = st_payment s"
      "house_of (db w) (pay_asset p) = Some h" "db w1 = db w" "settle E s p h st w1 = (Inr (), w2)" "db w' = db w2"
    have "confirm_effect E st s (db w1) (db w2)"
      by (rule settle_ok [OF a(6)]) (use a(1-5) assms(2-5) in simp_all)
    with a PhaseConfirmed show ?thesis by (simp add: status_effect_def)
  qed (simp add: status_effect_def)
next
  case PhaseReorged
  with assms(1) have "resolve_and E (sink_reverse E) st w = (Inr (), w')" by (simp add: OnStatus_def)
  from resolve_and_ok [OF this] show ?thesis
  proof (elim disjE exE conjE)
    fix s p h w1 w2
    assume a: "row_of_tx (db w) (s_tx st) = Some s" "p \<in> set (payments (db w))" "pay_id p = st_payment s"
      "house_of (db w) (pay_asset p) = Some h" "db w1 = db w" "sink_reverse E s p h st w1 = (Inr (), w2)" "db w' = db w2"
    have "reorg_effect E st s (db w1) (db w2)"
      by (rule sink_reverse_ok [OF a(6)]) (use a(1-5) assms(2-5) in simp_all)
    with a PhaseReorged show ?thesis by (simp add: status_effect_def)
  qed (simp add: status_effect_def)
next
  case PhaseFinalized
  with finalize_ok [of E st w w'] assms show ?thesis
    by (auto simp: OnStatus_def status_effect_def split: option.splits)
qed (use assms(1) in \<open>auto simp: OnStatus_def status_effect_def split: option.splits\<close>)

lemma OnStatus_err: "OnStatus E st w = (Inl e, w') \<Longrightarrow> db w' = db w"
  by (auto simp: OnStatus_def resolve_and_def finalize_def split: Phase.splits dest: sql.exec_err)

lemma append_only_announce [frames]: "frame append_only (announce E e a)"
  unfolding announce_def by (intro frames)

lemma append_only_resolve [frames]:
  "(\<And>s p h. frame append_only (act s p h st)) \<Longrightarrow> frame append_only (resolve_and E act st)"
  unfolding resolve_and_def by (intro frames)

lemma append_only_sink [frames]:
  "frame append_only (settle E s p h st)" "frame append_only (sink_reverse E s p h st)"
  "frame append_only (finalize E st)" "frame append_only (Link E i tx)"
  unfolding settle_def sink_reverse_def finalize_def Link_def by (intro frames)+

lemma append_only_OnStatus [frames]: "frame append_only (OnStatus E st)"
proof -
  have "frame append_only (resolve_and E (settle E) st)" "frame append_only (resolve_and E (sink_reverse E) st)"
    "frame append_only (finalize E st)" by (intro frames)+
  then show ?thesis by (simp add: frame_def OnStatus_def growth.R_refl split: Phase.splits)
qed

subsection \<open>The invariant\<close>

definition settle_ref :: "env \<Rightarrow> Settlement \<Rightarrow> string \<Rightarrow> string" where
  "settle_ref E s bh = ''settle:'' @ uuid_String E (st_payment s) @ '':'' @ bh"

definition settlement_ok :: "env \<Rightarrow> tables \<Rightarrow> Settlement \<Rightarrow> bool" where
  "settlement_ok E t s \<longleftrightarrow> st_payment s \<in> pay_id ` set (payments t) \<and>
     (st_status s \<in> {''pending'', ''reorged''} \<and> st_block_hash s = None \<and> st_block_number s = None \<or>
      st_status s \<in> {''settled'', ''finalized''} \<and>
        (\<exists>bh i. st_block_hash s = Some bh \<and> st_entry s = Some i \<and>
           posted_as t i ''settlement.settle'' (settle_ref E s bh)))"

definition system_ok :: "env \<Rightarrow> tables \<Rightarrow> bool" where
  "system_ok E t \<longleftrightarrow> rail_ok E t \<and> distinct (map st_tx (settlements t)) \<and>
     (\<forall>s \<in> set (settlements t). settlement_ok E t s)"

lemma system_okD:
  assumes "system_ok E t"
  shows "rail_ok E t" "distinct (map st_tx (settlements t))" "\<And>s. s \<in> set (settlements t) \<Longrightarrow> settlement_ok E t s"
  using assms by (simp_all add: system_ok_def)

lemma settlement_ok_mono:
  "settlement_ok E t s \<Longrightarrow> set (journal t) \<subseteq> set (journal t') \<Longrightarrow>
     pay_id ` set (payments t) \<subseteq> pay_id ` set (payments t') \<Longrightarrow> settlement_ok E t' s"
  using posted_as_mono [of t _ _ _ t'] by (auto simp: settlement_ok_def)

lemma rail_ok_tables:
  assumes "accounts t' = accounts t" "journal t' = journal t" "elines t' = elines t" "payments t' = payments t"
    "audit t' = audit t" "outbox t' = outbox t"
  shows "rail_ok E t' \<longleftrightarrow> rail_ok E t"
  using assms ledger_ok_tables [OF assms(1-3)] by (simp add: rail_ok_def payment_ok_def posted_as_def)

lemma flip_tables [simp]:
  "accounts (flip tx f t) = accounts t" "journal (flip tx f t) = journal t" "elines (flip tx f t) = elines t"
  "payments (flip tx f t) = payments t" "audit (flip tx f t) = audit t" "outbox (flip tx f t) = outbox t"
  "settlements (flip tx f t) = update_where (\<lambda>s. st_tx s = tx) f (settlements t)"
  by (simp_all add: flip_def)

lemma moved_rail:
  assumes "moved entry s p je t t1" "rail_ok E t" "\<And>h. int64 (pay_amount p) \<Longrightarrow> fits (en_lines (entry p h))"
  shows "rail_ok E t1" "settlements t1 = settlements t" "payments t1 = payments t" "accounts t1 = accounts t"
    "set (journal t) \<subseteq> set (journal t1)"
    "\<exists>h. house_of t (pay_asset p) = Some h \<and> posted_as t1 (je_id je) (en_kind (entry p h)) (en_ref (entry p h)) \<and>
       (\<forall>a. balance t1 a = balance t a + net_effect (en_lines (entry p h)) a)"
proof -
  from assms(1) obtain h where p: "p \<in> set (payments t)" and h: "house_of t (pay_asset p) = Some h"
    and po: "postable (entry p h) t" "posted (entry p h) je t t1" "je_id je \<notin> je_id ` set (journal t)"
    unfolding moved_def by blast
  have "int64 (pay_amount p)" using rail_okD(3) [OF assms(2) p] by (simp add: payment_ok_def)
  note r = posted_rail [OF assms(2) po assms(3) [OF this]]
  note T = posted_tables [OF po(2)]
  show "settlements t1 = settlements t" "payments t1 = payments t" "accounts t1 = accounts t"
    "set (journal t) \<subseteq> set (journal t1)" using T r by simp_all
  show "rail_ok E t1"
    using assms(2) r(1,2) T payment_ok_mono [of E t _ t1] by (simp add: rail_ok_def)
  show "\<exists>h. house_of t (pay_asset p) = Some h \<and> posted_as t1 (je_id je) (en_kind (entry p h)) (en_ref (entry p h)) \<and>
       (\<forall>a. balance t1 a = balance t a + net_effect (en_lines (entry p h)) a)"
    using h r(3) posted_balance [OF po(2)] by blast
qed

lemma settle_entries_fit:
  "int64 (pay_amount p) \<Longrightarrow> fits (en_lines (settle_entry E s p h st))"
  "int64 (pay_amount p) \<Longrightarrow> fits (en_lines (unsettle_entry E s p h st))"
  by (simp_all add: settle_entry_def unsettle_entry_def fits_two)

lemma told_rail:
  assumes "told E typ s a m t t'" "rail_ok E t"
  shows "rail_ok E t'"
  using assms(2) announced_tables [OF assms(1) [unfolded told_def]] announced_chain [OF assms(1) [unfolded told_def]]
    announced_outbox [OF assms(1) [unfolded told_def]] ledger_ok_tables [of t' t]
  by (simp add: rail_ok_def payment_ok_def posted_as_def)

lemma told_system:
  assumes "told E typ s0 a m (flip tx f t1) t'" "system_ok E t" "rail_ok E t1" "settlements t1 = settlements t"
    "payments t1 = payments t" "set (journal t) \<subseteq> set (journal t1)" "\<And>s. st_tx (f s) = st_tx s"
    "\<And>s. s \<in> set (settlements t) \<Longrightarrow> st_tx s = tx \<Longrightarrow> settlement_ok E t1 (f s)"
  shows "system_ok E t'"
proof -
  note T = announced_tables [OF assms(1) [unfolded told_def]]
  have r: "rail_ok E t'"
    by (rule told_rail [OF assms(1)]) (simp add: rail_ok_tables [of "flip tx f t1" t1] assms(3))
  have "settlement_ok E t1 s" if s: "s \<in> set (update_where (\<lambda>s. st_tx s = tx) f (settlements t))" for s
  proof -
    from s obtain s1 where s1: "s1 \<in> set (settlements t)" "s = (if st_tx s1 = tx then f s1 else s1)"
      by (auto simp: update_where_def)
    then show ?thesis
      using assms(5,6,8) settlement_ok_mono [OF system_okD(3) [OF assms(2) s1(1)], of t1] by simp
  qed
  then have "\<forall>s \<in> set (settlements t'). settlement_ok E t' s"
    using T assms(4) settlement_ok_mono [of E t1 _ t'] by simp
  moreover have "distinct (map st_tx (settlements t'))"
    using T assms(4,7) system_okD(2) [OF assms(2)] by simp
  ultimately show ?thesis using r by (simp add: system_ok_def)
qed

lemma row_system:
  assumes "system_ok E t" "row_of_tx t tx = Some s"
  shows "settlement_ok E t s" "\<And>s'. s' \<in> set (settlements t) \<Longrightarrow> st_tx s' = tx \<Longrightarrow> s' = s"
  using system_okD(3) [OF assms(1)] row_of_txD [OF assms(2)] only_row [OF system_okD(2) [OF assms(1)] assms(2)]
  by blast+

lemma confirm_system_ok:
  assumes "confirm_effect E st s t t'" "system_ok E t" "row_of_tx t (s_tx st) = Some s"
  shows "system_ok E t'"
proof (cases "st_status s = ''settled''")
  case False
  with assms(1) obtain p je t1 where mv: "moved (\<lambda>p h. settle_entry E s p h st) s p je t t1"
    and eff: "if st_status s \<in> {''pending'', ''reorged''}
         then \<exists>now. told E ''settlement.confirmed'' s (pay_asset p) (pay_amount p)
                (flip (s_tx st) (settled_row (je_id je) st now) t1) t'
         else t' = t1"
    by (auto simp: confirm_effect_def)
  note m = moved_rail [OF mv system_okD(1) [OF assms(2)] settle_entries_fit(1)]
  note row = row_system [OF assms(2,3)]
  show ?thesis
  proof (cases "st_status s \<in> {''pending'', ''reorged''}")
    case True
    with eff obtain now where told: "told E ''settlement.confirmed'' s (pay_asset p) (pay_amount p)
            (flip (s_tx st) (settled_row (je_id je) st now) t1) t'" by auto
    have "settlement_ok E t1 (settled_row (je_id je) st now s)"
      using row(1) m(3,6) by (auto simp: settlement_ok_def settled_row_def settle_entry_def settle_ref_def)
    then show ?thesis
      using row(2) by (intro told_system [OF told assms(2) m(1,2,3,5)]) (auto simp: settled_row_def)
  next
    case False
    with eff m assms(2) settlement_ok_mono [of E t _ t1] show ?thesis by (simp add: system_ok_def)
  qed
qed (use assms in \<open>simp add: confirm_effect_def\<close>)

lemma reorg_system_ok:
  assumes "reorg_effect E st s t t'" "system_ok E t" "row_of_tx t (s_tx st) = Some s"
  shows "system_ok E t'"
proof (cases "st_status s = ''settled''")
  case True
  with assms(1) obtain p je t1 now where mv: "moved (\<lambda>p h. unsettle_entry E s p h st) s p je t t1"
    and told: "told E ''settlement.reorged'' s (pay_asset p) (pay_amount p) (flip (s_tx st) (reorged_row now) t1) t'"
    by (auto simp: reorg_effect_def)
  note m = moved_rail [OF mv system_okD(1) [OF assms(2)] settle_entries_fit(2)]
  note row = row_system [OF assms(2,3)]
  have "settlement_ok E t1 (reorged_row now s)"
    using row(1) m(3) by (auto simp: settlement_ok_def reorged_row_def)
  then show ?thesis
    using row(2) by (intro told_system [OF told assms(2) m(1,2,3,5)]) (auto simp: reorged_row_def)
qed (use assms in \<open>simp add: reorg_effect_def\<close>)

lemma finalize_system_ok:
  assumes "finalize_effect E st s t t'" "system_ok E t" "row_of_tx t (s_tx st) = Some s"
  shows "system_ok E t'"
proof (cases "st_status s = ''settled''")
  case True
  with assms(1) obtain now where
    told: "told E ''settlement.finalized'' s [] 0 (flip (s_tx st) (finalized_row now) t) t'"
    by (auto simp: finalize_effect_def)
  note row = row_system [OF assms(2,3)]
  have "settlement_ok E t (finalized_row now s)"
    using row(1) True by (auto simp: settlement_ok_def finalized_row_def settle_ref_def)
  then show ?thesis
    using row(2) system_okD(1) [OF assms(2)]
    by (intro told_system [OF told assms(2)]) (auto simp: finalized_row_def)
qed (use assms in \<open>simp add: finalize_effect_def\<close>)

lemma status_system_ok:
  assumes "status_effect E st t t'" "system_ok E t"
  shows "system_ok E t'"
proof (cases "row_of_tx t (s_tx st)")
  case (Some s)
  with assms show ?thesis
    using confirm_system_ok [OF _ assms(2) Some] reorg_system_ok [OF _ assms(2) Some]
      finalize_system_ok [OF _ assms(2) Some]
    by (simp add: status_effect_def split: Phase.splits)
qed (use assms in \<open>simp add: status_effect_def\<close>)

lemma OnStatus_system_ok:
  assumes "system_ok E (db w)" "micro_exact E" "int (length (audit (db w))) < 9223372036854775807"
  shows "system_ok E (db (snd (OnStatus E st w)))"
proof (cases "OnStatus E st w")
  case (Pair r w')
  have "log_ok E (db w)" using rail_okD(4) [OF system_okD(1) [OF assms(1)]] assms(3) by (simp add: log_ok_def)
  then show ?thesis
    using Pair OnStatus_ok [of E st w w'] status_system_ok [of E st "db w" "db w'"] assms(1,2)
      rail_okD(1) [OF system_okD(1) [OF assms(1)]] system_okD(2) [OF assms(1)] OnStatus_err [of E st w _ w']
    by (cases r) auto
qed

lemma Link_effect:
  assumes "Link E i tx w = (r, w')"
  shows "db w' = db w \<or> (\<exists>s. db w' = (db w)\<lparr>settlements := settlements (db w) @ [s]\<rparr> \<and> r = Inr () \<and>
    st_payment s = i \<and> st_tx s = tx \<and> st_status s = ''pending'' \<and> st_block_hash s = None \<and> st_block_number s = None \<and>
    i \<in> pay_id ` set (payments (db w)) \<and> tx \<notin> st_tx ` set (settlements (db w)))"
proof (cases "InsertSettlement E i tx w")
  case (Pair q w1)
  show ?thesis
  proof (cases q)
    case (Inl e)
    have "db w1 = db w" using Pair Inl unfolding InsertSettlement_def by (simp add: query_err_db)
    moreover have "frame (=) (GetSettlementByTxHash E tx)"
      by (simp add: frame_def GetSettlementByTxHash_def reading_db)
    ultimately show ?thesis
      using assms Pair Inl frame_snd [of "(=)" "GetSettlementByTxHash E tx" w1]
      by (auto simp: Link_def chk_def split: if_splits prod.splits sum.splits)
  next
    case (Inr s)
    with Pair assms have w': "w' = w1" "r = Inr ()" by (simp_all add: Link_def)
    from Pair [unfolded Inr] show ?thesis
      unfolding InsertSettlement_def w' by (elim query_okE) (auto simp: Let_def list_ex_iff split: if_splits)
  qed
qed

lemma Link_system_ok:
  assumes "system_ok E (db w)" shows "system_ok E (db (snd (Link E i tx w)))"
proof (cases "Link E i tx w")
  case (Pair r w')
  from Link_effect [OF Pair] show ?thesis
  proof (elim disjE exE conjE)
    fix s assume s: "db w' = (db w)\<lparr>settlements := settlements (db w) @ [s]\<rparr>" "st_payment s = i" "st_tx s = tx"
      "st_status s = ''pending''" "st_block_hash s = None" "st_block_number s = None"
      "i \<in> pay_id ` set (payments (db w))" "tx \<notin> st_tx ` set (settlements (db w))"
    have "rail_ok E (db w')" using system_okD(1) [OF assms] rail_ok_tables [of "db w'" "db w"] s(1) by simp
    moreover have "settlement_ok E (db w') s" using s by (simp add: settlement_ok_def)
    moreover have "settlement_ok E (db w') s'" if "s' \<in> set (settlements (db w))" for s'
      using settlement_ok_mono [OF system_okD(3) [OF assms that], of "db w'"] s(1) by simp
    ultimately show ?thesis using Pair s assms by (simp add: system_ok_def)
  qed (use Pair assms in simp)
qed

lemma system_ok_step:
  assumes "system_ok E t" "rail_ok E t'" "settlements t' = settlements t" "append_only t t'"
  shows "system_ok E t'"
proof -
  have "pay_id ` set (payments t) \<subseteq> pay_id ` set (payments t')"
  proof -
    have "map pay_id ps = map fst (map pay_columns ps)" for ps by (simp add: pay_columns_def)
    then have "prefix (map pay_id (payments t)) (map pay_id (payments t'))"
      using assms(4) by (simp only: append_only_def map_mono_prefix)
    then show ?thesis by (metis set_map set_mono_prefix)
  qed
  moreover have "set (journal t) \<subseteq> set (journal t')" using assms(4) by (simp add: append_only_def set_mono_prefix)
  ultimately show ?thesis
    using assms(1-3) settlement_ok_mono [of E t _ t'] by (simp add: system_ok_def)
qed

subsection \<open>Redelivery\<close>

lemma find_update_where:
  "List.find P xs = Some x \<Longrightarrow> (\<And>y. P (f y) \<longleftrightarrow> P y) \<Longrightarrow> List.find P (update_where P f xs) = Some (f x)"
  by (induction xs) (auto split: if_splits)

lemma row_after_flip:
  assumes "row_of_tx t tx = Some s" "settlements t1 = settlements t" "\<And>s. st_tx (f s) = st_tx s"
    "told E typ s0 a m (flip tx f t1) t'"
  shows "row_of_tx t' tx = Some (f s)"
  using assms(1-3) announced_tables(5) [OF assms(4) [unfolded told_def]]
    find_update_where [of "\<lambda>s. st_tx s = tx" "settlements t" s f]
  by (simp add: row_of_tx_def)

text \<open>The ways a status can act on the row it finds.\<close>

lemma status_cases:
  assumes "status_effect E st t t'" "row_of_tx t (s_tx st) = Some s"
  obtains (idle) "t' = t" "s_phase st = PhaseConfirmed \<Longrightarrow> st_status s = ''settled''"
      "s_phase st \<in> {PhaseReorged, PhaseFinalized} \<Longrightarrow> st_status s \<noteq> ''settled''"
  | (confirm) p je t1 now where "s_phase st = PhaseConfirmed" "moved (\<lambda>p h. settle_entry E s p h st) s p je t t1"
      "st_status s \<in> {''pending'', ''reorged''}"
      "told E ''settlement.confirmed'' s (pay_asset p) (pay_amount p) (flip (s_tx st) (settled_row (je_id je) st now) t1) t'"
  | (posted_only) p je where "s_phase st = PhaseConfirmed" "moved (\<lambda>p h. settle_entry E s p h st) s p je t t'"
      "st_status s \<notin> {''pending'', ''reorged'', ''settled''}"
  | (reorg) p je t1 now where "s_phase st = PhaseReorged" "st_status s = ''settled''"
      "moved (\<lambda>p h. unsettle_entry E s p h st) s p je t t1"
      "told E ''settlement.reorged'' s (pay_asset p) (pay_amount p) (flip (s_tx st) (reorged_row now) t1) t'"
  | (finalize) now where "s_phase st = PhaseFinalized" "st_status s = ''settled''"
      "told E ''settlement.finalized'' s [] 0 (flip (s_tx st) (finalized_row now) t) t'"
proof (cases "s_phase st")
  case PhaseConfirmed
  with assms have "confirm_effect E st s t t'" by (simp add: status_effect_def)
  then show thesis
    using PhaseConfirmed idle confirm posted_only
    by (cases "st_status s = ''settled''"; cases "st_status s \<in> {''pending'', ''reorged''}")
      (auto simp: confirm_effect_def)
next
  case PhaseReorged
  with assms have "reorg_effect E st s t t'" by (simp add: status_effect_def)
  then show thesis
    using PhaseReorged idle reorg by (cases "st_status s = ''settled''") (auto simp: reorg_effect_def)
next
  case PhaseFinalized
  with assms have "finalize_effect E st s t t'" by (simp add: status_effect_def)
  then show thesis
    using PhaseFinalized idle finalize by (cases "st_status s = ''settled''") (auto simp: finalize_effect_def)
qed (use assms idle in \<open>simp_all add: status_effect_def\<close>)

text \<open>The row a status leaves is one on which the same status does nothing.\<close>

lemma status_leaves:
  assumes "status_effect E st t t'" "row_of_tx t (s_tx st) = Some s"
    "s_phase st = PhaseConfirmed \<Longrightarrow> st_status s \<in> {''pending'', ''reorged'', ''settled''}"
  shows "\<exists>s'. row_of_tx t' (s_tx st) = Some s' \<and> (s_phase st = PhaseConfirmed \<longrightarrow> st_status s' = ''settled'') \<and>
    (s_phase st \<in> {PhaseReorged, PhaseFinalized} \<longrightarrow> st_status s' \<noteq> ''settled'')"
proof -
  have mv: "settlements t1 = settlements t" if "moved entry s p je t t1" for entry p je t1
    using that posted_tables(4) by (auto simp: moved_def)
  note after = row_after_flip [OF assms(2)]
  from assms(1,2) show ?thesis
  proof (cases rule: status_cases)
    case (confirm p je t1 now)
    then show ?thesis using after [OF mv [OF confirm(2)] _ confirm(4)] by (simp add: settled_row_def)
  next
    case (reorg p je t1 now)
    then show ?thesis using after [OF mv [OF reorg(3)] _ reorg(4)] by (simp add: reorged_row_def)
  next
    case (finalize now)
    then show ?thesis using after [OF refl _ finalize(3)] by (simp add: finalized_row_def)
  qed (use assms in auto)
qed

lemma status_idle:
  assumes "status_effect E st t t'" "row_of_tx t (s_tx st) = Some s"
    "s_phase st = PhaseConfirmed \<longrightarrow> st_status s = ''settled''"
    "s_phase st \<in> {PhaseReorged, PhaseFinalized} \<longrightarrow> st_status s \<noteq> ''settled''"
  shows "t' = t"
  using assms by (simp add: status_effect_def confirm_effect_def reorg_effect_def finalize_effect_def split: Phase.splits)

subsection \<open>What is on chain\<close>

definition on_chain :: "Settlement \<Rightarrow> bool" where
  "on_chain s \<longleftrightarrow> st_status s \<in> {''settled'', ''finalized''}"

definition value_of :: "tables \<Rightarrow> string \<Rightarrow> Settlement \<Rightarrow> int" where
  "value_of t asset s = (case List.find (\<lambda>p. pay_id p = st_payment s) (payments t) of
     None \<Rightarrow> 0 | Some p \<Rightarrow> if pay_asset p = asset then pay_amount p else 0)"

definition outstanding :: "tables \<Rightarrow> string \<Rightarrow> int" where
  "outstanding t asset = sum_list (map (\<lambda>s. if on_chain s then value_of t asset s else 0) (settlements t))"

lemma sum_update_one:
  fixes g :: "'a \<Rightarrow> int"
  assumes "distinct (map k xs)" "x \<in> set xs"
  shows "sum_list (map g (update_where (\<lambda>y. k y = k x) f xs)) = sum_list (map g xs) + g (f x) - g x"
  using assms
proof (induction xs)
  case (Cons y xs)
  show ?case
  proof (cases "k y = k x")
    case True
    with Cons.prems have "y = x" "update_where (\<lambda>y. k y = k x) f xs = xs"
      by (auto intro!: update_where_none) (metis image_eqI)+
    then show ?thesis by simp
  qed (use Cons in auto)
qed simp

lemma outstanding_after:
  assumes "told E typ s0 a m (flip (s_tx st) f t1) t'" "settlements t1 = settlements t" "payments t1 = payments t"
    "row_of_tx t (s_tx st) = Some s" "distinct (map st_tx (settlements t))" "\<And>s. st_payment (f s) = st_payment s"
  shows "outstanding t' asset = outstanding t asset +
    (if on_chain (f s) then value_of t asset s else 0) - (if on_chain s then value_of t asset s else 0)"
proof -
  note T = announced_tables(4,5) [OF assms(1) [unfolded told_def]]
  have v: "value_of t' asset = value_of t asset" using T assms(3) by (auto simp: value_of_def)
  have f: "value_of t asset (f s) = value_of t asset s" using assms(6) by (simp add: value_of_def)
  have "outstanding t' asset = sum_list (map (\<lambda>s. if on_chain s then value_of t asset s else 0)
      (update_where (\<lambda>y. st_tx y = st_tx s) f (settlements t)))"
    unfolding outstanding_def v using T assms(2) row_of_txD [OF assms(4)] by simp
  then show ?thesis
    using sum_update_one [OF assms(5), of s "\<lambda>s. if on_chain s then value_of t asset s else 0" f]
      row_of_txD [OF assms(4)] f by (simp add: outstanding_def)
qed


text \<open>A posting between the destination of a payment and its clearing account, seen from a clearing account.\<close>

lemma house_ofD: "house_of t asset = Some h \<Longrightarrow> h \<in> set (accounts t) \<and> acc_asset h = asset"
  unfolding house_of_def by (auto dest: find_Some_in)

lemma house_unique:
  assumes "distinct (map acc_id (accounts t))" "house_of t a = Some h" "house_of t b = Some h'"
  shows "acc_id h' = acc_id h \<longleftrightarrow> b = a"
proof
  have "inj_on acc_id (set (accounts t))" using assms(1) by (simp add: distinct_map)
  moreover assume "acc_id h' = acc_id h"
  ultimately have "h' = h" using house_ofD [OF assms(2)] house_ofD [OF assms(3)] by (simp add: inj_on_def)
  then show "b = a" using house_ofD [OF assms(2)] house_ofD [OF assms(3)] by simp
next
  assume "b = a"
  then show "acc_id h' = acc_id h" using assms(2,3) by simp
qed

lemma value_of_row:
  assumes "rail_ok E t" "p \<in> set (payments t)" "pay_id p = st_payment s"
  shows "value_of t asset s = (if pay_asset p = asset then pay_amount p else 0)"
  using find_by_key [OF rail_okD(2) [OF assms(1)] assms(2,3)] by (simp add: value_of_def)

lemma moved_house:
  assumes "moved entry s p je t t1" "rail_ok E t" "\<And>h. int64 (pay_amount p) \<Longrightarrow> fits (en_lines (entry p h))"
    "house_of t asset = Some h" "pay_dest p \<noteq> acc_id h"
    "\<And>h' a. net_effect (en_lines (entry p h')) a = c * ((if a = acc_id h' then pay_amount p else 0)
       - (if a = pay_dest p then pay_amount p else 0))"
  shows "balance t1 (acc_id h) = balance t (acc_id h) + c * value_of t asset s"
proof -
  from moved_rail(6) [OF assms(1-3)] obtain h' where h': "house_of t (pay_asset p) = Some h'"
    "\<forall>a. balance t1 a = balance t a + net_effect (en_lines (entry p h')) a" by blast
  have "acc_id h' = acc_id h \<longleftrightarrow> pay_asset p = asset"
    by (rule house_unique [OF ledger_okD(1) [OF rail_okD(1) [OF assms(2)]] assms(4) h'(1)])
  moreover have "value_of t asset s = (if pay_asset p = asset then pay_amount p else 0)"
    by (rule value_of_row [OF assms(2)]) (use assms(1) in \<open>auto simp: moved_def\<close>)
  ultimately show ?thesis using h'(2) assms(5,6) by auto
qed

lemma balance_told:
  "told E typ s a m (flip tx f t) t' \<Longrightarrow> balance t' = balance t"
  using announced_tables(3) by (auto simp: told_def balance_def)

lemma status_clearing:
  assumes "status_effect E st t t'" "system_ok E t" "house_of t asset = Some h"
    "\<forall>p \<in> set (payments t). pay_dest p \<noteq> acc_id h"
    "\<And>s. s_phase st = PhaseConfirmed \<Longrightarrow> row_of_tx t (s_tx st) = Some s \<Longrightarrow> st_status s \<noteq> ''finalized''"
  shows "balance t' (acc_id h) - outstanding t' asset = balance t (acc_id h) - outstanding t asset"
proof (cases "row_of_tx t (s_tx st)")
  case (Some s)
  note rail = system_okD(1) [OF assms(2)]
  have st: "st_status s \<in> {''pending'', ''reorged'', ''settled'', ''finalized''}"
    using row_system(1) [OF assms(2) Some] by (auto simp: settlement_ok_def)
  note after = outstanding_after [where st = st, OF _ _ _ Some system_okD(2) [OF assms(2)]]
  have dest: "pay_dest p \<noteq> acc_id h" if "moved entry s p je t t1" for entry p je t1
    using that assms(4) by (auto simp: moved_def)
  from assms(1) Some show ?thesis
  proof (cases rule: status_cases)
    case (confirm p je t1 now)
    note 2 = confirm(2,4)
    have off: "\<not> on_chain s" using confirm(3) by (auto simp: on_chain_def)
    note m = moved_rail [OF 2(1) rail settle_entries_fit(1)]
    have "balance t1 (acc_id h) = balance t (acc_id h) + 1 * value_of t asset s"
      by (rule moved_house [OF 2(1) rail settle_entries_fit(1) assms(3) dest [OF 2(1)]])
        (simp_all add: settle_entry_def net_effect_two)
    moreover have "outstanding t' asset = outstanding t asset + value_of t asset s"
      using after [OF 2(2) m(2,3)] off by (simp add: settled_row_def on_chain_def)
    ultimately show ?thesis using balance_told [OF 2(2)] by simp
  next
    case (reorg p je t1 now)
    note 3 = reorg(3,4)
    have on: "on_chain s" using reorg(2) by (simp add: on_chain_def)
    note m = moved_rail [OF 3(1) rail settle_entries_fit(2)]
    have "balance t1 (acc_id h) = balance t (acc_id h) + - 1 * value_of t asset s"
      by (rule moved_house [OF 3(1) rail settle_entries_fit(2) assms(3) dest [OF 3(1)]])
        (simp_all add: unsettle_entry_def net_effect_two)
    moreover have "outstanding t' asset = outstanding t asset - value_of t asset s"
      using after [OF 3(2) m(2,3)] on by (simp add: reorged_row_def on_chain_def)
    ultimately show ?thesis using balance_told [OF 3(2)] by simp
  next
    case (finalize now)
    then show ?thesis
      using after [OF finalize(3) refl refl] balance_told [OF finalize(3)] by (simp add: finalized_row_def on_chain_def)
  next
    case (posted_only p je)
    then show ?thesis using assms(5) [OF posted_only(1) Some] st by auto
  qed simp
qed (use assms(1) in \<open>simp add: status_effect_def\<close>)

lemma row_payment:
  assumes "append_only t t'" "distinct (map st_tx (settlements t'))" "row_of_tx t tx = Some s" "row_of_tx t' tx = Some s'"
  shows "st_payment s' = st_payment s"
proof -
  have "st_columns s \<in> set (map st_columns (settlements t))" using row_of_txD [OF assms(3)] by simp
  then have "st_columns s \<in> set (map st_columns (settlements t'))"
    using assms(1) set_mono_prefix by (fastforce simp: append_only_def)
  then obtain r where r: "r \<in> set (settlements t')" "st_columns r = st_columns s" by auto
  then have "r = s'"
    using only_row [OF assms(2,4) r(1)] row_of_txD [OF assms(3)] by (simp add: st_columns_def)
  with r(2) show ?thesis by (simp add: st_columns_def)
qed

lemma status_row_kept:
  assumes "row_of_tx t tx = Some s" "append_only t t'"
  shows "\<exists>s'. row_of_tx t' tx = Some s'"
proof -
  have "st_columns s \<in> set (map st_columns (settlements t'))"
    using assms row_of_txD [OF assms(1)] set_mono_prefix by (fastforce simp: append_only_def)
  then obtain r where "r \<in> set (settlements t')" "st_tx r = tx"
    using row_of_txD [OF assms(1)] by (auto simp: st_columns_def)
  then show ?thesis unfolding row_of_tx_def by (cases "List.find (\<lambda>s. st_tx s = tx) (settlements t')") (auto simp: find_None_iff)
qed

lemma OnStatus_status_effect:
  assumes "system_ok E (db w)" "micro_exact E" "int (length (audit (db w))) < 9223372036854775807"
    "OnStatus E st w = (Inr (), w')"
  shows "status_effect E st (db w) (db w')"
  using OnStatus_ok [OF assms(4)] rail_okD(1,4) [OF system_okD(1) [OF assms(1)]] system_okD(2) [OF assms(1)] assms(2,3)
  by (simp add: log_ok_def)

lemma status_audit:
  assumes "status_effect E st t t'" shows "length (audit t') \<le> Suc (length (audit t))"
proof (cases "row_of_tx t (s_tx st)")
  case (Some s)
  have mv: "audit t1 = audit t" if "moved entry s p je t t1" for entry p je t1
    using that posted_tables(6) by (auto simp: moved_def)
  have told: "length (audit t2) = Suc (length (audit t1))" if "told E k s a m (flip tx f t1) t2" for k a m tx f t1 t2
    using announced_audit_length [OF that [unfolded told_def]] by simp
  from assms Some show ?thesis
    by (cases rule: status_cases) (use mv in \<open>simp_all add: told\<close>)
qed (use assms in \<open>simp add: status_effect_def\<close>)

lemma confirm_posts:
  assumes "status_effect E st t t'" "row_of_tx t (s_tx st) = Some s" "s_phase st = PhaseConfirmed"
    "st_status s \<in> {''pending'', ''reorged''}" "rail_ok E t"
  shows "\<exists>je. posted_as t' je ''settlement.settle'' (settle_ref E s (s_block_hash st))"
  using assms(1,2)
proof (cases rule: status_cases)
  case (confirm p je t1 now)
  have "journal t' = journal t1"
    using announced_tables(2) [OF confirm(4) [unfolded told_def]] by simp
  then show ?thesis
    using moved_rail(6) [OF confirm(2) assms(5) settle_entries_fit(1)]
    by (auto simp: posted_as_def settle_entry_def settle_ref_def)
qed (use assms in auto)

lemma confirm_needs_fresh_ref:
  assumes "status_effect E st t t'" "row_of_tx t (s_tx st) = Some s" "s_phase st = PhaseConfirmed"
    "st_status s \<noteq> ''settled''"
  shows "\<forall>j \<in> set (journal t). \<not> (je_kind j = ''settlement.settle'' \<and> je_ref j = settle_ref E s (s_block_hash st))"
proof -
  have "\<forall>j \<in> set (journal t). \<not> (je_kind j = ''settlement.settle'' \<and> je_ref j = settle_ref E s (s_block_hash st))"
    if "moved (\<lambda>p h. settle_entry E s p h st) s p je t t1" for p je t1
    using that by (auto simp: moved_def postable_def settle_entry_def settle_ref_def)
  with assms(1,2) show ?thesis by (cases rule: status_cases) (use assms in auto)
qed

subsection \<open>Properties\<close>

text \<open>
  C25. Every delivery of a status is all or nothing, and the effect of each status on each row is
  exactly the specified one. Confirmed on a pending or reorged row moves the payment's amount from
  its destination to the clearing account by one journal entry, marks the row settled with entry and
  block, and adds one event and one audit row; Reorged on a settled row does the inverse; Finalized
  on a settled row only flips and announces; a transaction that is not linked, a redelivery and the
  other phases change nothing. On any error no table changed.
\<close>

theorem OnStatus_atomic:
  assumes "system_ok E (db w)" "micro_exact E" "int (length (audit (db w))) < 9223372036854775807"
  shows "case OnStatus E st w of (Inl x, w') \<Rightarrow> db w' = db w | (Inr _, w') \<Rightarrow> status_effect E st (db w) (db w')"
proof (cases "OnStatus E st w")
  case (Pair r w')
  show ?thesis
  proof (cases r)
    case (Inl x)
    show ?thesis using OnStatus_err [OF Pair [unfolded Inl]] by (simp add: Pair Inl)
  next
    case (Inr u)
    have "OnStatus E st w = (Inr (), w')" by (simp add: Pair Inr)
    from OnStatus_status_effect [OF assms this] show ?thesis by (simp add: Pair Inr)
  qed
qed

text \<open>
  C26. Delivering the same status again, right after it was applied, changes no table, whether the
  second delivery succeeds or fails; for a Confirmed status this is for a row that was not finalized.
\<close>

theorem OnStatus_redelivered:
  assumes "system_ok E (db w)" "micro_exact E" "int (length (audit (db w))) + 1 < 9223372036854775807"
    "OnStatus E st w = (Inr (), w1)"
    "\<And>s. s_phase st = PhaseConfirmed \<Longrightarrow> row_of_tx (db w) (s_tx st) = Some s \<Longrightarrow> st_status s \<noteq> ''finalized''"
  shows "db (snd (OnStatus E st w1)) = db w1"
proof (cases "OnStatus E st w1")
  case (Pair r w2)
  show ?thesis
  proof (cases r)
    case (Inl e)
    with Pair OnStatus_err show ?thesis by simp
  next
    case (Inr u)
    have e1: "status_effect E st (db w) (db w1)"
      using OnStatus_status_effect [OF assms(1,2) _ assms(4)] assms(3) by simp
    have "int (length (audit (db w1))) < 9223372036854775807"
      using status_audit [OF e1] assms(3) by simp
    moreover have "system_ok E (db w1)" using status_system_ok [OF e1 assms(1)] .
    ultimately have e2: "status_effect E st (db w1) (db w2)"
      using OnStatus_status_effect [OF _ assms(2)] Pair Inr by simp
    have "db w2 = db w1"
    proof (cases "row_of_tx (db w) (s_tx st)")
      case None
      with e1 e2 show ?thesis by (simp add: status_effect_def)
    next
      case (Some s)
      have "st_status s \<in> {''pending'', ''reorged'', ''settled''}" if "s_phase st = PhaseConfirmed"
        using row_system(1) [OF assms(1) Some] assms(5) [OF that Some] by (auto simp: settlement_ok_def)
      from status_leaves [OF e1 Some this] obtain s' where "row_of_tx (db w1) (s_tx st) = Some s'"
        "s_phase st = PhaseConfirmed \<longrightarrow> st_status s' = ''settled''"
        "s_phase st \<in> {PhaseReorged, PhaseFinalized} \<longrightarrow> st_status s' \<noteq> ''settled''" by blast
      from status_idle [OF e2 this] show ?thesis .
    qed
    with Pair show ?thesis by simp
  qed
qed

text \<open>
  Whatever they return, linking and status deliveries keep the invariant of the system: the
  ledger, payments, audit log and outbox stay sound, a transaction settles one payment, and every
  settled or finalized row names the block and a journal entry that settles it in that block.
\<close>

theorem settlement_preserves_system:
  assumes "system_ok E (db w)" "micro_exact E" "int (length (audit (db w))) < 9223372036854775807"
  shows "system_ok E (db (snd (OnStatus E st w))) \<and> system_ok E (db (snd (Link E i tx w)))"
  using OnStatus_system_ok [OF assms] Link_system_ok [OF assms(1)] by blast


text \<open>
  C27. A transaction that is reorganised out and then back into the same block is never settled
  again: once it was settled in a block and reversed, every Confirmed status for that block fails
  and changes nothing, in every environment, because the entry's external reference
  \<open>settle:<payment>:<block hash>\<close> is taken.
\<close>

theorem resettle_same_block_fails:
  assumes "system_ok E (db w)" "micro_exact E" "int (length (audit (db w))) + 2 < 9223372036854775807"
    "s_phase st = PhaseConfirmed" "row_of_tx (db w) (s_tx st) = Some s" "st_status s \<in> {''pending'', ''reorged''}"
    "OnStatus E st w = (Inr (), w1)"
    "s_phase st' = PhaseReorged" "s_tx st' = s_tx st" "OnStatus E st' w1 = (Inr (), w2)"
  shows "\<exists>e w3. OnStatus E st w2 = (Inl e, w3) \<and> db w3 = db w2"
proof -
  have e1: "status_effect E st (db w) (db w1)"
    using OnStatus_status_effect [OF assms(1,2) _ assms(7)] assms(3) by simp
  note ok1 = status_system_ok [OF e1 assms(1)]
  have e2: "status_effect E st' (db w1) (db w2)"
    using OnStatus_status_effect [OF ok1 assms(2) _ assms(10)] assms(3) status_audit [OF e1] by simp
  note ok2 = status_system_ok [OF e2 ok1]
  have grow: "append_only (db w) (db w1)" "append_only (db w1) (db w2)"
    using frameD [OF append_only_OnStatus assms(7)] frameD [OF append_only_OnStatus assms(10)] by simp_all
  obtain je where je: "posted_as (db w1) je ''settlement.settle'' (settle_ref E s (s_block_hash st))"
    using confirm_posts [OF e1 assms(5,4,6) system_okD(1) [OF assms(1)]] by blast
  have je2: "posted_as (db w2) je ''settlement.settle'' (settle_ref E s (s_block_hash st))"
    using posted_as_mono [OF je] grow(2) by (simp add: append_only_def set_mono_prefix)
  obtain s1 where s1: "row_of_tx (db w1) (s_tx st') = Some s1"
    using status_row_kept [OF assms(5) grow(1)] assms(9) by auto
  from status_leaves [OF e2 s1] assms(8) obtain s2 where
    s2: "row_of_tx (db w2) (s_tx st) = Some s2" "st_status s2 \<noteq> ''settled''" using assms(9) by auto
  have pay: "settle_ref E s2 bh = settle_ref E s bh" for bh
    using row_payment [OF growth.R_trans [OF grow] system_okD(2) [OF ok2] assms(5) s2(1)] by (simp add: settle_ref_def)
  have "OnStatus E st w2 \<noteq> (Inr (), w3)" for w3
  proof
    assume r: "OnStatus E st w2 = (Inr (), w3)"
    have "status_effect E st (db w2) (db w3)"
      using OnStatus_status_effect [OF ok2 assms(2) _ r] assms(3) status_audit [OF e1] status_audit [OF e2] by simp
    from confirm_needs_fresh_ref [OF this s2(1) assms(4) s2(2)] je2 pay show False
      by (auto simp: posted_as_def)
  qed
  then obtain e w3 where "OnStatus E st w2 = (Inl e, w3)"
    by (cases "OnStatus E st w2"; cases "fst (OnStatus E st w2)") auto
  with OnStatus_err [OF this] show ?thesis by blast
qed

text \<open>
  C28. A Confirmed status for a row that is already finalized, when it succeeds, takes the payment's
  amount from the destination a second time without recording it anywhere: the journal gains an
  entry and the balances move, while the settlement rows, the outbox and the audit log stay as they
  were. The guard of \<open>settle\<close> only stops rows that are settled.
\<close>

theorem confirm_on_finalized_posts:
  assumes "system_ok E (db w)" "micro_exact E" "int (length (audit (db w))) < 9223372036854775807"
    "s_phase st = PhaseConfirmed" "row_of_tx (db w) (s_tx st) = Some s" "st_status s = ''finalized''"
    "OnStatus E st w = (Inr (), w')"
  shows "\<exists>p h. p \<in> set (payments (db w)) \<and> pay_id p = st_payment s \<and> house_of (db w) (pay_asset p) = Some h \<and>
    (\<forall>a. balance (db w') a = balance (db w) a + (if a = acc_id h then pay_amount p else 0)
           - (if a = pay_dest p then pay_amount p else 0)) \<and>
    settlements (db w') = settlements (db w) \<and> outbox (db w') = outbox (db w) \<and> audit (db w') = audit (db w)"
proof -
  have "status_effect E st (db w) (db w')" using OnStatus_status_effect [OF assms(1-3,7)] .
  with assms(4-6) obtain p je where mv: "moved (\<lambda>p h. settle_entry E s p h st) s p je (db w) (db w')"
    by (auto simp: status_effect_def confirm_effect_def)
  from moved_rail(6) [OF mv system_okD(1) [OF assms(1)] settle_entries_fit(1)] obtain h where
    h: "house_of (db w) (pay_asset p) = Some h"
    "\<forall>a. balance (db w') a = balance (db w) a + net_effect (en_lines (settle_entry E s p h st)) a" by blast
  have "settlements (db w') = settlements (db w)" "outbox (db w') = outbox (db w)" "audit (db w') = audit (db w)"
    "p \<in> set (payments (db w))" "pay_id p = st_payment s"
    using mv posted_tables(4,5,6) by (auto simp: moved_def)
  with h show ?thesis
    by (intro exI [of _ p] exI [of _ h]) (simp add: settle_entry_def net_effect_two)
qed

subsection \<open>The sink behind the watcher\<close>

text \<open>
  The invariant as a property of a world, for as long as the audit log has room for its 64-bit
  sequence numbers and the server keeps whole microseconds.
\<close>

definition sound :: "env \<Rightarrow> world \<Rightarrow> bool" where
  "sound E w \<longleftrightarrow> (micro_exact E \<and> int (length (audit (db w))) < 9223372036854775807 \<longrightarrow> system_ok E (db w))"

lemma sound_step:
  assumes "frame append_only m" "sound E w"
    "\<And>w. system_ok E (db w) \<Longrightarrow> micro_exact E \<Longrightarrow> int (length (audit (db w))) < 9223372036854775807 \<Longrightarrow>
       system_ok E (db (snd (m w)))"
  shows "sound E (snd (m w))"
proof -
  have "length (audit (db w)) \<le> length (audit (db (snd (m w))))"
    using frame_snd [OF assms(1), of w] by (auto simp: append_only_def prefix_length_le)
  then show ?thesis using assms(2,3) by (auto simp: sound_def)
qed

interpretation settlement: status_sink "OnStatus E" "sound E" for E
  by unfold_locales (rule sound_step [OF append_only_OnStatus], assumption, rule OnStatus_system_ok)

text \<open>
  C29. The watcher and the settlement sink together keep the invariant of the system: whatever the
  node answers in each pass, in whatever order a pass visits the transactions, and however the
  database fails on the way, the tables after any number of ticks satisfy it.
\<close>

theorem watcher_Run_keeps_system:
  assumes "system_ok E (db w)" "micro_exact E" "watcher_Run G (OnStatus E) vks (W, w) = (W', w')"
    "int (length (audit (db w'))) < 9223372036854775807"
  shows "system_ok E (db w')"
  using settlement.Run_keeps [of E "(W, w)" G vks] assms by (simp add: sound_def)

subsection \<open>Instances\<close>

text \<open>A payment of 40 from account 1 to account 2, linked to a transaction.\<close>

definition linked :: tables where
  "linked = bank\<lparr>
     journal := journal bank @ [\<lparr>je_id = 11, je_kind = ''payment'', je_ref = replicate 5 (CHR ''u''),
        je_asset = ''USDC'', je_created = 0\<rparr>],
     elines := elines bank @
       [\<lparr>el_id = 1, el_entry = 10, el_account = 2, el_direction = ''credit'', el_amount = 100\<rparr>,
        \<lparr>el_id = 2, el_entry = 11, el_account = 1, el_direction = ''debit'', el_amount = 40\<rparr>,
        \<lparr>el_id = 3, el_entry = 11, el_account = 2, el_direction = ''credit'', el_amount = 40\<rparr>],
     payments := [\<lparr>pay_id = 5, pay_status = ''completed'', pay_asset = ''USDC'', pay_amount = 40,
        pay_source = 1, pay_dest = 2, pay_entry = 11, pay_reversal = None, pay_created = 0, pay_canceled = None\<rparr>],
     settlements := [\<lparr>st_id = 6, st_payment = 5, st_tx = tx0, st_status = ''pending'', st_entry = None,
        st_created = 0, st_updated = 0, st_block_hash = None, st_block_number = None\<rparr>]\<rparr>"

definition finalized_in :: "string \<Rightarrow> tables" where
  "finalized_in bh = linked\<lparr>
     journal := journal linked @ [\<lparr>je_id = 12, je_kind = ''settlement.settle'',
        je_ref = ''settle:uuuuu:'' @ bh, je_asset = ''USDC'', je_created = 0\<rparr>],
     elines := elines linked @
       [\<lparr>el_id = 4, el_entry = 12, el_account = 2, el_direction = ''debit'', el_amount = 40\<rparr>,
        \<lparr>el_id = 5, el_entry = 12, el_account = 3, el_direction = ''credit'', el_amount = 40\<rparr>],
     settlements := [\<lparr>st_id = 6, st_payment = 5, st_tx = tx0, st_status = ''finalized'', st_entry = Some 12,
        st_created = 0, st_updated = 0, st_block_hash = Some bh, st_block_number = Some 7\<rparr>]\<rparr>"

lemma linked_ledger: "ledger_ok linked"
  by (simp add: linked_def bank_def no_tables_def ledger_ok_def line_ok_def balance_def signed_amount_def entry_sum_def)

lemma finalized_ledger: "ledger_ok (finalized_in bh)"
  by (simp add: finalized_in_def linked_def bank_def no_tables_def ledger_ok_def line_ok_def balance_def
      signed_amount_def entry_sum_def)

lemma replicate_u: "replicate 5 (CHR ''u'') = ''uuuuu''"
  by (simp add: eval_nat_numeral)

lemma linked_ok: "system_ok env0 linked"
  using linked_ledger
  by (simp add: system_ok_def rail_ok_def settlement_ok_def payment_ok_def posted_as_def int64_def)
    (simp add: linked_def bank_def no_tables_def)

lemma finalized_ok: "system_ok env0 (finalized_in bh)"
  using finalized_ledger [of bh]
  by (simp add: system_ok_def rail_ok_def settlement_ok_def payment_ok_def posted_as_def int64_def settle_ref_def)
    (simp add: finalized_in_def linked_def bank_def no_tables_def replicate_u)

lemmas settle_run = run_defs OnStatus_def resolve_and_def settle_def sink_reverse_def finalize_def announce_def
  GetSettlementByTxHash_def GetAccountByNameAndAsset_def houseAccountName_def settle_entry_def unsettle_entry_def
  MarkSettlementSettled_def MarkSettlementReorged_def MarkSettlementFinalized_def mark_settlement_def
  settlement_event_def settlement_audit_def chk_found_def

lemma linked_confirm: "outcome (OnStatus env0 confirmed0 (idle linked)) = Inr ()"
  by (simp add: settle_run linked_def bank_def no_tables_def idle_def confirmed0_def)


lemma linked_reorg: "outcome (OnStatus env0 reorged0 (snd (OnStatus env0 confirmed0 (idle linked)))) = Inr ()"
  by (simp add: settle_run linked_def bank_def no_tables_def idle_def confirmed0_def reorged0_def replicate_u)

lemma finalized_confirm: "outcome (OnStatus env0 confirmed0 (idle (finalized_in ''b6''))) = Inr ()"
  by (simp add: settle_run finalized_in_def linked_def bank_def no_tables_def idle_def confirmed0_def replicate_u)

lemma outcome_Inr: "outcome r = Inr () \<Longrightarrow> \<exists>x. r = (Inr x, snd r)"
  by (cases r) (auto simp: outcome_def split: sum.splits)

lemma linked_confirmed: "OnStatus env0 confirmed0 (idle linked) = (Inr (), snd (OnStatus env0 confirmed0 (idle linked)))"
  using outcome_Inr [OF linked_confirm] by simp

lemma linked_reorged:
  "OnStatus env0 reorged0 (snd (OnStatus env0 confirmed0 (idle linked))) =
     (Inr (), snd (OnStatus env0 reorged0 (snd (OnStatus env0 confirmed0 (idle linked)))))"
  using outcome_Inr [OF linked_reorg] by simp

lemma finalized_confirmed:
  "OnStatus env0 confirmed0 (idle (finalized_in ''b6'')) =
     (Inr (), snd (OnStatus env0 confirmed0 (idle (finalized_in ''b6''))))"
  using outcome_Inr [OF finalized_confirm] by simp

lemma linked_facts:
  "audit linked = []" "row_of_tx linked tx0 = Some \<lparr>st_id = 6, st_payment = 5, st_tx = tx0, st_status = ''pending'',
     st_entry = None, st_created = 0, st_updated = 0, st_block_hash = None, st_block_number = None\<rparr>"
  "house_of linked ''USDC'' = Some \<lparr>acc_id = 3, acc_name = ''onchain_settlement'', acc_kind = ''onchain_settlement'',
     acc_asset = ''USDC'', acc_status = ''active'', acc_created = 0\<rparr>"
  "balance linked 3 = 0" "outstanding linked ''USDC'' = 0" "\<forall>p \<in> set (payments linked). pay_dest p \<noteq> 3"
  by (simp_all add: linked_def bank_def no_tables_def row_of_tx_def house_of_def houseAccountName_def balance_def
      signed_amount_def outstanding_def on_chain_def)

lemma status0_simps [simp]:
  "s_tx confirmed0 = tx0" "s_phase confirmed0 = PhaseConfirmed" "s_tx reorged0 = tx0" "s_phase reorged0 = PhaseReorged"
  by (simp_all add: confirmed0_def reorged0_def)

theorem OnStatus_atomic_witness:
  "status_effect env0 confirmed0 linked (db (snd (OnStatus env0 confirmed0 (idle linked))))"
proof -
  obtain w1 where c: "OnStatus env0 confirmed0 (idle linked) = (Inr (), w1)" using linked_confirmed by blast
  show ?thesis
    using OnStatus_atomic [of env0 "idle linked" confirmed0] linked_ok env0_micro by (simp add: c linked_facts)
qed

theorem OnStatus_redelivered_witness:
  "db (snd (OnStatus env0 confirmed0 (snd (OnStatus env0 confirmed0 (idle linked))))) =
     db (snd (OnStatus env0 confirmed0 (idle linked)))"
  using OnStatus_redelivered [of env0 "idle linked" confirmed0, OF _ env0_micro _ linked_confirmed] linked_ok
  by (simp add: linked_facts)

theorem settlement_preserves_system_witness:
  "system_ok env0 (db (snd (OnStatus env0 confirmed0 (idle linked)))) \<and>
   system_ok env0 (db (snd (Link env0 5 ''0xbb'' (idle linked))))"
  using settlement_preserves_system [of env0 "idle linked" confirmed0 5 "''0xbb''"] linked_ok env0_micro
  by (simp add: linked_facts)


theorem resettle_same_block_fails_witness:
  "\<exists>e w3. OnStatus env0 confirmed0
     (snd (OnStatus env0 reorged0 (snd (OnStatus env0 confirmed0 (idle linked))))) = (Inl e, w3)"
  using resettle_same_block_fails [of env0 "idle linked" confirmed0, OF _ env0_micro _ _ _ _ linked_confirmed _ _ linked_reorged]
    linked_ok by (fastforce simp: linked_facts)

theorem confirm_on_finalized_posts_witness:
  "balance (db (snd (OnStatus env0 confirmed0 (idle (finalized_in ''b6''))))) 2 = balance (finalized_in ''b6'') 2 - 40"
  using confirm_on_finalized_posts [of env0 "idle (finalized_in ''b6'')" confirmed0, OF _ env0_micro _ _ _ _ finalized_confirmed]
    finalized_ok [of "''b6''"]
  by (fastforce simp: row_of_tx_def finalized_in_def linked_def bank_def no_tables_def house_of_def houseAccountName_def)

theorem watcher_Run_keeps_system_witness:
  "system_ok env0 (db (snd (watcher_Run geth0 (OnStatus env0) [(mined_view 10, [tx0])] (watching PhaseMined, idle linked))))"
proof -
  have run: "snd (watcher_Run geth0 (OnStatus env0) [(mined_view 10, [tx0])] (watching PhaseMined, idle linked)) =
      snd (OnStatus env0 confirmed0 (idle linked))"
    by (simp add: watcher_tick_fst poll_confirmed0 split_def Let_def)
  have "status_effect env0 confirmed0 linked (db (snd (OnStatus env0 confirmed0 (idle linked))))"
    using OnStatus_status_effect [OF _ env0_micro _ linked_confirmed] linked_ok by (simp add: linked_facts)
  from status_audit [OF this] show ?thesis
    using watcher_Run_keeps_system [of env0 "idle linked" geth0 "[(mined_view 10, [tx0])]" "watching PhaseMined",
        OF _ env0_micro prod.collapse [symmetric]] linked_ok
    by (simp only: run) (simp add: linked_facts)
qed

end
