(* ===== verification/Operator.thy ===== *)
theory Operator
  imports RailConfig Approvals Evm Settlement
begin

section \<open>The operator's commands\<close>

text \<open>
  \<open>submit\<close> and \<open>approve\<close> of \<open>cmd/paymentrailctl\<close>, and the \<open>broadcastIntent\<close> they share: configuration,
  denylist, four-eyes gate, velocity limit, adapter and signer, the link to the payment and the
  bookkeeping of the approval, in the order of the code. A command is a step on the database, the chain
  and the signer together; it starts with the flags already parsed, and what it prints and logs is left
  out. Each run builds its own adapter, so its nonce marks start empty.

  The lemmas show that every transaction a command puts on the chain is the transfer of a payment that
  passed screening and is below the threshold, or of an approval another operator proposed; and that
  the comment which calls an empty hash proof that nothing was sent is wrong: a lost answer of the node
  makes \<open>approve\<close> reopen a payment that is on the chain, and approving it again pays twice.
\<close>

subsection \<open>State and surroundings\<close>

record tool =
  tl_env :: env
  tl_getenv :: getenv
  tl_lib :: gethtx
  tl_geth :: geth
  tl_rpc :: ethRPC
  tl_net :: grpc
  tl_files :: policy_files
  tl_open_db :: "string \<Rightarrow> unit result"
  tl_dial_signer :: "string \<Rightarrow> unit result"
  tl_dial_chain :: "string \<Rightarrow> unit result"

record ops =
  op_world :: world
  op_chain :: "(nat \<times> Keyring) chain"

definition at_world :: "(world \<Rightarrow> 'a \<times> world) \<Rightarrow> ops \<Rightarrow> 'a \<times> ops" where
  "at_world f s = (case f (op_world s) of (x, w) \<Rightarrow> (x, s\<lparr>op_world := w\<rparr>))"

definition at_chain :: "((nat \<times> Keyring) chain \<Rightarrow> 'a \<times> (nat \<times> Keyring) chain) \<Rightarrow> ops \<Rightarrow> 'a \<times> ops" where
  "at_chain f s = (case f (op_chain s) of (x, c) \<Rightarrow> (x, s\<lparr>op_chain := c\<rparr>))"

subsection \<open>broadcast.go\<close>

definition evm_config :: "gethtx \<Rightarrow> config \<Rightarrow> Intent \<Rightarrow> int \<Rightarrow> Config" where
  "evm_config L cfg i feeCap = \<lparr>cf_key = in_key i, cf_chain = cfg_ChainID cfg,
     cf_from = HexToAddress L (cfg_ChainFromAddress cfg), cf_token = HexToAddress L (cfg_ChainUSDCAddress cfg),
     cf_gas_cap = cfg_ChainGasLimitCap cfg, cf_fee_cap = Some feeCap\<rparr>"

definition velocity_caps :: "config \<Rightarrow> VelocityCaps result" where
  "velocity_caps cfg =
     (if cfg_PolicyVelocityMaxAmount cfg = []
      then Inr \<lparr>vc_window = cfg_PolicyVelocityWindow cfg, vc_count = cfg_PolicyVelocityMaxCount cfg, vc_amount = None\<rparr>
      else case SetString (cfg_PolicyVelocityMaxAmount cfg) of
             None \<Rightarrow> Inl (OpError ''broadcast: invalid velocity max amount'')
           | Some m \<Rightarrow> Inr \<lparr>vc_window = cfg_PolicyVelocityWindow cfg, vc_count = cfg_PolicyVelocityMaxCount cfg,
                            vc_amount = Some m\<rparr>)"

definition velocity_check :: "tool \<Rightarrow> config \<Rightarrow> VelocityCaps \<Rightarrow> Intent \<Rightarrow> ops \<Rightarrow> unit result \<times> ops" where
  "velocity_check T cfg caps i s =
     (if \<not> Enabled caps then (Inr (), s)
      else chk (tl_open_db T (cfg_DatabaseURL cfg), s) (\<lambda>_.
           at_world (limiter_Charge (tl_env T) (pgCharge (tl_env T)) (Some caps) (in_key i) (Some (in_amount i)))))"

text \<open>Dialing, building the adapter, the check of the network, and the submission.\<close>

definition chain_part :: "tool \<Rightarrow> config \<Rightarrow> Config \<Rightarrow> Intent \<Rightarrow> ops \<Rightarrow> string result \<times> ops" where
  "chain_part T cfg evmCfg i s =
     chk (tl_dial_signer T (cfg_SignerGRPCAddr cfg), s) (\<lambda>_ s.
     chk (tl_dial_chain T (cfg_ChainRPCURL cfg), s) (\<lambda>_ s.
     chk (NewAdapter evmCfg, s\<lparr>op_chain := (op_chain s)\<lparr>ch_next := newNonceAllocator\<rparr>\<rparr>) (\<lambda>acfg s.
     chk (at_chain (VerifyChainID (tl_rpc T) acfg) s) (\<lambda>_.
     at_chain (Submit (tl_rpc T) (tl_lib T) (tl_geth T) (signerClient_Sign (tl_lib T) (tl_net T)) acfg
       \<lparr>pi_key = in_key i, pi_asset = in_asset i, pi_to = in_to i, pi_amount = Some (in_amount i)\<rparr>)))))"

definition link_payment :: "tool \<Rightarrow> config \<Rightarrow> Intent \<Rightarrow> string \<Rightarrow> ops \<Rightarrow> unit result \<times> ops" where
  "link_payment T cfg i txHash s =
     (if in_payment i = [] then (Inr (), s)
      else case uuid_Parse (tl_env T) (in_payment i) of
             None \<Rightarrow> (Inl (OpError ''broadcast: payment id is not a valid uuid''), s)
           | Some paymentID \<Rightarrow> chk (tl_open_db T (cfg_DatabaseURL cfg), s) (\<lambda>_.
               at_world (Link (tl_env T) paymentID txHash)))"

text \<open>The hash is returned beside the error when only the link failed.\<close>

definition broadcastIntent :: "tool \<Rightarrow> config \<Rightarrow> Intent \<Rightarrow> ops \<Rightarrow> (string \<times> err option) \<times> ops" where
  "broadcastIntent T cfg i s =
     (if cfg_ChainRPCURL cfg = [] then (([], Some (OpError ''broadcast: CHAIN_RPC_URL is required'')), s)
      else if cfg_ChainFromAddress cfg = [] then (([], Some (OpError ''broadcast: CHAIN_FROM_ADDRESS is required'')), s)
      else if cfg_ChainUSDCAddress cfg = [] then (([], Some (OpError ''broadcast: CHAIN_USDC_ADDRESS is required'')), s)
      else if in_key i = [] then (([], Some (OpError ''broadcast: CHAIN_KEY_ID is required'')), s)
      else case SetString (cfg_ChainMaxFeePerGasCapWei cfg) of
        None \<Rightarrow> (([], Some (OpError ''broadcast: invalid fee cap'')), s)
      | Some feeCap \<Rightarrow>
        (case chk (velocity_caps cfg, s) (\<lambda>caps s.
              chk (velocity_check T cfg caps i s) (\<lambda>_.
              chain_part T cfg (evm_config (tl_lib T) cfg i feeCap) i)) of
           (Inl e, s) \<Rightarrow> (([], Some e), s)
         | (Inr txHash, s) \<Rightarrow>
             (case link_payment T cfg i txHash s of
                (Inl e, s) \<Rightarrow> ((txHash, Some e), s)
              | (Inr _, s) \<Rightarrow> ((txHash, None), s))))"

definition buildApprovalGate :: "config \<Rightarrow> ApprovalGate option result" where
  "buildApprovalGate cfg =
     (if cfg_PolicyApprovalThreshold cfg = [] \<or> cfg_PolicyApprovalThreshold cfg = ''0''
      then Inr (NewApprovalGate None (cfg_PolicyApprovers cfg))
      else case SetString (cfg_PolicyApprovalThreshold cfg) of
             None \<Rightarrow> Inl (OpError ''config: invalid POLICY_APPROVAL_THRESHOLD'')
           | Some t \<Rightarrow>
               if t \<le> 0 then Inl (OpError ''config: invalid POLICY_APPROVAL_THRESHOLD'')
               else if cfg_PolicyApprovers cfg = [] then Inl (OpError ''config: POLICY_APPROVERS is empty'')
               else Inr (NewApprovalGate (Some t) (cfg_PolicyApprovers cfg)))"

subsection \<open>submit.go\<close>

record submit_flags =
  sf_to :: string
  sf_amount :: string
  sf_asset :: string
  sf_key :: string
  sf_payment :: string
  sf_proposer :: string

text \<open>The checks on the flags before anything is read or dialed; the amount is what passes.\<close>

definition check_flags :: "tool \<Rightarrow> submit_flags \<Rightarrow> int result" where
  "check_flags T f =
     (if sf_to f = [] then Inl (OpError ''submit: --to is required'')
      else if \<not> IsHexAddress (tl_lib T) (sf_to f) then Inl (OpError ''submit: --to is not a valid address'')
      else if sf_amount f = [] then Inl (OpError ''submit: --amount is required'')
      else case SetString (sf_amount f) of
             None \<Rightarrow> Inl (OpError ''submit: --amount is not a valid decimal integer'')
           | Some amount \<Rightarrow>
               if amount \<le> 0 then Inl (OpError ''submit: --amount must be positive'')
               else if sf_payment f \<noteq> [] \<and> uuid_Parse (tl_env T) (sf_payment f) = None
               then Inl (OpError ''submit: --payment-id is not a valid uuid'')
               else Inr amount)"

definition submit_intent :: "config \<Rightarrow> submit_flags \<Rightarrow> int \<Rightarrow> Intent" where
  "submit_intent cfg f amount = \<lparr>in_to = sf_to f, in_asset = sf_asset f,
     in_key = (if sf_key f = [] then cfg_ChainKeyID cfg else sf_key f), in_payment = sf_payment f, in_amount = amount\<rparr>"

definition runSubmit :: "tool \<Rightarrow> submit_flags \<Rightarrow> ops \<Rightarrow> unit result \<times> ops" where
  "runSubmit T f s =
     chk (check_flags T f, s) (\<lambda>amount s.
     chk (config_Load (tl_getenv T), s) (\<lambda>cfg s.
     chk (policy_Load (tl_lib T) (tl_files T) (cfg_PolicyDenylist cfg), s) (\<lambda>screener s.
     chk (Screen (tl_lib T) screener (sf_to f), s) (\<lambda>_ s.
     chk (buildApprovalGate cfg, s) (\<lambda>gate s.
       if Required gate (Some amount) then
         (if sf_proposer f = [] then (Inl (OpError ''submit: --proposer is required''), s)
          else if \<not> KnownApprover gate (sf_proposer f) then (Inl (OpError ''submit: proposer is not in the allowlist''), s)
          else chk (tl_open_db T (cfg_DatabaseURL cfg), s) (\<lambda>_ s.
               chk (at_world (Propose (tl_env T) (sf_proposer f) (submit_intent cfg f amount)) s) (\<lambda>aid s.
               (Inr (), s))))
       else (case broadcastIntent T cfg (submit_intent cfg f amount) s of
               ((h, Some e), s) \<Rightarrow> (Inl e, s)
             | ((h, None), s) \<Rightarrow> (Inr (), s)))))))"

subsection \<open>approve.go\<close>

text \<open>
  The claim commits before the broadcast. When the broadcast fails without a hash the approval is
  reopened; the error of the broadcast is returned either way, and a failure to record the hash of a
  successful broadcast is only logged.
\<close>

definition claim_message :: "err \<Rightarrow> err" where
  "claim_message e =
     (if errorsIs e ErrApprovalNotFound then OpError ''approve: no pending approval''
      else if errorsIs e ErrAlreadyApproved then OpError ''approve: approval is not pending''
      else if errorsIs e ErrUnknownApprover then OpError ''approve: approver is not in the allowlist''
      else if errorsIs e ErrSelfApproval then OpError ''approve: approver must differ from the proposer''
      else e)"

definition runApprove :: "tool \<Rightarrow> string \<Rightarrow> string \<Rightarrow> ops \<Rightarrow> unit result \<times> ops" where
  "runApprove T approvalID approver s =
     (if approvalID = [] then (Inl (OpError ''approve: <approval-id> is required''), s)
      else if approver = [] then (Inl (OpError ''approve: --approver is required''), s)
      else chk (config_Load (tl_getenv T), s) (\<lambda>cfg s.
           chk (buildApprovalGate cfg, s) (\<lambda>gate s.
           chk (tl_open_db T (cfg_DatabaseURL cfg), s) (\<lambda>_ s.
           chk (map_err claim_message (at_world (Claim (tl_env T) approvalID approver
                  (\<lambda>pa. Authorize gate (pa_proposer pa) approver)) s)) (\<lambda>intent s.
             case broadcastIntent T cfg intent s of
               ((h, Some e), s) \<Rightarrow>
                 if h = [] then (Inl e, snd (at_world (Reopen (tl_env T) approvalID) s))
                 else (Inl e, s)
             | ((h, None), s) \<Rightarrow> (Inr (), snd (at_world (MarkBroadcast (tl_env T) approvalID h) s)))))))"

subsection \<open>What a command leaves alone\<close>

definition same_queue :: "tables \<Rightarrow> tables \<Rightarrow> bool" where
  "same_queue t t' \<longleftrightarrow> approvals t' = approvals t \<and> audit t' = audit t"

interpretation still: table_order same_queue
  by unfold_locales (simp_all add: same_queue_def)

lemma still_statements [frames]:
  "frame same_queue (InsertVelocityEvent E key a at)" "frame same_queue (AcquireVelocityLock E k)"
  "frame same_queue (SumVelocityWindow E key since)" "frame same_queue (InsertSettlement E i tx)"
  "frame same_queue (GetSettlementByTxHash E tx)"
  unfolding InsertVelocityEvent_def AcquireVelocityLock_def SumVelocityWindow_def InsertSettlement_def GetSettlementByTxHash_def
  by ((rule still.frame_query; auto simp: same_queue_def Let_def split: if_splits) | rule still.frame_reading)+

lemma still_Link [frames]: "frame same_queue (Link E i tx)"
  unfolding Link_def by (intro frames)

lemma still_pgCharge [frames]: "frame same_queue (pgCharge E key a width now dec)"
  unfolding pgCharge_def by (intro frames)

lemma still_Charge [frames]: "frame same_queue (limiter_Charge E (pgCharge E) caps key amount)"
  unfolding limiter_Charge_def by (intro frames)

lemma at_world_still:
  "frame same_queue f \<Longrightarrow> at_world f s = (r, s') \<Longrightarrow> same_queue (db (op_world s)) (db (op_world s')) \<and> op_chain s' = op_chain s"
  by (auto simp: at_world_def dest: frameD split: prod.splits)

lemma at_chain_world: "at_chain f s = (r, s') \<Longrightarrow> op_world s' = op_world s \<and> f (op_chain s) = (r, op_chain s')"
  by (auto simp: at_chain_def split: prod.splits)

subsection \<open>What a broadcast does\<close>

definition paid :: "tool \<Rightarrow> config \<Rightarrow> Intent \<Rightarrow> Transaction \<Rightarrow> bool" where
  "paid T cfg i t \<longleftrightarrow> (\<exists>feeCap. SetString (cfg_ChainMaxFeePerGasCapWei cfg) = Some feeCap \<and> in_asset i = ''USDC'' \<and> 0 < in_amount i \<and>
     pays (evm_config (tl_lib T) cfg i feeCap) (HexToAddress (tl_lib T) (in_to i)) (in_amount i) t)"

definition tool_laws :: "tool \<Rightarrow> bool" where
  "tool_laws T \<longleftrightarrow> address_laws (tl_lib T) \<and> codec_law (tl_lib T) \<and> hash_law (tl_lib T) \<and> fees_nonneg (tl_rpc T)"

text \<open>What a step may send: nothing, which then is an error when a hash was promised, or one transfer.\<close>

definition sends :: "tool \<Rightarrow> config \<Rightarrow> Intent \<Rightarrow> bool \<Rightarrow> ops \<Rightarrow> ops \<Rightarrow> bool" where
  "sends T cfg i failed s s' \<longleftrightarrow>
     ch_sent (op_chain s') = ch_sent (op_chain s) \<and> failed \<or>
     (\<exists>t. ch_sent (op_chain s') = ch_sent (op_chain s) @ [t] \<and> paid T cfg i t)"

lemma NewAdapter_same: "NewAdapter cfg = Inr acfg \<Longrightarrow> acfg = cfg"
  by (auto simp: NewAdapter_def split: if_splits option.splits)

lemma VerifyChainID_sent: "VerifyChainID R cfg c = (r, c') \<Longrightarrow> ch_sent c' = ch_sent c"
  by (auto simp: VerifyChainID_def chk_def call_def split: sum.splits prod.splits)

lemma chain_part_run:
  assumes laws: "tool_laws T" and fee: "SetString (cfg_ChainMaxFeePerGasCapWei cfg) = Some feeCap"
    and run: "chain_part T cfg (evm_config (tl_lib T) cfg i feeCap) i s = (r, s')"
  shows "op_world s' = op_world s \<and> sends T cfg i (\<exists>e. r = Inl e) s s'"
proof -
  let ?ec = "evm_config (tl_lib T) cfg i feeCap"
  let ?s0 = "s\<lparr>op_chain := (op_chain s)\<lparr>ch_next := newNonceAllocator\<rparr>\<rparr>"
  let ?pi = "\<lparr>pi_key = in_key i, pi_asset = in_asset i, pi_to = in_to i, pi_amount = Some (in_amount i)\<rparr>"
  obtain v s1 where v: "at_chain (VerifyChainID (tl_rpc T) ?ec) ?s0 = (v, s1)" by (rule prod.exhaust)
  have s1: "op_world s1 = op_world s" "ch_sent (op_chain s1) = ch_sent (op_chain s)"
    using at_chain_world [OF v] VerifyChainID_sent by fastforce+
  consider (early) e where "r = Inl e" "s' \<in> {s, ?s0, s1}"
    | (submit) "at_chain (Submit (tl_rpc T) (tl_lib T) (tl_geth T) (signerClient_Sign (tl_lib T) (tl_net T)) ?ec ?pi) s1 = (r, s')"
    using run v NewAdapter_same [of ?ec]
    by (cases "tl_dial_signer T (cfg_SignerGRPCAddr cfg)"; cases "tl_dial_chain T (cfg_ChainRPCURL cfg)"; cases "NewAdapter ?ec"; cases v)
      (auto simp: chain_part_def)
  then show ?thesis
  proof cases
    case early
    with s1 show ?thesis by (auto simp: sends_def)
  next
    case submit
    note oc = at_chain_world [OF submit]
    from laws have l: "address_laws (tl_lib T)" "codec_law (tl_lib T)" "hash_law (tl_lib T)" "fees_nonneg (tl_rpc T)"
      by (simp_all add: tool_laws_def)
    from Submit_one_transfer [OF l conjunct2 [OF oc]] show ?thesis
    proof
      assume "(\<exists>e. r = Inl e) \<and> ch_sent (op_chain s') = ch_sent (op_chain s1) \<and> ch_next (op_chain s') = ch_next (op_chain s1)"
      with oc s1 show ?thesis by (auto simp: sends_def)
    next
      assume "one_transfer (tl_lib T) (tl_geth T) ?ec ?pi r (op_chain s1) (op_chain s')"
      then obtain t where "ch_sent (op_chain s') = ch_sent (op_chain s1) @ [t]" "in_asset i = ''USDC''" "0 < in_amount i"
          "pays ?ec (HexToAddress (tl_lib T) (in_to i)) (in_amount i) t"
        unfolding one_transfer_def by auto
      with oc s1 fee show ?thesis by (auto simp: sends_def paid_def)
    qed
  qed
qed

lemma velocity_check_run:
  "velocity_check T cfg caps i s = (r, s') \<Longrightarrow> same_queue (db (op_world s)) (db (op_world s')) \<and> op_chain s' = op_chain s"
  using at_world_still [OF still_Charge]
  by (auto simp: velocity_check_def still.R_refl chk_def split: if_splits sum.splits)

lemma link_payment_run:
  "link_payment T cfg i h s = (r, s') \<Longrightarrow> same_queue (db (op_world s)) (db (op_world s')) \<and> op_chain s' = op_chain s"
  using at_world_still [OF still_Link]
  by (auto simp: link_payment_def still.R_refl chk_def split: if_splits sum.splits option.splits)

lemma sends_start: "op_chain s1 = op_chain s \<Longrightarrow> sends T cfg i b s1 s' = sends T cfg i b s s'"
  by (simp add: sends_def)

lemma sends_end: "op_chain s1 = op_chain s' \<Longrightarrow> sends T cfg i b s s1 = sends T cfg i b s s'"
  by (simp add: sends_def)

definition checked_chain_part :: "tool \<Rightarrow> config \<Rightarrow> Intent \<Rightarrow> int \<Rightarrow> ops \<Rightarrow> string result \<times> ops" where
  "checked_chain_part T cfg i feeCap s = chk (velocity_caps cfg, s) (\<lambda>caps s.
     chk (velocity_check T cfg caps i s) (\<lambda>_. chain_part T cfg (evm_config (tl_lib T) cfg i feeCap) i))"

lemma checked_chain_part_run:
  assumes "tool_laws T" "SetString (cfg_ChainMaxFeePerGasCapWei cfg) = Some feeCap"
    and run: "checked_chain_part T cfg i feeCap s = (r, s')"
  shows "same_queue (db (op_world s)) (db (op_world s')) \<and> sends T cfg i (\<exists>e. r = Inl e) s s'"
proof (cases "velocity_caps cfg")
  case (Inl e)
  with run show ?thesis by (auto simp: checked_chain_part_def sends_def still.R_refl)
next
  case (Inr caps)
  obtain v s1 where v: "velocity_check T cfg caps i s = (v, s1)" by (rule prod.exhaust)
  note s1 = velocity_check_run [OF v]
  show ?thesis
  proof (cases v)
    case (Inl e)
    with run v Inr s1 show ?thesis by (auto simp: checked_chain_part_def sends_def)
  next
    case (Inr u)
    with run v \<open>velocity_caps cfg = _\<close> have "chain_part T cfg (evm_config (tl_lib T) cfg i feeCap) i s1 = (r, s')"
      by (simp add: checked_chain_part_def)
    from chain_part_run [OF assms(1,2) this] s1 show ?thesis
      by (simp add: sends_start [of s1 s])
  qed
qed

lemma broadcastIntent_run:
  assumes laws: "tool_laws T" and run: "broadcastIntent T cfg i s = ((h, e), s')"
  shows "same_queue (db (op_world s)) (db (op_world s')) \<and> sends T cfg i (e \<noteq> None) s s'"
proof -
  consider (early) err where "e = Some err" "s' = s"
    | (go) feeCap where "SetString (cfg_ChainMaxFeePerGasCapWei cfg) = Some feeCap"
        "(case checked_chain_part T cfg i feeCap s of
           (Inl e, s) \<Rightarrow> (([], Some e), s)
         | (Inr txHash, s) \<Rightarrow> (case link_payment T cfg i txHash s of
              (Inl e, s) \<Rightarrow> ((txHash, Some e), s) | (Inr _, s) \<Rightarrow> ((txHash, None), s))) = ((h, e), s')"
    using run unfolding broadcastIntent_def checked_chain_part_def
    by (auto split: if_splits option.splits)
  then show ?thesis
  proof cases
    case early
    then show ?thesis by (simp add: sends_def still.R_refl)
  next
    case go
    obtain r s1 where c: "checked_chain_part T cfg i feeCap s = (r, s1)" by (rule prod.exhaust)
    note s1 = checked_chain_part_run [OF laws go(1) c]
    show ?thesis
    proof (cases r)
      case (Inl x)
      with go(2) c s1 show ?thesis by auto
    next
      case (Inr txHash)
      obtain l s2 where l: "link_payment T cfg i txHash s1 = (l, s2)" by (rule prod.exhaust)
      have "s' = s2" using go(2) c Inr l by (auto split: sum.splits)
      moreover have "sends T cfg i False s s1" using s1 Inr by simp
      then have "sends T cfg i (e \<noteq> None) s s1" by (auto simp: sends_def)
      ultimately show ?thesis
        using s1 link_payment_run [OF l] sends_end [of s1 s2] by (auto intro: still.R_trans)
    qed
  qed
qed

subsection \<open>What the commands do\<close>

definition screened :: "tool \<Rightarrow> config \<Rightarrow> string \<Rightarrow> bool" where
  "screened T cfg a \<longleftrightarrow> (\<exists>d. policy_Load (tl_lib T) (tl_files T) (cfg_PolicyDenylist cfg) = Inr d \<and> Screen (tl_lib T) d a = Inr ())"

lemma at_world_run: "at_world f s = (r, s') \<Longrightarrow> op_chain s' = op_chain s \<and> f (op_world s) = (r, op_world s')"
  by (auto simp: at_world_def split: prod.splits)

lemma runSubmit_run:
  assumes laws: "tool_laws T" and run: "runSubmit T f s = (r, s')"
  obtains (nothing) e where "r = Inl e" "s' = s"
  | (unparked) cfg e i where "config_Load (tl_getenv T) = Inr cfg" "r = Inl e" "op_chain s' = op_chain s"
      "Propose (tl_env T) (sf_proposer f) i (op_world s) = (Inl e, op_world s')"
  | (parked) cfg gate i aid where "config_Load (tl_getenv T) = Inr cfg" "buildApprovalGate cfg = Inr gate" "op_chain s' = op_chain s"
      "KnownApprover gate (sf_proposer f)" "screened T cfg (in_to i)" "Required gate (Some (in_amount i))"
      "Propose (tl_env T) (sf_proposer f) i (op_world s) = (Inr aid, op_world s')" "r = Inr ()"
  | (direct) cfg gate i where "config_Load (tl_getenv T) = Inr cfg" "buildApprovalGate cfg = Inr gate"
      "screened T cfg (in_to i)" "\<not> Required gate (Some (in_amount i))"
      "same_queue (db (op_world s)) (db (op_world s'))" "sends T cfg i (r \<noteq> Inr ()) s s'"
proof (cases "\<exists>amount cfg d gate. check_flags T f = Inr amount \<and> config_Load (tl_getenv T) = Inr cfg \<and>
    policy_Load (tl_lib T) (tl_files T) (cfg_PolicyDenylist cfg) = Inr d \<and> Screen (tl_lib T) d (sf_to f) = Inr () \<and>
    buildApprovalGate cfg = Inr gate")
  case False
  then have "(\<exists>e. r = Inl e) \<and> s' = s"
    using run unfolding runSubmit_def
    by (auto simp: chk_def split: sum.splits) (metis+)?
  then obtain e where "r = Inl e" "s' = s" by blast
  then show thesis by (rule nothing)
next
  case True
  then obtain amount cfg d gate where st: "check_flags T f = Inr amount" "config_Load (tl_getenv T) = Inr cfg"
    "policy_Load (tl_lib T) (tl_files T) (cfg_PolicyDenylist cfg) = Inr d" "Screen (tl_lib T) d (sf_to f) = Inr ()"
    "buildApprovalGate cfg = Inr gate" by blast
  let ?i = "submit_intent cfg f amount"
  have scr: "screened T cfg (in_to ?i)" using st(3,4) by (auto simp: screened_def submit_intent_def)
  have amt: "in_amount ?i = amount" by (simp add: submit_intent_def)
  show thesis
  proof (cases "Required gate (Some amount)")
    case req: True
    obtain p s1 where p: "at_world (Propose (tl_env T) (sf_proposer f) ?i) s = (p, s1)" by (rule prod.exhaust)
    note w = at_world_run [OF p]
    have "(\<exists>e. r = Inl e) \<and> s' = s \<or> (\<exists>e. p = Inl e \<and> r = Inl e) \<and> s' = s1 \<or>
        (\<exists>aid. p = Inr aid) \<and> r = Inr () \<and> s' = s1 \<and> KnownApprover gate (sf_proposer f)"
    proof (cases "tl_open_db T (cfg_DatabaseURL cfg)")
      case (Inl e)
      have "(\<exists>e. r = Inl e) \<and> s' = s" using run st req by (auto simp: runSubmit_def Inl split: if_splits)
      then show ?thesis ..
    next
      case (Inr u)
      then show ?thesis using run st req p by (cases p) (auto simp: runSubmit_def Inr split: if_splits)
    qed
    then consider (stop) e where "r = Inl e" "s' = s"
      | (bad) e where "p = Inl e" "r = Inl e" "s' = s1"
      | (good) aid where "p = Inr aid" "r = Inr ()" "s' = s1" "KnownApprover gate (sf_proposer f)"
      by blast
    then show thesis
    proof cases
      case stop
      then show thesis by (rule nothing)
    next
      case bad
      with w st(2) show thesis using unparked [of cfg e ?i] by blast
    next
      case good
      with w st(2,5) scr req amt show thesis using parked [of cfg gate ?i aid] by simp
    qed
  next
    case nreq: False
    obtain h e s1 where b: "broadcastIntent T cfg ?i s = ((h, e), s1)" by (metis prod.exhaust)
    have "s' = s1" "r = Inr () \<longleftrightarrow> e = None"
      using run st nreq b unfolding runSubmit_def by (auto split: option.splits)
    with broadcastIntent_run [OF laws b] scr st(2,5) nreq amt direct [of cfg gate ?i] show thesis by simp
  qed
qed

lemma runApprove_run:
  assumes laws: "tool_laws T" and run: "runApprove T a op s = (r, s')"
  obtains (nothing) e where "r = Inl e" "s' = s"
  | (refused) e dec e' where "r = Inl e" "Claim (tl_env T) a op dec (op_world s) = (Inl e', op_world s')" "op_chain s' = op_chain s"
  | (claimed) cfg gate i w1 w2 where "config_Load (tl_getenv T) = Inr cfg" "buildApprovalGate cfg = Inr gate"
      "Claim (tl_env T) a op (\<lambda>pa. Authorize gate (pa_proposer pa) op) (op_world s) = (Inr i, w1)"
      "same_queue (db w1) (db w2)" "sends T cfg i (r \<noteq> Inr ()) s s'"
      "op_world s' = w2 \<or> (\<exists>x. Reopen (tl_env T) a w2 = (x, op_world s')) \<or> (\<exists>x h. MarkBroadcast (tl_env T) a h w2 = (x, op_world s'))"
proof (cases "a \<noteq> [] \<and> op \<noteq> [] \<and> (\<exists>cfg gate. config_Load (tl_getenv T) = Inr cfg \<and> buildApprovalGate cfg = Inr gate \<and>
    tl_open_db T (cfg_DatabaseURL cfg) = Inr ())")
  case False
  then have "(\<exists>e. r = Inl e) \<and> s' = s"
    using run unfolding runApprove_def
    by (auto simp: chk_def split: sum.splits if_splits) (metis+)?
  then obtain e where "r = Inl e" "s' = s" by blast
  then show thesis by (rule nothing)
next
  case True
  then obtain cfg gate where st: "a \<noteq> []" "op \<noteq> []" "config_Load (tl_getenv T) = Inr cfg" "buildApprovalGate cfg = Inr gate"
    "tl_open_db T (cfg_DatabaseURL cfg) = Inr ()" by blast
  let ?dec = "\<lambda>pa. Authorize gate (pa_proposer pa) op"
  obtain c s1 where c: "at_world (Claim (tl_env T) a op ?dec) s = (c, s1)" by (rule prod.exhaust)
  note w = at_world_run [OF c]
  show thesis
  proof (cases c)
    case (Inl e)
    with run st c have "r = Inl (claim_message e)" "s' = s1" by (simp_all add: runApprove_def map_err_def)
    with w Inl refused [of "claim_message e" ?dec e] show thesis by simp
  next
    case (Inr i)
    obtain h e s2 where b: "broadcastIntent T cfg i s1 = ((h, e), s2)" by (metis prod.exhaust)
    note bi = broadcastIntent_run [OF laws b]
    have after: "(r = Inr () \<longleftrightarrow> e = None) \<and> (s' = s2 \<or> s' = snd (at_world (Reopen (tl_env T) a) s2) \<or>
        s' = snd (at_world (MarkBroadcast (tl_env T) a h) s2))"
      using run st c Inr b by (auto simp: runApprove_def map_err_def split: option.splits if_splits)
    have chain: "op_chain s' = op_chain s2" using after by (auto simp: at_world_def split: prod.splits)
    have world: "op_world s' = op_world s2 \<or> (\<exists>x. Reopen (tl_env T) a (op_world s2) = (x, op_world s')) \<or>
        (\<exists>x h. MarkBroadcast (tl_env T) a h (op_world s2) = (x, op_world s'))"
      using after by (auto simp: at_world_def split: prod.splits)
    have "sends T cfg i (r \<noteq> Inr ()) s s'"
      using bi after w chain by (simp add: sends_def)
    with claimed [of cfg gate i "op_world s1" "op_world s2"] st(3,4) w Inr bi world show thesis by simp
  qed
qed

subsection \<open>Authorization over any sequence of commands\<close>

text \<open>The operators' steps: a command with any flags, by anyone, at any time.\<close>

inductive op_step :: "tool \<Rightarrow> ops \<Rightarrow> ops \<Rightarrow> bool" for T where
  submit: "runSubmit T f s = (r, s') \<Longrightarrow> op_step T s s'"
| approve: "runApprove T a op s = (r, s') \<Longrightarrow> op_step T s s'"

text \<open>What the audit entries of an approval refer to.\<close>

definition approval_agg :: "env \<Rightarrow> PaymentApproval \<Rightarrow> string" where
  "approval_agg E a = (if row_payment E a = [] then uuid_String E (ap_id a) else row_payment E a)"

text \<open>A parked payment that a second operator approved, both operators of the allowlist.\<close>

definition four_eyes :: "env \<Rightarrow> ApprovalGate option \<Rightarrow> tables \<Rightarrow> Intent \<Rightarrow> bool" where
  "four_eyes E g t i \<longleftrightarrow> (\<exists>a \<in> set (approvals t). \<exists>op. \<exists>l \<in> set (audit t). i = row_intent E a \<and>
     KnownApprover g (ap_proposer a) \<and> KnownApprover g op \<and> op \<noteq> ap_proposer a \<and>
     logged op ''operator.approve'' (approval_agg E a) l)"

definition authorized :: "tool \<Rightarrow> config \<Rightarrow> ApprovalGate option \<Rightarrow> tables \<Rightarrow> Transaction \<Rightarrow> bool" where
  "authorized T cfg g t x \<longleftrightarrow> (\<exists>i. paid T cfg i x \<and> screened T cfg (in_to i) \<and>
     (Required g (Some (in_amount i)) \<longrightarrow> four_eyes (tl_env T) g t i))"

definition ops_ok :: "tool \<Rightarrow> config \<Rightarrow> ApprovalGate option \<Rightarrow> ops \<Rightarrow> bool" where
  "ops_ok T cfg g s \<longleftrightarrow> queue_ok g (db (op_world s)) \<and> (\<forall>a \<in> set (approvals (db (op_world s))). screened T cfg (ap_to a)) \<and>
     (\<forall>x \<in> set (ch_sent (op_chain s)). authorized T cfg g (db (op_world s)) x)"

definition kept :: "tables \<Rightarrow> tables \<Rightarrow> bool" where
  "kept t t' \<longleftrightarrow> ap_columns ` set (approvals t) \<subseteq> ap_columns ` set (approvals t') \<and> set (audit t) \<subseteq> set (audit t')"

lemma columns_eq:
  "ap_columns b = ap_columns a \<Longrightarrow> row_intent E b = row_intent E a \<and> approval_agg E b = approval_agg E a \<and>
     ap_proposer b = ap_proposer a \<and> ap_id b = ap_id a \<and> ap_to b = ap_to a"
  by (simp add: ap_columns_def row_intent_def row_payment_def approval_agg_def)

lemma four_eyes_kept:
  assumes "kept t t'" "four_eyes E g t i"
  shows "four_eyes E g t' i"
proof -
  from assms(2) obtain a op l where a: "a \<in> set (approvals t)" "l \<in> set (audit t)" "i = row_intent E a"
      "KnownApprover g (ap_proposer a)" "KnownApprover g op" "op \<noteq> ap_proposer a"
      "logged op ''operator.approve'' (approval_agg E a) l"
    unfolding four_eyes_def by blast
  from a(1) assms(1) obtain b where b: "b \<in> set (approvals t')" "ap_columns b = ap_columns a"
    by (auto simp: kept_def dest!: subsetD [OF _ imageI] elim!: imageE)
  have "l \<in> set (audit t')" using a(2) assms(1) by (auto simp: kept_def)
  show ?thesis unfolding four_eyes_def
    by (intro bexI [OF _ b(1)] exI [of _ op] bexI [OF _ \<open>l \<in> set (audit t')\<close>] conjI)
      (use a(3-) columns_eq [OF b(2), of E] in simp_all)
qed

lemma authorized_kept: "kept t t' \<Longrightarrow> authorized T cfg g t x \<Longrightarrow> authorized T cfg g t' x"
  unfolding authorized_def using four_eyes_kept by blast

lemma kept_same: "same_queue t t' \<Longrightarrow> kept t t'"
  by (simp add: same_queue_def kept_def)

lemma kept_trans: "kept t u \<Longrightarrow> kept u v \<Longrightarrow> kept t v"
  unfolding kept_def by blast

lemma columns_update:
  "(\<And>a. ap_columns (f a) = ap_columns a) \<Longrightarrow> ap_columns ` set (update_where hit f as) = ap_columns ` set as"
proof -
  assume "\<And>a. ap_columns (f a) = ap_columns a"
  then have "ap_columns (if hit a then f a else a) = ap_columns a" for a by simp
  then show ?thesis by (simp only: update_where_def set_map image_image)
qed

lemma columns_simps [simp]:
  "ap_columns (a\<lparr>ap_tx := h\<rparr>) = ap_columns a"
  "ap_columns (a\<lparr>ap_status := st, ap_approver := op\<rparr>) = ap_columns a"
  by (simp_all add: ap_columns_def)

text \<open>Everything after a claim leaves the columns of the queue alone.\<close>

lemma follow_up_columns:
  assumes "w' = w \<or> (\<exists>x. Reopen E a w = (x, w')) \<or> (\<exists>x h. MarkBroadcast E a h w = (x, w'))"
  shows "ap_columns ` set (approvals (db w')) = ap_columns ` set (approvals (db w)) \<and> audit (db w') = audit (db w)"
  using assms
proof (elim disjE exE)
  fix x assume "Reopen E a w = (x, w')"
  from Reopen_run [OF this] show ?thesis by (elim disjE exE conjE) (simp_all add: columns_update)
next
  fix x h assume "MarkBroadcast E a h w = (x, w')"
  from MarkBroadcast_run [OF this] show ?thesis by (elim disjE exE conjE) (simp_all add: columns_update)
qed simp

lemma follow_up_queue_ok:
  "w' = w \<or> (\<exists>x. Reopen E a w = (x, w')) \<or> (\<exists>x h. MarkBroadcast E a h w = (x, w')) \<Longrightarrow> queue_ok g (db w) \<Longrightarrow> queue_ok g (db w')"
  by (elim disjE exE) (simp, (rule queue_ok_step, rule queue_step.reopen queue_step.broadcast, assumption+)+)

lemma claim_four_eyes:
  assumes ok: "queue_ok g (db w)" and cl: "Claim E a op (\<lambda>pa. Authorize g (pa_proposer pa) op) w = (Inr i, w1)"
  shows "four_eyes E g (db w1) i \<and> kept (db w) (db w1) \<and>
    ap_columns ` set (approvals (db w1)) = ap_columns ` set (approvals (db w)) \<and> (\<exists>row \<in> set (approvals (db w)). in_to i = ap_to row)"
proof -
  from cl obtain aid row l where c:
      "List.find (\<lambda>a. ap_id a = aid) (approvals (db w)) = Some row" "ap_id row = aid" "i = row_intent E row"
      "Authorize g (ap_proposer row) op = Inr ()"
      "db w1 = (db w)\<lparr>approvals := update_where (\<lambda>a. ap_id a = aid \<and> ap_status a = ''pending'') (approved_by op) (approvals (db w)),
         audit := audit (db w) @ [l]\<rparr>"
      "logged op ''operator.approve'' (if row_payment E row = [] then uuid_String E aid else row_payment E row) l"
    by (rule Claim_ok) simp
  have cols: "ap_columns ` set (approvals (db w1)) = ap_columns ` set (approvals (db w))"
    unfolding c(5) by (simp add: columns_update approved_by_def)
  have row: "row \<in> set (approvals (db w))" using c(1) by (auto dest: find_Some_in)
  then have "ap_columns row \<in> ap_columns ` set (approvals (db w1))" unfolding cols by (rule imageI)
  then obtain b where b: "b \<in> set (approvals (db w1))" "ap_columns b = ap_columns row" by (rule imageE) (metis that)
  have known: "KnownApprover g (ap_proposer row)" using ok row unfolding queue_ok_def row_ok_def by blast
  have agg: "logged op ''operator.approve'' (approval_agg E row) l" using c(6) unfolding approval_agg_def c(2) .
  have "four_eyes E g (db w1) i"
    unfolding four_eyes_def
  proof (intro bexI [OF _ b(1)] exI [of _ op] bexI [of _ l] conjI)
    show "l \<in> set (audit (db w1))" by (simp add: c(5))
  qed (use columns_eq [OF b(2), of E] c(2,3) agg known Authorize_ok [OF c(4)] in simp_all)
  moreover have "kept (db w) (db w1)" using cols by (simp add: kept_def c(5) subset_insertI)
  moreover have "in_to i = ap_to row" by (simp add: c(3) row_intent_def)
  ultimately show ?thesis using cols row by (intro conjI bexI [of _ row])
qed

lemma screened_columns:
  "ap_columns ` set as' = ap_columns ` set as \<Longrightarrow> (\<forall>a \<in> set as. P (ap_to a)) \<Longrightarrow> (\<forall>a \<in> set as'. P (ap_to a))"
proof
  fix b assume eq: "ap_columns ` set as' = ap_columns ` set as" and P: "\<forall>a \<in> set as. P (ap_to a)" and b: "b \<in> set as'"
  from b have "ap_columns b \<in> ap_columns ` set as" unfolding eq [symmetric] by (rule imageI)
  then obtain a where a: "a \<in> set as" "ap_columns b = ap_columns a" by (rule imageE) (metis that)
  with P show "P (ap_to b)" using columns_eq [OF a(2)] by simp
qed

lemma ops_ok_sends:
  assumes ok: "\<forall>x \<in> set (ch_sent (op_chain s)). authorized T cfg g t x" and k: "kept t t'"
    and snt: "sends T cfg i b s s'" and scr: "screened T cfg (in_to i)"
    and req: "Required g (Some (in_amount i)) \<longrightarrow> four_eyes (tl_env T) g t' i"
  shows "\<forall>x \<in> set (ch_sent (op_chain s')). authorized T cfg g t' x"
proof -
  have old: "\<forall>x \<in> set (ch_sent (op_chain s)). authorized T cfg g t' x" using ok authorized_kept [OF k] by blast
  have "authorized T cfg g t' x" if "paid T cfg i x" for x
    using that scr req unfolding authorized_def by blast
  with old snt show ?thesis by (auto simp: sends_def)
qed

lemma ops_ok_submit:
  assumes laws: "tool_laws T" and cg: "config_Load (tl_getenv T) = Inr cfg" "buildApprovalGate cfg = Inr g"
    and ok: "ops_ok T cfg g s" and run: "runSubmit T f s = (r, s')"
  shows "ops_ok T cfg g s'"
proof -
  have q: "queue_ok g (db (op_world s))" and scr: "\<forall>a \<in> set (approvals (db (op_world s))). screened T cfg (ap_to a)"
    and sent: "\<forall>x \<in> set (ch_sent (op_chain s)). authorized T cfg g (db (op_world s)) x"
    using ok unfolding ops_ok_def by blast+
  from laws run show ?thesis
  proof (cases rule: runSubmit_run)
    case nothing
    with ok show ?thesis by simp
  next
    case (unparked _ e i)
    from Propose_err [OF unparked(4)] unparked(3) ok show ?thesis by (simp add: ops_ok_def)
  next
    case (parked cfg' gate i aid)
    with cg have [simp]: "cfg' = cfg" "gate = g" by simp_all
    have q': "queue_ok g (db (op_world s'))"
      using queue_ok_Propose [OF q _ parked(7)] parked(4) by simp
    from parked(7) obtain u now l where p:
      "db (op_world s') = (db (op_world s))\<lparr>approvals := approvals (db (op_world s)) @ [parked (tl_env T) u (sf_proposer f) i now],
         audit := audit (db (op_world s)) @ [l]\<rparr>"
      by (rule Propose_ok)
    have k: "kept (db (op_world s)) (db (op_world s'))" by (auto simp: kept_def p)
    have "\<forall>a \<in> set (approvals (db (op_world s'))). screened T cfg (ap_to a)"
      using scr parked(5) by (simp add: p parked_def)
    with q' sent authorized_kept [OF k] parked(3) show ?thesis by (simp add: ops_ok_def)
  next
    case (direct cfg' gate i)
    with cg have [simp]: "cfg' = cfg" "gate = g" by simp_all
    have "\<forall>x \<in> set (ch_sent (op_chain s')). authorized T cfg g (db (op_world s')) x"
      using ops_ok_sends [OF sent kept_same [OF direct(5)] direct(6) [simplified]] direct(3,4) by simp
    moreover have "queue_ok g (db (op_world s'))"
      using q direct(5) queue_ok_cong [of "db (op_world s')" "db (op_world s)" g] by (simp add: same_queue_def)
    ultimately show ?thesis using scr direct(5) by (simp add: ops_ok_def same_queue_def)
  qed
qed

lemma ops_ok_approve:
  assumes laws: "tool_laws T" and cg: "config_Load (tl_getenv T) = Inr cfg" "buildApprovalGate cfg = Inr g"
    and ok: "ops_ok T cfg g s" and run: "runApprove T a op s = (r, s')"
  shows "ops_ok T cfg g s'"
proof -
  have q: "queue_ok g (db (op_world s))" and scr: "\<forall>a \<in> set (approvals (db (op_world s))). screened T cfg (ap_to a)"
    and sent: "\<forall>x \<in> set (ch_sent (op_chain s)). authorized T cfg g (db (op_world s)) x"
    using ok unfolding ops_ok_def by blast+
  from laws run show ?thesis
  proof (cases rule: runApprove_run)
    case nothing
    with ok show ?thesis by simp
  next
    case (refused e dec e')
    from Claim_err [OF refused(2)] refused(3) ok show ?thesis by (simp add: ops_ok_def)
  next
    case (claimed cfg' gate i w1 w2)
    with cg have [simp]: "cfg' = cfg" "gate = g" by simp_all
    note cl = claimed(3) [simplified]
    note fe = claim_four_eyes [OF q cl]
    have q1: "queue_ok g (db w1)" by (rule queue_ok_Claim [OF q cl])
    have q2: "queue_ok g (db w2)" using q1 claimed(4) queue_ok_cong [of "db w2" "db w1" g] by (simp add: same_queue_def)
    note cols = follow_up_columns [OF claimed(6)]
    have k: "kept (db w1) (db (op_world s'))" using cols claimed(4) by (simp add: kept_def same_queue_def)
    have "\<forall>x \<in> set (ch_sent (op_chain s')). authorized T cfg g (db (op_world s')) x"
    proof (rule ops_ok_sends [OF sent])
      show "kept (db (op_world s)) (db (op_world s'))" using fe k kept_trans by blast
      show "sends T cfg i (r \<noteq> Inr ()) s s'" using claimed(5) by simp
      show "screened T cfg (in_to i)" using fe scr by auto
    qed (use four_eyes_kept [OF k] fe in blast)
    moreover have "queue_ok g (db (op_world s'))" by (rule follow_up_queue_ok [OF claimed(6) q2])
    moreover have "ap_columns ` set (approvals (db (op_world s'))) = ap_columns ` set (approvals (db (op_world s)))"
      using cols claimed(4) fe by (simp add: same_queue_def)
    from screened_columns [OF this scr] have "\<forall>a \<in> set (approvals (db (op_world s'))). screened T cfg (ap_to a)" .
    ultimately show ?thesis by (simp add: ops_ok_def)
  qed
qed

subsection \<open>Properties\<close>

text \<open>
  C1. Every payment on the chain was authorized: starting with an empty queue and nothing sent, after
  any sequence of \<open>submit\<close> and \<open>approve\<close> commands, with any flags and with faults of the database, the
  signer, the network and the node anywhere, every transaction the node has accepted is a USDC transfer
  of exactly the amount and to exactly the recipient of an intent whose recipient passed the denylist,
  within the configured gas and fee caps; and when the amount reaches the four-eyes threshold the intent
  is a parked one, proposed by an operator of the allowlist and approved, on the audit log, by another.\<close>

theorem every_payment_authorized:
  assumes "tool_laws T" "config_Load (tl_getenv T) = Inr cfg" "buildApprovalGate cfg = Inr g"
    and "(op_step T)\<^sup>*\<^sup>* s s'" "approvals (db (op_world s)) = []" "ch_sent (op_chain s) = []"
    and "x \<in> set (ch_sent (op_chain s'))"
  shows "authorized T cfg g (db (op_world s')) x"
proof -
  have "ops_ok T cfg g s'"
    using assms(4)
  proof (induction rule: rtranclp_induct)
    case base
    show ?case using assms(5,6) by (simp add: ops_ok_def queue_ok_def)
  next
    case (step y z)
    from step(2) show ?case
      by (cases rule: op_step.cases) (use step.IH assms(1-3) ops_ok_submit ops_ok_approve in blast)+
  qed
  with assms(7) show ?thesis by (simp add: ops_ok_def)
qed

subsection \<open>Instances\<close>

definition rail_env :: getenv where
  "rail_env = (\<lambda>k. case map_of [(''PAYMENT_RAIL_CHAIN_RPC_URL'', ''u''), (''PAYMENT_RAIL_CHAIN_KEY_ID'', ''k''),
     (''PAYMENT_RAIL_CHAIN_FROM_ADDRESS'', ''from''), (''PAYMENT_RAIL_CHAIN_USDC_ADDRESS'', ''usdctoken''),
     (''PAYMENT_RAIL_CHAIN_ID'', ''5''), (''PAYMENT_RAIL_CHAIN_MAX_FEE_PER_GAS_CAP_WEI'', ''99''),
     (''PAYMENT_RAIL_POLICY_APPROVAL_THRESHOLD'', ''50''),
     (''PAYMENT_RAIL_POLICY_APPROVERS'', ''alice,bob'')] k of None \<Rightarrow> [] | Some v \<Rightarrow> v)"

definition rail_cfg :: config where
  "rail_cfg = (defaults rail_env)\<lparr>cfg_ChainID := 5\<rparr>"

definition second_transfer :: Transaction where
  "second_transfer = usdc_transfer\<lparr>tx_nonce := 8\<rparr>"

definition lib2 :: gethtx where
  "lib2 = (lib0 usdc_transfer)\<lparr>
     MarshalBinary := (\<lambda>t. if t = usdc_transfer then Inr ''1'' else if t = second_transfer then Inr ''2'' else Inl (OpError ''rlp'')),
     UnmarshalBinary := (\<lambda>b. Inr (if b = ''1'' then usdc_transfer else second_transfer))\<rparr>"

text \<open>A node that takes the transaction with nonce 7 but whose answer is lost, and knows it from then on.\<close>

definition rpc2 :: ethRPC where
  "rpc2 = (rpc0 SendOk)\<lparr>rpc_PendingNonceAt := (\<lambda>n a. Inr (if n < 6 then 7 else 8)),
     rpc_SendTransaction := (\<lambda>n t. if tx_nonce t = 7 then SendErr True else SendOk)\<rparr>"

definition tool0 :: tool where
  "tool0 = \<lparr>tl_env = env1, tl_getenv = rail_env, tl_lib = lib2, tl_geth = geth1, tl_rpc = rpc2, tl_net = grpc0,
     tl_files = files0, tl_open_db = (\<lambda>d. Inr ()), tl_dial_signer = (\<lambda>a. Inr ()), tl_dial_chain = (\<lambda>u. Inr ())\<rparr>"

definition flags0 :: submit_flags where
  "flags0 = \<lparr>sf_to = ''abc'', sf_amount = ''50'', sf_asset = ''USDC'', sf_key = [], sf_payment = [], sf_proposer = ''alice''\<rparr>"

lemma tool0_laws: "tool_laws tool0"
proof -
  have "address_laws lib2" "hash_law lib2"
    using lib0_laws [of usdc_transfer] by (simp_all add: lib2_def address_laws_def hash_law_def)
  moreover have "codec_law lib2" by (auto simp: codec_law_def lib2_def split: if_splits)
  ultimately show ?thesis using rpc0_fees [of SendOk] by (simp add: tool_laws_def tool0_def rpc2_def fees_nonneg_def)
qed

lemma rail_loads: "config_Load rail_env = Inr rail_cfg" "buildApprovalGate rail_cfg = Inr gate0"
proof -
  have "ParseUint ''5'' = Some 5" by (simp add: ParseUint_def unsigned_def digit_val_def)
  then show "config_Load rail_env = Inr rail_cfg"
    by (simp add: config_Load_def Let_def secs_var_def uint_var_def window_var_def rail_env_def rail_cfg_def defaults_def)
  have "splitBrokers ''alice,bob'' = [''alice'', ''bob'']" by code_simp
  moreover have "SetString ''50'' = Some 50" by code_simp
  ultimately show "buildApprovalGate rail_cfg = Inr gate0"
    by (simp add: buildApprovalGate_def rail_cfg_def defaults_def getEnv_def rail_env_def gate0_def)
qed

lemma tool0_simps [simp]: "tl_getenv tool0 = rail_env" "tl_env tool0 = env1" "tl_open_db tool0 d = Inr ()" "tl_lib tool0 = lib2"
  by (simp_all add: tool0_def)

definition cfg99 :: Config where
  "cfg99 = cfg0\<lparr>cf_fee_cap := Some 99\<rparr>"

definition send99 :: "(nat \<times> Keyring) chain \<Rightarrow> string result \<times> (nat \<times> Keyring) chain" where
  "send99 c = chk (VerifyChainID rpc2 cfg99 (c\<lparr>ch_next := newNonceAllocator\<rparr>)) (\<lambda>_.
     Submit rpc2 lib2 geth1 (signerClient_Sign lib2 grpc0) cfg99 intent0)"

lemma rail_cfg_simps:
  "cfg_ChainRPCURL rail_cfg = ''u''" "cfg_ChainFromAddress rail_cfg = ''from''" "cfg_ChainUSDCAddress rail_cfg = ''usdctoken''"
  "cfg_ChainMaxFeePerGasCapWei rail_cfg = ''99''" "cfg_ChainID rail_cfg = 5" "cfg_ChainGasLimitCap rail_cfg = 300000"
  "cfg_PolicyVelocityMaxAmount rail_cfg = []" "cfg_PolicyVelocityWindow rail_cfg = 0" "cfg_ChainKeyID rail_cfg = ''k''"
  "cfg_PolicyDenylist rail_cfg = []"
  by (simp_all add: rail_cfg_def defaults_def getEnv_def rail_env_def)

lemma rail_evm: "evm_config lib2 rail_cfg big_intent 99 = cfg99" "NewAdapter cfg99 = Inr cfg99" "SetString ''99'' = Some 99"
  by (simp_all add: evm_config_def rail_cfg_simps cfg99_def cfg0_def big_intent_def lib2_def lib0_def NewAdapter_def
      SetString_def unsigned_def digit_val_def)

lemma rail_broadcast:
  "broadcastIntent tool0 rail_cfg big_intent s =
     (case send99 (op_chain s) of
        (Inl e, c) \<Rightarrow> (([], Some e), s\<lparr>op_chain := c\<rparr>)
      | (Inr h, c) \<Rightarrow> ((h, None), s\<lparr>op_chain := c\<rparr>))"
proof -
  have i: "\<lparr>pi_key = in_key big_intent, pi_asset = in_asset big_intent, pi_to = in_to big_intent, pi_amount = Some (in_amount big_intent)\<rparr> = intent0"
    "in_key big_intent = ''k''" "in_payment big_intent = []"
    by (simp_all add: big_intent_def intent0_def)
  have chain: "chain_part tool0 rail_cfg cfg99 big_intent s = (case send99 (op_chain s) of (r, c) \<Rightarrow> (r, s\<lparr>op_chain := c\<rparr>))"
    unfolding chain_part_def i(1)
    by (auto simp: tool0_def rail_evm send99_def at_chain_def chk_def split: sum.splits prod.splits)
  show ?thesis
    by (simp add: broadcastIntent_def velocity_caps_def velocity_check_def Enabled_def link_payment_def rail_cfg_simps rail_evm i chain
        split: sum.splits prod.splits)
qed

lemma send99_runs:
  "fst (send99 chain0) = Inl ErrBroadcast" "ch_sent (snd (send99 chain0)) = [usdc_transfer]"
  "fst (send99 (snd (send99 chain0))) = Inr ''0x''"
  "ch_sent (snd (send99 (snd (send99 chain0)))) = [usdc_transfer, second_transfer]"
  by code_simp+


text \<open>The queue during the run: claimed, reopened and claimed again.\<close>

definition approve0 :: "world \<Rightarrow> Intent result \<times> world" where
  "approve0 w = Claim env1 ''u'' ''bob'' (\<lambda>pa. Authorize gate0 (pa_proposer pa) ''bob'') w"

definition reopened0 :: world where
  "reopened0 = snd (Reopen env1 ''u'' (snd (approve0 parked0)))"

lemma approvals0: "fst (approve0 parked0) = Inr big_intent" "fst (approve0 reopened0) = Inr big_intent"
  unfolding reopened0_def approve0_def parked0_def
  by (simp_all add: queue_eval Reopen_def ReopenApproval_def guard_def)

lemma rail_approve:
  assumes "approve0 (op_world s) = (Inr big_intent, w)"
  shows "runApprove tool0 ''u'' ''bob'' s =
    (case send99 (op_chain s) of
       (Inl e, c) \<Rightarrow> (Inl e, \<lparr>op_world = snd (Reopen env1 ''u'' w), op_chain = c\<rparr>)
     | (Inr h, c) \<Rightarrow> (Inr (), \<lparr>op_world = snd (MarkBroadcast env1 ''u'' h w), op_chain = c\<rparr>))"
  using assms unfolding runApprove_def approve0_def
  by (simp add: rail_loads at_world_def map_err_def rail_broadcast split: sum.splits prod.splits)

definition parked_ops :: ops where
  "parked_ops = \<lparr>op_world = parked0, op_chain = chain0\<rparr>"

lemma first_approve:
  "runApprove tool0 ''u'' ''bob'' parked_ops = (Inl ErrBroadcast, \<lparr>op_world = reopened0, op_chain = snd (send99 chain0)\<rparr>)"
proof -
  have "approve0 (op_world parked_ops) = (Inr big_intent, snd (approve0 parked0))"
    by (simp add: parked_ops_def prod_eq_iff approvals0)
  from rail_approve [OF this] send99_runs(1) show ?thesis
    by (simp add: parked_ops_def reopened0_def split: prod.splits)
qed

lemma second_approve:
  "fst (runApprove tool0 ''u'' ''bob'' \<lparr>op_world = reopened0, op_chain = snd (send99 chain0)\<rparr>) = Inr ()"
  "op_chain (snd (runApprove tool0 ''u'' ''bob'' \<lparr>op_world = reopened0, op_chain = snd (send99 chain0)\<rparr>)) =
     snd (send99 (snd (send99 chain0)))"
proof -
  let ?s = "\<lparr>op_world = reopened0, op_chain = snd (send99 chain0)\<rparr> :: ops"
  have "approve0 (op_world ?s) = (Inr big_intent, snd (approve0 reopened0))"
    by (simp add: prod_eq_iff approvals0)
  from rail_approve [OF this] send99_runs(3) show "fst (runApprove tool0 ''u'' ''bob'' ?s) = Inr ()"
    "op_chain (snd (runApprove tool0 ''u'' ''bob'' ?s)) = snd (send99 (snd (send99 chain0)))"
    by (simp_all split: prod.splits)
qed

lemma paid0: "paid tool0 rail_cfg big_intent usdc_transfer" "paid tool0 rail_cfg big_intent second_transfer"
  unfolding paid_def
  by (rule exI [of _ 99], simp add: rail_cfg_simps rail_evm; simp add: big_intent_def pays_def cfg99_def cfg0_def second_transfer_def
      usdc_transfer_def lib2_def lib0_def)+

lemma rail_submit: "runSubmit tool0 flags0 \<lparr>op_world = idle no_tables, op_chain = chain0\<rparr> = (Inr (), parked_ops)"
proof -
  have a: "SetString ''50'' = Some 50" by (simp add: SetString_def unsigned_def digit_val_def)
  have i: "submit_intent rail_cfg flags0 50 = big_intent"
    by (simp add: submit_intent_def flags0_def rail_cfg_simps big_intent_def)
  have c: "check_flags tool0 flags0 = Inr 50"
    using a by (simp add: check_flags_def flags0_def) (simp add: lib2_def lib0_def)
  have g: "Required gate0 (Some 50)" "KnownApprover gate0 ''alice''"
    by (simp_all add: gate0_def NewApprovalGate_def Required_def gate_enabled_def KnownApprover_def)
  have f: "sf_proposer flags0 = ''alice''" by (simp add: flags0_def)
  show ?thesis
    unfolding runSubmit_def
    by (simp add: c rail_loads rail_cfg_simps policy_Load_def Screen_def g f i at_world_def parked0_run parked_ops_def
        del: env1_simps)
qed

theorem every_payment_authorized_witness:
  "authorized tool0 rail_cfg gate0 (db reopened0) usdc_transfer"
proof -
  let ?s = "\<lparr>op_world = reopened0, op_chain = snd (send99 chain0)\<rparr> :: ops"
  let ?start = "\<lparr>op_world = idle no_tables, op_chain = chain0\<rparr> :: ops"
  have "(op_step tool0)\<^sup>*\<^sup>* ?start ?s"
    using op_step.submit [OF rail_submit] op_step.approve [OF first_approve]
    by (meson r_into_rtranclp rtranclp_trans)
  moreover have "approvals (db (op_world ?start)) = []" "ch_sent (op_chain ?start) = []"
    by (simp_all add: no_tables_def chain0_def)
  ultimately show ?thesis
    using every_payment_authorized [OF tool0_laws _ rail_loads(2), of ?start ?s usdc_transfer]
    by (simp add: rail_loads send99_runs)
qed


end
