(* ===== verification/Reconcile.thy ===== *)
theory Reconcile
  imports Operator "HOL-Library.List_Lexorder" "HOL-Library.Char_ord"
begin

section \<open>Reconciliation\<close>

text \<open>
  \<open>internal/reconcile\<close> and the commands \<open>reconcile\<close> and \<open>audit verify\<close> of \<open>cmd/paymentrailctl\<close>: the keyset
  walk over the settlements, the treasury registry, the report and its text, and the exit codes. The
  walk is a loop that need not end, so it is a partial function whose value \<open>None\<close> means that it does
  not return. The manifest file, its decoding, the format of a time and the iteration order of a map
  are parameters.

  The lemmas show that the walk returns for every positive page size and then agrees with one pass over
  the table, that a clean exit means the treasuries hold exactly the value that is settled on chain,
  and that on a sound ledger the reserve check can never fail, because the liabilities are negated.
\<close>

subsection \<open>aggregate.go\<close>

record AssetSums =
  as_finalized :: int
  as_confirmed :: int

type_synonym asset_sums = "(string \<times> AssetSums) list"

definition sums_of :: "asset_sums \<Rightarrow> string \<Rightarrow> AssetSums" where
  "sums_of m asset = (case map_of m asset of None \<Rightarrow> \<lparr>as_finalized = 0, as_confirmed = 0\<rparr> | Some s \<Rightarrow> s)"

definition accumulate :: "ReconcileRow \<Rightarrow> asset_sums \<Rightarrow> asset_sums" where
  "accumulate r m =
     (let s = sums_of m (rr_asset r) in
      if rr_status r = ''finalized''
      then AList.update (rr_asset r) (s\<lparr>as_finalized := wrap64 (as_finalized s + rr_amount r)\<rparr>) m
      else if rr_status r = ''settled''
      then AList.update (rr_asset r) (s\<lparr>as_confirmed := wrap64 (as_confirmed s + rr_amount r)\<rparr>) m
      else m)"

definition cursor_after :: "ReconcileRow list \<Rightarrow> time \<times> uuid \<Rightarrow> time \<times> uuid" where
  "cursor_after page cur = (if page = [] then cur else (rr_created (last page), rr_id (last page)))"

partial_function (option) aggregate_loop ::
  "env \<Rightarrow> int \<Rightarrow> nat \<Rightarrow> time \<times> uuid \<Rightarrow> asset_sums \<Rightarrow> world \<Rightarrow> (asset_sums result \<times> world) option" where
  "aggregate_loop E pageSize n cur sums w =
     (if int n = pageSize
      then case ListSettlementsForReconcileAfter E (fst cur) (snd cur) pageSize w of
             (Inl e, w) \<Rightarrow> Some (Inl e, w)
           | (Inr page, w) \<Rightarrow>
               aggregate_loop E pageSize (length page) (cursor_after page cur) (fold accumulate page sums) w
      else Some (Inr sums, w))"

text \<open>The zero values of \<open>time.Time\<close> and \<open>uuid.UUID\<close>, where the loop starts after an empty page.\<close>

definition zero_cursor :: "time \<times> uuid" where
  "zero_cursor = (-62135596800000000000, 0)"

definition AggregateSettlements :: "env \<Rightarrow> int \<Rightarrow> world \<Rightarrow> (asset_sums result \<times> world) option" where
  "AggregateSettlements E pageSize w =
     (case ListSettlementsForReconcileFirstPage E pageSize w of
        (Inl e, w) \<Rightarrow> Some (Inl e, w)
      | (Inr page, w) \<Rightarrow>
          aggregate_loop E pageSize (length page) (cursor_after page zero_cursor) (fold accumulate page []) w)"

subsection \<open>registry.go\<close>

record TreasuryEntry =
  tr_address :: string
  tr_asset :: string
  tr_token :: string

definition hex_digit :: "char \<Rightarrow> bool" where
  "hex_digit c \<longleftrightarrow> c \<in> set ''0123456789abcdefABCDEF''"

definition validateHexAddress :: "string \<Rightarrow> unit result" where
  "validateHexAddress s =
     (if \<not> HasPrefix s ''0x'' \<and> \<not> HasPrefix s ''0X'' then Inl (OpError ''missing 0x prefix'')
      else if length (drop 2 s) \<noteq> 40 then Inl (OpError ''want 40 hex chars'')
      else if \<not> list_all hex_digit (drop 2 s) then Inl (OpError ''not hex'')
      else Inr ())"

definition Validate :: "TreasuryEntry \<Rightarrow> unit result" where
  "Validate e =
     (if tr_asset e = [] then Inl (OpError ''asset is empty'')
      else case validateHexAddress (tr_address e) of
             Inl x \<Rightarrow> Inl x
           | Inr _ \<Rightarrow> validateHexAddress (tr_token e))"

text \<open>\<open>strings.ToLower\<close> on a validated address, which is ASCII.\<close>

definition ToLower :: "string \<Rightarrow> string" where
  "ToLower s = map (\<lambda>c. if CHR ''A'' \<le> c \<and> c \<le> CHR ''Z'' then char_of (of_char c + 32 :: nat) else c) s"

definition registry_key :: "TreasuryEntry \<Rightarrow> string" where
  "registry_key e = ToLower (tr_address e) @ [CHR 0x00] @ tr_asset e"

fun check_entries :: "TreasuryEntry list \<Rightarrow> string list \<Rightarrow> unit result" where
  "check_entries [] seen = Inr ()"
| "check_entries (e # es) seen =
     (case Validate e of
        Inl x \<Rightarrow> Inl x
      | Inr _ \<Rightarrow>
          if registry_key e \<in> set seen then Inl (OpError ''duplicate (address,asset)'')
          else check_entries es (registry_key e # seen))"

record registry_files =
  rf_ReadFile :: "string \<Rightarrow> bytes result"
  rf_parse :: "bytes \<Rightarrow> TreasuryEntry list result"

definition LoadRegistry :: "registry_files \<Rightarrow> string \<Rightarrow> TreasuryEntry list result" where
  "LoadRegistry F path =
     (case rf_ReadFile F path of
        Inl e \<Rightarrow> Inl e
      | Inr raw \<Rightarrow>
          (case rf_parse F raw of
             Inl e \<Rightarrow> Inl e
           | Inr entries \<Rightarrow>
               if entries = [] then Inl (OpError ''no entries'')
               else case check_entries entries [] of Inl e \<Rightarrow> Inl e | Inr _ \<Rightarrow> Inr entries))"

definition SingleEntry :: "string \<Rightarrow> string \<Rightarrow> string \<Rightarrow> TreasuryEntry list result" where
  "SingleEntry address asset token =
     (let e = \<lparr>tr_address = address, tr_asset = asset, tr_token = token\<rparr>
      in case Validate e of Inl x \<Rightarrow> Inl x | Inr _ \<Rightarrow> Inr [e])"

subsection \<open>report.go\<close>

record AddressBalance =
  ab_address :: string
  ab_actual :: "int option"

record AssetReconciliation =
  ar_asset :: string
  ar_addresses :: "AddressBalance list"
  ar_expected :: int
  ar_pending :: int
  ar_actual :: int
  ar_discrepancy :: int
  ar_liabilities :: int
  ar_verdict :: string

record Report =
  rp_generated :: time
  rp_assets :: "AssetReconciliation list"
  rp_clean :: bool

definition verdictOK :: string where "verdictOK = ''OK''"
definition verdictUndercollateral :: string where "verdictUndercollateral = ''UNDERCOLLATERALIZED''"

type_synonym actual_balances = "(string \<times> AddressBalance list) list"

definition unionKeys :: "asset_sums \<Rightarrow> (string \<times> int) list \<Rightarrow> actual_balances \<Rightarrow> string list" where
  "unionKeys sums liabilities actuals = sort (remdups (map fst sums @ map fst liabilities @ map fst actuals))"

definition addresses_of :: "actual_balances \<Rightarrow> string \<Rightarrow> AddressBalance list" where
  "addresses_of m asset = (case map_of m asset of None \<Rightarrow> [] | Some as \<Rightarrow> as)"

definition total_actual :: "AddressBalance list \<Rightarrow> int" where
  "total_actual as = foldl (\<lambda>t ab. case ab_actual ab of None \<Rightarrow> t | Some x \<Rightarrow> t + x) 0 as"

definition asset_row :: "asset_sums \<Rightarrow> (string \<times> int) list \<Rightarrow> actual_balances \<Rightarrow> string \<Rightarrow> AssetReconciliation" where
  "asset_row sums liabilities actuals asset =
     (let s = sums_of sums asset; liab = get0 liabilities asset; addrs = addresses_of actuals asset;
          actual = total_actual addrs; expected = as_finalized s + as_confirmed s
      in \<lparr>ar_asset = asset, ar_addresses = addrs, ar_expected = as_finalized s, ar_pending = as_confirmed s,
          ar_actual = actual, ar_discrepancy = actual - expected, ar_liabilities = liab,
          ar_verdict = (if actual < liab then verdictUndercollateral else verdictOK)\<rparr>)"

definition BuildReport :: "time \<Rightarrow> asset_sums \<Rightarrow> (string \<times> int) list \<Rightarrow> actual_balances \<Rightarrow> Report" where
  "BuildReport now sums liabilities actuals =
     (let rows = map (asset_row sums liabilities actuals) (unionKeys sums liabilities actuals)
      in \<lparr>rp_generated = now, rp_assets = rows,
          rp_clean = list_all (\<lambda>a. \<not> (ar_discrepancy a \<noteq> 0 \<or> ar_verdict a \<noteq> verdictOK)) rows\<rparr>)"

definition ln :: "string \<Rightarrow> string" where
  "ln s = s @ [CHR 0x0A]"

definition em_dash :: string where "em_dash = [CHR 0xE2, CHR 0x80, CHR 0x94]"
definition rule_line :: string where "rule_line = replicate 56 (CHR ''='')"

definition address_text :: "AddressBalance \<Rightarrow> string" where
  "address_text ab = ln (''    - '' @ ab_address ab @ '': '' @ (case ab_actual ab of None \<Rightarrow> ''0'' | Some x \<Rightarrow> itoa x))"

definition asset_text :: "AssetReconciliation \<Rightarrow> string" where
  "asset_text a = [CHR 0x0A] @ ln (''Asset: '' @ ar_asset a) @
     ln (''  expected finalized (minor):   '' @ itoa (ar_expected a)) @
     ln (''  confirmed-pending (bridge):   '' @ itoa (ar_pending a)) @
     ln (''  actual on-chain:              '' @ itoa (ar_actual a)) @
     concat (map address_text (ar_addresses a)) @
     ln (''  discrepancy:                  '' @ itoa (ar_discrepancy a)) @
     ln (''  liabilities (minor):          '' @ itoa (ar_liabilities a)) @
     ln (''  proof-of-reserves verdict:    '' @ ar_verdict a)"

definition WriteText :: "(time \<Rightarrow> string) \<Rightarrow> Report \<Rightarrow> string" where
  "WriteText rfc3339 r =
     ln (''Reconciliation report '' @ em_dash @ '' generated '' @ rfc3339 (rp_generated r)) @ ln rule_line @
     concat (map asset_text (rp_assets r)) @ [CHR 0x0A] @ ln rule_line @
     (if rp_clean r then ln (''CLEAN '' @ em_dash @ '' all assets reconciled and collateralized'')
      else ln (''DISCREPANCIES-FOUND '' @ em_dash @ '' review flagged assets above''))"

subsection \<open>The reconcile command\<close>

record recon_tool = tool +
  rt_files :: registry_files
  rt_range :: "string list \<Rightarrow> string list"
  rt_rfc3339 :: "time \<Rightarrow> string"

fun treasury_balances ::
  "ethRPC \<Rightarrow> gethtx \<Rightarrow> TreasuryEntry list \<Rightarrow> actual_balances \<Rightarrow> ops \<Rightarrow> actual_balances result \<times> ops" where
  "treasury_balances R L [] actuals s = (Inr actuals, s)"
| "treasury_balances R L (e # es) actuals s =
     (let actuals = (if map_of actuals (tr_asset e) = None then AList.update (tr_asset e) [] actuals else actuals)
      in chk (at_chain (BalanceOf R L (tr_token e) (tr_address e)) s) (\<lambda>bal.
         treasury_balances R L es (AList.update (tr_asset e)
           (addresses_of actuals (tr_asset e) @ [\<lparr>ab_address = tr_address e, ab_actual = Some bal\<rparr>]) actuals)))"

fun sum_liabilities :: "env \<Rightarrow> string list \<Rightarrow> (string \<times> int) list \<Rightarrow> world \<Rightarrow> (string \<times> int) list result \<times> world" where
  "sum_liabilities E [] liabilities w = (Inr liabilities, w)"
| "sum_liabilities E (asset # assets) liabilities w =
     chk (SumNonHouseLiabilities E asset w) (\<lambda>total.
       sum_liabilities E assets (AList.update asset (wrap64 (- total)) liabilities))"

definition reconcileReport :: "recon_tool \<Rightarrow> TreasuryEntry list \<Rightarrow> int \<Rightarrow> time \<Rightarrow> ops \<Rightarrow> (Report result \<times> ops) option" where
  "reconcileReport T reg pageSize now s =
     (case AggregateSettlements (tl_env T) pageSize (op_world s) of
        None \<Rightarrow> None
      | Some (sums, w) \<Rightarrow> Some (chk (sums, s\<lparr>op_world := w\<rparr>) (\<lambda>sums s.
          chk (treasury_balances (tl_rpc T) (tl_lib T) reg [] s) (\<lambda>actuals s.
          chk (at_world (sum_liabilities (tl_env T) (rt_range T (map fst actuals)) []) s) (\<lambda>liabilities s.
          (Inr (BuildReport now sums liabilities actuals), s))))))"

definition buildReconcileRegistry :: "recon_tool \<Rightarrow> config \<Rightarrow> TreasuryEntry list result" where
  "buildReconcileRegistry T cfg =
     (if cfg_ReconcileTreasuries cfg = []
      then SingleEntry (cfg_ChainFromAddress cfg) ''USDC'' (cfg_ChainUSDCAddress cfg)
      else LoadRegistry (rt_files T) (cfg_ReconcileTreasuries cfg))"

definition newBalanceReader :: "recon_tool \<Rightarrow> config \<Rightarrow> unit result" where
  "newBalanceReader T cfg =
     (if cfg_ChainRPCURL cfg = [] then Inl (OpError ''CHAIN_RPC_URL is required'')
      else tl_dial_chain T (cfg_ChainRPCURL cfg))"

definition PingContext :: "env \<Rightarrow> world \<Rightarrow> unit result \<times> world" where
  "PingContext E = reading E (\<lambda>t. Inr ())"

definition reconcilePageSize :: int where "reconcilePageSize = 1000"
definition reconcileExitClean :: int where "reconcileExitClean = 0"
definition reconcileExitDiscrepancy :: int where "reconcileExitDiscrepancy = 1"
definition reconcileExitError :: int where "reconcileExitError = 2"

definition reconcileExitCode :: "bool \<Rightarrow> int" where
  "reconcileExitCode clean = (if clean then reconcileExitClean else reconcileExitDiscrepancy)"

text \<open>What happens before the report: configuration, registry, database and node.\<close>

definition reconcile_setup :: "recon_tool \<Rightarrow> ops \<Rightarrow> TreasuryEntry list result \<times> ops" where
  "reconcile_setup T s =
     chk (config_Load (tl_getenv T), s) (\<lambda>cfg s.
     chk (buildReconcileRegistry T cfg, s) (\<lambda>reg s.
     chk (tl_open_db T (cfg_DatabaseURL cfg), s) (\<lambda>_ s.
     chk (at_world (PingContext (tl_env T)) s) (\<lambda>_ s.
     chk (newBalanceReader T cfg, s) (\<lambda>_ s. (Inr reg, s))))))"

text \<open>The exit code and what is printed.\<close>

definition runReconcile :: "recon_tool \<Rightarrow> ops \<Rightarrow> ((int \<times> string) \<times> ops) option" where
  "runReconcile T s =
     (case reconcile_setup T s of
        (Inl e, s) \<Rightarrow> Some ((reconcileExitError, []), s)
      | (Inr reg, s) \<Rightarrow>
          (case at_world (time_Now (tl_env T)) s of (start, s) \<Rightarrow>
           case at_world (time_Now (tl_env T)) s of (now, s) \<Rightarrow>
           case reconcileReport T reg reconcilePageSize now s of
             None \<Rightarrow> None
           | Some (Inl e, s) \<Rightarrow> Some ((reconcileExitError, []), s)
           | Some (Inr report, s) \<Rightarrow>
               Some ((reconcileExitCode (rp_clean report), WriteText (rt_rfc3339 T) report), s)))"

subsection \<open>The audit command\<close>

fun hex_val :: "char \<Rightarrow> nat option" where
  "hex_val c = map_of (zip ''0123456789abcdefABCDEF'' ([0..<16] @ [10..<16])) c"

text \<open>\<open>hex.DecodeString\<close>.\<close>

fun hex_DecodeString :: "string \<Rightarrow> bytes option" where
  "hex_DecodeString [] = Some []"
| "hex_DecodeString [c] = None"
| "hex_DecodeString (c # d # s) =
     (case (hex_val c, hex_val d, hex_DecodeString s) of
        (Some x, Some y, Some b) \<Rightarrow> Some (char_of (16 * x + y) # b)
      | _ \<Rightarrow> None)"

datatype audit_error = AuditOp err | Tampered TamperError

definition runAuditVerify :: "tool \<Rightarrow> string \<Rightarrow> world \<Rightarrow> (audit_error + VerifyResult) \<times> world" where
  "runAuditVerify T expectHead w =
     (case config_Load (tl_getenv T) of
        Inl e \<Rightarrow> (Inl (AuditOp e), w)
      | Inr cfg \<Rightarrow>
          if expectHead \<noteq> [] \<and> hex_DecodeString expectHead = None
          then (Inl (AuditOp (OpError ''audit verify: --expect-head-hash is not valid hex'')), w)
          else (case chk (tl_open_db T (cfg_DatabaseURL cfg), w) (\<lambda>_ w.
                     chk (PingContext (tl_env T) w) (\<lambda>_. ScanAuditChain (tl_env T))) of
                  (Inl e, w) \<Rightarrow> (Inl (AuditOp e), w)
                | (Inr rows, w) \<Rightarrow>
                    (case Verify (sha256 (tl_env T)) rows (if expectHead = [] then None else hex_DecodeString expectHead) of
                       (res, Some te) \<Rightarrow> (Inl (Tampered te), w)
                     | (res, None) \<Rightarrow> (Inr res, w))))"

subsection \<open>The walk over the settlements\<close>

abbreviation row_key :: "ReconcileRow \<Rightarrow> time \<times> uuid" where
  "row_key r \<equiv> (rr_created r, rr_id r)"

definition walkable :: "env \<Rightarrow> tables \<Rightarrow> bool" where
  "walkable E t \<longleftrightarrow> distinct (map st_id (settlements t)) \<and> distinct (map pay_id (payments t)) \<and>
     (\<forall>s \<in> set (settlements t). timestamptz E (st_created s) = st_created s)"

definition joined :: "tables \<Rightarrow> Settlement \<Rightarrow> ReconcileRow list" where
  "joined t s = map (\<lambda>p. \<lparr>rr_id = st_id s, rr_created = st_created s, rr_status = st_status s,
     rr_asset = pay_asset p, rr_amount = pay_amount p\<rparr>) (filter (\<lambda>p. pay_id p = st_payment s) (payments t))"

abbreviation live :: "tables \<Rightarrow> Settlement list" where
  "live t \<equiv> filter (\<lambda>s. st_status s \<in> {''settled'', ''finalized''}) (settlements t)"

lemma reconcile_rows_join: "reconcile_rows t = sort_key row_key (concat (map (joined t) (live t)))"
  by (simp add: reconcile_rows_def joined_def [abs_def])

lemma reconcile_rows_keys:
  assumes "walkable E t"
  shows "sorted_wrt (\<lambda>r q. row_key r < row_key q) (reconcile_rows t) \<and>
    (\<forall>r \<in> set (reconcile_rows t). timestamptz E (rr_created r) = rr_created r)"
proof
  have ids: "distinct (map st_id (live t))" using assms by (simp add: walkable_def distinct_map_filter)
  have pays: "distinct (map pay_id (payments t))" using assms by (simp add: walkable_def)
  have "distinct (map rr_id (concat (map (joined t) (live t))))"
    unfolding joined_def [abs_def] by (rule distinct_join [OF ids pays]) simp
  then have "distinct (map row_key (concat (map (joined t) (live t))))"
    by (simp add: distinct_map inj_on_def)
  from sorted_wrt_strict [OF this] show "sorted_wrt (\<lambda>r q. row_key r < row_key q) (reconcile_rows t)"
    by (simp add: reconcile_rows_join)
  show "\<forall>r \<in> set (reconcile_rows t). timestamptz E (rr_created r) = rr_created r"
    using assms by (auto simp: reconcile_rows_join walkable_def joined_def)
qed

lemma filter_beyond:
  assumes "sorted_wrt (\<lambda>r q. row_key r < row_key q) (xs @ x # ys)"
  shows "filter (\<lambda>r. row_key x < row_key r) (xs @ x # ys) = ys"
proof -
  have "\<forall>y \<in> set xs. \<not> row_key x < row_key y" "\<forall>y \<in> set ys. row_key x < row_key y"
    using assms unfolding sorted_wrt_append by (auto dest: order_less_asym)
  then show ?thesis by (simp add: filter_empty_conv filter_id_conv [THEN iffD2])
qed

text \<open>What a statement that reads returns: its answer, or an error when the environment has faults.\<close>

lemma reading_result:
  "reading E f w = (r, w') \<Longrightarrow> db w' = db w \<and> (r = f (db w) \<or> (\<exists>e. r = Inl e) \<and> \<not> no_faults E)"
  by (auto simp: reading_def query_def no_faults_def split: if_splits sum.splits)

lemma aggregate_loop_run:
  assumes k: "0 < k"
    and keys: "sorted_wrt (\<lambda>r q. row_key r < row_key q) (seen @ rest)"
      "\<forall>r \<in> set (seen @ rest). timestamptz E (rr_created r) = rr_created r"
    and rows: "reconcile_rows (db w) = seen @ rest" "seen \<noteq> []" "cur = row_key (last seen)"
    and short: "int n \<noteq> k \<Longrightarrow> rest = []"
  shows "\<exists>r w'. aggregate_loop E k n cur sums w = Some (r, w') \<and> db w' = db w \<and>
    (r = Inr (fold accumulate rest sums) \<or> (\<exists>e. r = Inl e) \<and> \<not> no_faults E)"
  using keys rows short
proof (induction "length rest" arbitrary: seen rest cur n sums w rule: less_induct)
  case less
  show ?case
  proof (cases "int n = k")
    case False
    with less.prems(6) show ?thesis by (simp add: aggregate_loop.simps [of E k n])
  next
    case True
    obtain r w1 where q: "ListSettlementsForReconcileAfter E (fst cur) (snd cur) k w = (r, w1)" by (rule prod.exhaust)
    obtain ys x where seen: "seen = ys @ [x]" using less.prems(4) by (metis append_butlast_last_id)
    have "timestamptz E (rr_created x) = rr_created x" using less.prems(2) seen by simp
    then have after: "filter (\<lambda>r. (timestamptz E (fst cur), snd cur) < row_key r) (reconcile_rows (db w)) = rest"
      using filter_beyond [of ys x rest] less.prems(1,3,5) seen by simp
    have res: "db w1 = db w" "r = Inr (take (nat k) rest) \<or> (\<exists>e. r = Inl e) \<and> \<not> no_faults E"
      using reading_result [OF q [unfolded ListSettlementsForReconcileAfter_def]] k after
      by (auto simp: limit_rows_def)
    show ?thesis
    proof (cases r)
      case (Inl e)
      with res q True show ?thesis by (auto simp: aggregate_loop.simps [of E k n])
    next
      case (Inr page)
      then have page: "page = take (nat k) rest" using res(2) by simp
      have step: "aggregate_loop E k n cur sums w =
          aggregate_loop E k (length page) (cursor_after page cur) (fold accumulate page sums) w1"
        using True q Inr by (simp add: aggregate_loop.simps [of E k n])
      show ?thesis
      proof (cases "rest = []")
        case True
        with page k have "aggregate_loop E k (length page) (cursor_after page cur) (fold accumulate page sums) w1 =
            Some (Inr (fold accumulate rest sums), w1)"
          by (simp add: aggregate_loop.simps [of E k 0])
        with step res(1) show ?thesis by auto
      next
        case False
        then have ne: "page \<noteq> []" and lt: "length (drop (nat k) rest) < length rest" using page k by auto
        have "\<exists>r w'. aggregate_loop E k (length page) (cursor_after page cur) (fold accumulate page sums) w1 = Some (r, w') \<and>
            db w' = db w1 \<and> (r = Inr (fold accumulate (drop (nat k) rest) (fold accumulate page sums)) \<or> (\<exists>e. r = Inl e) \<and> \<not> no_faults E)"
        proof (rule less.hyps [OF lt, of "seen @ page"])
          show "cursor_after page cur = row_key (last (seen @ page))" using ne by (simp add: cursor_after_def)
          show "drop (nat k) rest = []" if "int (length page) \<noteq> k" using that page k by auto
        qed (use less.prems(1-4) page res(1) in simp_all)
        moreover have "fold accumulate (drop (nat k) rest) (fold accumulate page sums) = fold accumulate rest sums"
          unfolding page using fold_append [of accumulate "take (nat k) rest" "drop (nat k) rest"] by simp
        ultimately show ?thesis using step res(1) by simp
      qed
    qed
  qed
qed

lemma AggregateSettlements_run:
  assumes "0 < k" "walkable E (db w)"
  shows "\<exists>r w'. AggregateSettlements E k w = Some (r, w') \<and> db w' = db w \<and>
    (r = Inr (fold accumulate (reconcile_rows (db w)) []) \<or> (\<exists>e. r = Inl e) \<and> \<not> no_faults E)"
proof -
  let ?rows = "reconcile_rows (db w)"
  obtain r w1 where q: "ListSettlementsForReconcileFirstPage E k w = (r, w1)" by (rule prod.exhaust)
  have res: "db w1 = db w" "r = Inr (take (nat k) ?rows) \<or> (\<exists>e. r = Inl e) \<and> \<not> no_faults E"
    using reading_result [OF q [unfolded ListSettlementsForReconcileFirstPage_def]] assms(1) by (auto simp: limit_rows_def)
  show ?thesis
  proof (cases r)
    case (Inl e)
    with res q show ?thesis by (auto simp: AggregateSettlements_def)
  next
    case (Inr page)
    then have page: "page = take (nat k) ?rows" using res(2) by simp
    have step: "AggregateSettlements E k w =
        aggregate_loop E k (length page) (cursor_after page zero_cursor) (fold accumulate page []) w1"
      using q Inr by (simp add: AggregateSettlements_def)
    show ?thesis
    proof (cases "page = []")
      case True
      then have "?rows = []" using page assms(1) by (auto simp: take_eq_Nil)
      with True step res(1) assms(1) show ?thesis by (simp add: aggregate_loop.simps [of E k 0])
    next
      case False
      have "\<exists>r w'. aggregate_loop E k (length page) (cursor_after page zero_cursor) (fold accumulate page []) w1 = Some (r, w') \<and>
          db w' = db w1 \<and> (r = Inr (fold accumulate (drop (nat k) ?rows) (fold accumulate page [])) \<or> (\<exists>e. r = Inl e) \<and> \<not> no_faults E)"
      proof (rule aggregate_loop_run [OF assms(1), of page])
        show "cursor_after page zero_cursor = row_key (last page)" using False by (simp add: cursor_after_def)
        show "drop (nat k) ?rows = []" if "int (length page) \<noteq> k" using that page assms(1) by auto
      qed (use reconcile_rows_keys [OF assms(2)] False page res(1) in simp_all)
      moreover have "fold accumulate (drop (nat k) ?rows) (fold accumulate page []) = fold accumulate ?rows []"
        unfolding page using fold_append [of accumulate "take (nat k) ?rows" "drop (nat k) ?rows"] by simp
      ultimately show ?thesis using step res(1) by simp
    qed
  qed
qed

text \<open>A page size of zero never reaches a short page.\<close>

lemma aggregate_loop_zero:
  assumes "aggregate_loop E k n cur sums w = Some y" "no_faults E" "k = 0" "n = 0"
  shows False
proof -
  have "no_faults E \<longrightarrow> k = 0 \<longrightarrow> n = 0 \<longrightarrow> False"
    using assms(1)
  proof (induction rule: aggregate_loop.raw_induct [rotated, consumes 1])
    case (1 loop E k n cur sums w y)
    show ?case
    proof (intro impI)
      assume z: "no_faults E" "k = 0" "n = 0"
      obtain r w1 where q: "ListSettlementsForReconcileAfter E (fst cur) (snd cur) k w = (r, w1)" by (rule prod.exhaust)
      from reading_result [OF q [unfolded ListSettlementsForReconcileAfter_def]] z have "r = Inr []"
        by (auto simp: limit_rows_def)
      with 1(2) z q have "loop E 0 0 (cursor_after [] cur) sums w1 = Some y" by simp
      from 1(1) [OF this] z show False by simp
    qed
  qed
  with assms show False by blast
qed

subsection \<open>What the sums mean\<close>

definition rows_total :: "string \<Rightarrow> string \<Rightarrow> ReconcileRow list \<Rightarrow> int" where
  "rows_total status asset rows = sum_list (map rr_amount (filter (\<lambda>r. rr_status r = status \<and> rr_asset r = asset) rows))"

lemma rows_total_simps [simp]:
  "rows_total status asset [] = 0"
  "rows_total status asset (r # rows) = (if rr_status r = status \<and> rr_asset r = asset then rr_amount r else 0) + rows_total status asset rows"
  by (simp_all add: rows_total_def)

lemma sums_of_update [simp]: "sums_of (AList.update k v m) k' = (if k' = k then v else sums_of m k')"
  by (simp add: sums_of_def update_conv')

lemma sums_of_accumulate:
  "sums_of (accumulate r m) asset = (let s = sums_of m asset in
     if rr_asset r \<noteq> asset then s
     else if rr_status r = ''finalized'' then s\<lparr>as_finalized := wrap64 (as_finalized s + rr_amount r)\<rparr>
     else if rr_status r = ''settled'' then s\<lparr>as_confirmed := wrap64 (as_confirmed s + rr_amount r)\<rparr>
     else s)"
  by (auto simp: accumulate_def Let_def)

lemma fold_accumulate:
  assumes "as_finalized (sums_of m asset) = wrap64 f" "as_confirmed (sums_of m asset) = wrap64 c"
  shows "as_finalized (sums_of (fold accumulate rows m) asset) = wrap64 (f + rows_total ''finalized'' asset rows) \<and>
    as_confirmed (sums_of (fold accumulate rows m) asset) = wrap64 (c + rows_total ''settled'' asset rows)"
  using assms
proof (induction rows arbitrary: m f c)
  case (Cons r rows)
  let ?f = "f + (if rr_status r = ''finalized'' \<and> rr_asset r = asset then rr_amount r else 0)"
  let ?c = "c + (if rr_status r = ''settled'' \<and> rr_asset r = asset then rr_amount r else 0)"
  have "as_finalized (sums_of (accumulate r m) asset) = wrap64 ?f" "as_confirmed (sums_of (accumulate r m) asset) = wrap64 ?c"
    using Cons.prems by (simp_all add: sums_of_accumulate Let_def wrap64_add_left)
  from Cons.IH [OF this] show ?case by (simp add: add.assoc)
qed simp

lemma keys_accumulate: "fst ` set (fold accumulate rows m) \<subseteq> fst ` set m \<union> rr_asset ` set rows"
proof (induction rows arbitrary: m)
  case (Cons r rows)
  have "fst ` set (accumulate r m) \<subseteq> insert (rr_asset r) (fst ` set m)"
    by (auto simp: accumulate_def Let_def set_keys_update)
  with Cons [of "accumulate r m"] show ?case by auto
qed simp

text \<open>Both sums together are the total that \<open>outstanding\<close> attributes to the chain.\<close>

lemma sum_list_sort: "sum_list (map g (sort_key f xs)) = sum_list (map g xs)" for g :: "'a \<Rightarrow> int"
proof (induction xs)
  case (Cons x xs)
  have "sum_list (map g (insort_key f x ys)) = g x + sum_list (map g ys)" for ys by (induction ys) simp_all
  with Cons show ?case by simp
qed simp

lemma rows_total_sort: "rows_total status asset (sort_key f rows) = rows_total status asset rows"
  by (simp add: rows_total_def filter_sort sum_list_sort)

lemma rows_total_append [simp]: "rows_total status asset (xs @ ys) = rows_total status asset xs + rows_total status asset ys"
  by (simp add: rows_total_def)

lemma filter_by_key:
  "distinct (map k xs) \<Longrightarrow> filter (\<lambda>x. k x = c) xs = (case List.find (\<lambda>x. k x = c) xs of None \<Rightarrow> [] | Some x \<Rightarrow> [x])"
  by (induction xs) (force simp: filter_empty_conv image_iff dest: find_Some_in split: option.splits)+

lemma joined_total:
  assumes "distinct (map pay_id (payments t))"
  shows "rows_total status asset (joined t s) = (if st_status s = status then value_of t asset s else 0)"
  by (simp add: joined_def value_of_def filter_by_key [OF assms] split: option.splits)

lemma outstanding_rows:
  assumes "distinct (map pay_id (payments t))"
  shows "outstanding t asset = rows_total ''finalized'' asset (reconcile_rows t) + rows_total ''settled'' asset (reconcile_rows t)"
proof -
  have "rows_total ''finalized'' asset (concat (map (joined t) (filter (\<lambda>s. st_status s \<in> {''settled'', ''finalized''}) xs))) +
      rows_total ''settled'' asset (concat (map (joined t) (filter (\<lambda>s. st_status s \<in> {''settled'', ''finalized''}) xs))) =
      sum_list (map (\<lambda>s. if on_chain s then value_of t asset s else 0) xs)" for xs
    by (induction xs) (auto simp: joined_total [OF assms] on_chain_def)
  then show ?thesis by (simp add: outstanding_def reconcile_rows_join rows_total_sort)
qed

subsection \<open>Liabilities\<close>

lemma sum_swap:
  fixes f :: "'a \<Rightarrow> int"
  shows "sum_list (map f (concat (map (\<lambda>l. map (\<lambda>a. l) (filter (\<lambda>a. h a = g l \<and> Q a) as)) ls))) =
    sum_list (map (\<lambda>a. sum_list (map f (filter (\<lambda>l. g l = h a) ls))) (filter Q as))"
proof (induction ls)
  case (Cons l ls)
  have "sum_list (map f (map (\<lambda>a. l) (filter (\<lambda>a. h a = g l \<and> Q a) as))) =
      sum_list (map (\<lambda>a. if g l = h a then f l else 0) (filter Q as))"
    by (induction as) auto
  moreover have "sum_list (map (\<lambda>a. sum_list (map f (filter (\<lambda>l. g l = h a) (l # ls)))) (filter Q as)) =
      sum_list (map (\<lambda>a. if g l = h a then f l else 0) (filter Q as)) +
      sum_list (map (\<lambda>a. sum_list (map f (filter (\<lambda>l. g l = h a) ls))) (filter Q as))"
    by (induction as) auto
  ultimately show ?case using Cons by simp
qed simp

definition held :: "tables \<Rightarrow> string \<Rightarrow> int" where
  "held t asset = sum_list (map (\<lambda>a. balance t (acc_id a))
     (filter (\<lambda>a. acc_kind a \<noteq> ''onchain_settlement'' \<and> acc_asset a = asset) (accounts t)))"

lemma SumNonHouse_run:
  assumes "SumNonHouseLiabilities E asset w = (Inr x, w')"
  shows "db w' = db w \<and> x = held (db w) asset \<and> int64 x"
proof -
  have "sum_list (map signed_amount (concat (map (\<lambda>l. map (\<lambda>a. l)
        (filter (\<lambda>a. acc_id a = el_account l \<and> acc_kind a \<noteq> ''onchain_settlement'' \<and> acc_asset a = asset)
           (accounts (db w)))) (elines (db w))))) = held (db w) asset"
    unfolding held_def balance_def by (rule sum_swap)
  with reading_result [OF assms [unfolded SumNonHouseLiabilities_def]] show ?thesis
    by (auto simp: bigint_def split: if_splits)
qed

lemma held_nonneg: "ledger_ok t \<Longrightarrow> 0 \<le> held t asset"
  unfolding held_def by (rule sum_list_nonneg) (auto simp: ledger_ok_def)

subsection \<open>The report\<close>

definition ledger_backed :: "actual_balances \<Rightarrow> TreasuryEntry list \<Rightarrow> bool" where
  "ledger_backed m es \<longleftrightarrow> (\<forall>asset. map ab_address (addresses_of m asset) = map tr_address (filter (\<lambda>e. tr_asset e = asset) es) \<and>
     (\<forall>ab \<in> set (addresses_of m asset). \<exists>x \<ge> 0. ab_actual ab = Some x))"

lemma addresses_of_update [simp]:
  "addresses_of (AList.update k v m) k' = (if k' = k then v else addresses_of m k')"
  by (simp add: addresses_of_def update_conv')

lemma BalanceOf_nonneg: "BalanceOf R L token holder c = (Inr x, c') \<Longrightarrow> 0 \<le> x"
  by (auto simp: BalanceOf_def SetBytes_nonneg elim!: chk_okE split: if_splits)

lemma treasury_balances_run:
  assumes "treasury_balances R L es m s = (Inr actuals, s')" "ledger_backed m es0"
  shows "op_world s' = op_world s \<and> fst ` set actuals = fst ` set m \<union> tr_asset ` set es \<and> ledger_backed actuals (es0 @ es)"
  using assms
proof (induction es arbitrary: m s es0)
  case (Cons e es)
  let ?m = "if map_of m (tr_asset e) = None then AList.update (tr_asset e) [] m else m"
  obtain r s1 where b: "at_chain (BalanceOf R L (tr_token e) (tr_address e)) s = (r, s1)" by (rule prod.exhaust)
  with Cons.prems(1) obtain bal where r: "r = Inr bal" by (cases r) (simp_all add: Let_def)
  note c = at_chain_world [OF b]
  let ?m1 = "AList.update (tr_asset e) (addresses_of ?m (tr_asset e) @ [\<lparr>ab_address = tr_address e, ab_actual = Some bal\<rparr>]) ?m"
  have run: "treasury_balances R L es ?m1 s1 = (Inr actuals, s')" using Cons.prems(1) b r by (simp add: Let_def)
  have same: "addresses_of ?m asset = addresses_of m asset" for asset
    by (simp add: addresses_of_def update_conv' split: option.splits)
  have "0 \<le> bal" using BalanceOf_nonneg c r by blast
  then have "ledger_backed ?m1 (es0 @ [e])" using Cons.prems(2) same by (auto simp: ledger_backed_def)
  moreover have "fst ` set ?m1 = insert (tr_asset e) (fst ` set m)" by (simp add: set_keys_update)
  ultimately show ?case using Cons.IH [OF run, of "es0 @ [e]"] c by simp
qed simp

lemma sum_liabilities_run:
  assumes "sum_liabilities E assets m w = (Inr l, w')"
  shows "db w' = db w \<and> fst ` set l = fst ` set m \<union> set assets \<and>
    (\<forall>a. get0 l a = (if a \<in> set assets then wrap64 (- held (db w) a) else get0 m a)) \<and> (\<forall>a \<in> set assets. int64 (held (db w) a))"
  using assms
proof (induction assets arbitrary: m w)
  case (Cons a assets)
  obtain r w1 where q: "SumNonHouseLiabilities E a w = (r, w1)" by (rule prod.exhaust)
  with Cons.prems obtain x where r: "r = Inr x" by (cases r) simp_all
  note x = SumNonHouse_run [OF q [unfolded r]]
  have "sum_liabilities E assets (AList.update a (wrap64 (- x)) m) w1 = (Inr l, w')" using Cons.prems q r by simp
  from Cons.IH [OF this] x show ?case by (auto simp: set_keys_update)
qed simp

definition range_law :: "recon_tool \<Rightarrow> bool" where
  "range_law T \<longleftrightarrow> (\<forall>xs. set (rt_range T xs) = set xs)"

definition sums_fit :: "tables \<Rightarrow> bool" where
  "sums_fit t \<longleftrightarrow> (\<forall>status asset. int64 (rows_total status asset (reconcile_rows t)))"

text \<open>What the treasuries hold of an asset according to a report.\<close>

definition reserves :: "Report \<Rightarrow> string \<Rightarrow> int" where
  "reserves rep asset = sum_list (map ar_actual (filter (\<lambda>a. ar_asset a = asset) (rp_assets rep)))"

lemma total_actual_nonneg:
  assumes "\<forall>ab \<in> set as. \<exists>x \<ge> 0. ab_actual ab = Some x"
  shows "0 \<le> total_actual as"
proof -
  have "0 \<le> foldl (\<lambda>t ab. case ab_actual ab of None \<Rightarrow> t | Some x \<Rightarrow> t + x) t0 as" if "0 \<le> t0" for t0 :: int
    using assms that by (induction as arbitrary: t0) auto
  then show ?thesis by (simp add: total_actual_def)
qed

lemma filter_sorted_key:
  "filter (\<lambda>a. ar_asset a = asset) (map (asset_row u l m) (unionKeys u l m)) =
     (if asset \<in> set (unionKeys u l m) then [asset_row u l m asset] else [])"
proof -
  have "distinct ks \<Longrightarrow> filter (\<lambda>k. k = asset) ks = (if asset \<in> set ks then [asset] else [])" for ks
    by (induction ks) (auto simp: filter_empty_conv)
  then have "filter (\<lambda>k. k = asset) (unionKeys u l m) = (if asset \<in> set (unionKeys u l m) then [asset] else [])"
    by (simp add: unionKeys_def)
  moreover have "ar_asset (asset_row u l m k) = k" for k by (simp add: asset_row_def Let_def)
  ultimately show ?thesis by (simp add: filter_map comp_def)
qed

lemma report_reserves:
  "reserves (BuildReport now u l m) asset = total_actual (addresses_of m asset)"
proof (cases "asset \<in> set (unionKeys u l m)")
  case True
  then show ?thesis by (simp add: reserves_def BuildReport_def Let_def filter_sorted_key) (simp add: asset_row_def Let_def)
next
  case False
  then have "map_of m asset = None" by (simp add: unionKeys_def map_of_eq_None_iff)
  with False show ?thesis by (simp add: reserves_def BuildReport_def Let_def filter_sorted_key addresses_of_def total_actual_def)
qed

lemma reconcileReport_ok:
  assumes laws: "range_law T" "walkable (tl_env T) (db (op_world s))" and k: "0 < k"
    and run: "reconcileReport T reg k now s = Some (Inr rep, s')"
  obtains m l where "rep = BuildReport now (fold accumulate (reconcile_rows (db (op_world s))) []) l m"
    "ledger_backed m reg"
    "\<And>a. get0 l a = (if a \<in> fst ` set m then wrap64 (- held (db (op_world s)) a) else 0)"
    "\<And>a. a \<in> fst ` set m \<Longrightarrow> int64 (held (db (op_world s)) a)"
proof -
  let ?t = "db (op_world s)"
  from AggregateSettlements_run [OF k laws(2)] obtain r w where a: "AggregateSettlements (tl_env T) k (op_world s) = Some (r, w)"
    "db w = ?t" "r = Inr (fold accumulate (reconcile_rows ?t) []) \<or> (\<exists>e. r = Inl e)" by blast
  then have r: "r = Inr (fold accumulate (reconcile_rows ?t) [])" using run by (auto simp: reconcileReport_def)
  let ?s1 = "s\<lparr>op_world := w\<rparr>"
  obtain x s2 where b: "treasury_balances (tl_rpc T) (tl_lib T) reg [] ?s1 = (x, s2)" by (rule prod.exhaust)
  then obtain m where m: "x = Inr m" using run a(1) r by (cases x) (simp_all add: reconcileReport_def)
  have tb: "op_world s2 = w" "ledger_backed m reg"
    using treasury_balances_run [OF b [unfolded m], of "[]"] by (simp_all add: ledger_backed_def addresses_of_def)
  obtain y s3 where c: "at_world (sum_liabilities (tl_env T) (rt_range T (map fst m)) []) s2 = (y, s3)" by (rule prod.exhaust)
  then obtain l where l: "y = Inr l" using run a(1) r b m by (cases y) (simp_all add: reconcileReport_def)
  have rep: "rep = BuildReport now (fold accumulate (reconcile_rows ?t) []) l m"
    using run a(1) r b m c l by (simp add: reconcileReport_def)
  have "set (rt_range T (map fst m)) = fst ` set m" using laws(1) by (simp add: range_law_def)
  with sum_liabilities_run [OF conjunct2 [OF at_world_run [OF c], unfolded l]] tb(1) a(2)
  have "\<And>a. get0 l a = (if a \<in> fst ` set m then wrap64 (- held ?t a) else 0)" "\<And>a. a \<in> fst ` set m \<Longrightarrow> int64 (held ?t a)"
    by auto
  with that rep tb(2) show thesis by blast
qed

lemma sums_exact:
  assumes "sums_fit t"
  shows "as_finalized (sums_of (fold accumulate (reconcile_rows t) []) asset) = rows_total ''finalized'' asset (reconcile_rows t)"
    "as_confirmed (sums_of (fold accumulate (reconcile_rows t) []) asset) = rows_total ''settled'' asset (reconcile_rows t)"
proof -
  have "as_finalized (sums_of [] asset) = wrap64 0" "as_confirmed (sums_of [] asset) = wrap64 0"
    by (simp_all add: sums_of_def wrap64_def)
  note f = fold_accumulate [OF this, of "reconcile_rows t"]
  have "wrap64 (rows_total status asset (reconcile_rows t)) = rows_total status asset (reconcile_rows t)" for status
    using assms by (simp add: sums_fit_def wrap64_id)
  with f show "as_finalized (sums_of (fold accumulate (reconcile_rows t) []) asset) = rows_total ''finalized'' asset (reconcile_rows t)"
    "as_confirmed (sums_of (fold accumulate (reconcile_rows t) []) asset) = rows_total ''settled'' asset (reconcile_rows t)"
    by simp_all
qed

lemma report_rows:
  assumes fit: "sums_fit t" and led: "ledger_ok t" and pays: "distinct (map pay_id (payments t))"
    and m: "ledger_backed m reg"
    and l: "\<And>a. get0 l a = (if a \<in> fst ` set m then wrap64 (- held t a) else 0)" "\<And>a. a \<in> fst ` set m \<Longrightarrow> int64 (held t a)"
  shows "get0 l asset \<le> 0 \<and>
    asset_row (fold accumulate (reconcile_rows t) []) l m asset =
      \<lparr>ar_asset = asset, ar_addresses = addresses_of m asset,
       ar_expected = rows_total ''finalized'' asset (reconcile_rows t), ar_pending = rows_total ''settled'' asset (reconcile_rows t),
       ar_actual = total_actual (addresses_of m asset),
       ar_discrepancy = total_actual (addresses_of m asset) - outstanding t asset,
       ar_liabilities = get0 l asset, ar_verdict = verdictOK\<rparr>"
proof -
  have liab: "get0 l asset \<le> 0"
  proof (cases "asset \<in> fst ` set m")
    case True
    then have "wrap64 (- held t asset) = - held t asset"
      using l(2) [OF True] held_nonneg [OF led, of asset] by (intro wrap64_id) (simp add: int64_def)
    with True l(1) held_nonneg [OF led, of asset] show ?thesis by simp
  qed (use l(1) in simp)
  moreover have "0 \<le> total_actual (addresses_of m asset)"
    using m by (intro total_actual_nonneg) (auto simp: ledger_backed_def)
  ultimately show ?thesis
    using sums_exact [OF fit, of asset] outstanding_rows [OF pays, of asset] by (simp add: asset_row_def Let_def)
qed

lemma no_rows_no_value:
  "asset \<notin> set (map fst (fold accumulate (reconcile_rows t) [])) \<Longrightarrow> sums_fit t \<Longrightarrow> distinct (map pay_id (payments t)) \<Longrightarrow>
     outstanding t asset = 0"
proof -
  assume a: "asset \<notin> set (map fst (fold accumulate (reconcile_rows t) []))" and fit: "sums_fit t"
    and pays: "distinct (map pay_id (payments t))"
  then have "sums_of (fold accumulate (reconcile_rows t) []) asset = \<lparr>as_finalized = 0, as_confirmed = 0\<rparr>"
    by (simp add: sums_of_def map_of_eq_None_iff [THEN iffD2])
  then show ?thesis using sums_exact [OF fit, of asset] outstanding_rows [OF pays, of asset] by simp
qed

lemma report_clean:
  assumes fit: "sums_fit t" and led: "ledger_ok t" and pays: "distinct (map pay_id (payments t))"
    and m: "ledger_backed m reg"
    and l: "\<And>a. get0 l a = (if a \<in> fst ` set m then wrap64 (- held t a) else 0)" "\<And>a. a \<in> fst ` set m \<Longrightarrow> int64 (held t a)"
  shows "rp_clean (BuildReport now (fold accumulate (reconcile_rows t) []) l m) \<longleftrightarrow>
    (\<forall>asset. reserves (BuildReport now (fold accumulate (reconcile_rows t) []) l m) asset = outstanding t asset)"
proof -
  let ?u = "fold accumulate (reconcile_rows t) []"
  note row = report_rows [OF fit led pays m l]
  have "rp_clean (BuildReport now ?u l m) \<longleftrightarrow>
      (\<forall>asset \<in> set (unionKeys ?u l m). total_actual (addresses_of m asset) = outstanding t asset)"
    by (simp add: BuildReport_def Let_def list_all_iff row)
  moreover have "total_actual (addresses_of m asset) = outstanding t asset" if "asset \<notin> set (unionKeys ?u l m)" for asset
    using that no_rows_no_value [OF _ fit pays, of asset]
    by (simp add: unionKeys_def addresses_of_def total_actual_def map_of_eq_None_iff [THEN iffD2])
  ultimately show ?thesis unfolding report_reserves by blast
qed

lemma reconcile_setup_db:
  assumes "reconcile_setup T s = (Inr reg, s')"
  shows "db (op_world s') = db (op_world s) \<and> (\<exists>cfg. config_Load (tl_getenv T) = Inr cfg \<and> buildReconcileRegistry T cfg = Inr reg)"
proof -
  from assms obtain cfg u where c: "config_Load (tl_getenv T) = Inr cfg" "buildReconcileRegistry T cfg = Inr reg"
      "at_world (PingContext (tl_env T)) s = (Inr u, s')"
    unfolding reconcile_setup_def by (auto elim!: chk_okE)
  from reading_result [OF conjunct2 [OF at_world_run [OF c(3)], unfolded PingContext_def]] c(1,2) show ?thesis by blast
qed

text \<open>The command returns: with the code of an error, or with a report of the tables it started from.\<close>

lemma runReconcile_cases:
  assumes walk: "walkable (tl_env T) (db (op_world s))"
  obtains (failed) s' where "runReconcile T s = Some ((reconcileExitError, []), s')"
  | (reported) cfg reg now s1 rep s' where "config_Load (tl_getenv T) = Inr cfg" "buildReconcileRegistry T cfg = Inr reg"
      "db (op_world s1) = db (op_world s)" "reconcileReport T reg reconcilePageSize now s1 = Some (Inr rep, s')"
      "runReconcile T s = Some ((reconcileExitCode (rp_clean rep), WriteText (rt_rfc3339 T) rep), s')"
proof -
  obtain r s1 where st: "reconcile_setup T s = (r, s1)" by (rule prod.exhaust)
  show thesis
  proof (cases r)
    case (Inl e)
    with st failed show thesis by (simp add: runReconcile_def)
  next
    case (Inr reg)
    from reconcile_setup_db [OF st [unfolded Inr]] obtain cfg where cfg: "db (op_world s1) = db (op_world s)"
      "config_Load (tl_getenv T) = Inr cfg" "buildReconcileRegistry T cfg = Inr reg" by blast
    obtain a s2 where a: "at_world (time_Now (tl_env T)) s1 = (a, s2)" by (rule prod.exhaust)
    obtain now s3 where b: "at_world (time_Now (tl_env T)) s2 = (now, s3)" by (rule prod.exhaust)
    have now: "time_Now E w = (x, w') \<Longrightarrow> db w' = db w" for E x and w w' :: world by (auto simp: time_Now_def)
    have db3: "db (op_world s3) = db (op_world s)"
      using now [OF conjunct2 [OF at_world_run [OF a]]] now [OF conjunct2 [OF at_world_run [OF b]]] cfg(1) by simp
    have "reconcileReport T reg reconcilePageSize now s3 \<noteq> None"
      using AggregateSettlements_run [of reconcilePageSize "tl_env T" "op_world s3"] walk
      unfolding db3 by (auto simp: reconcilePageSize_def reconcileReport_def)
    then obtain x s4 where rep: "reconcileReport T reg reconcilePageSize now s3 = Some (x, s4)" by fast
    show thesis
    proof (cases x)
      case (Inl e)
      with st \<open>r = Inr reg\<close> a b rep failed show thesis by (simp add: runReconcile_def)
    next
      case (Inr rp)
      show thesis
        by (rule reported [OF cfg(2,3) db3 rep [unfolded Inr]])
          (use st \<open>r = Inr reg\<close> a b rep Inr in \<open>simp add: runReconcile_def\<close>)
    qed
  qed
qed

subsection \<open>Properties\<close>



text \<open>
  C39. The reserve check is vacuous: on a sound ledger no report ever has an undercollateralized asset,
  however little the treasuries hold and however much the accounts do, because the sum of the
  accounts is negated before it is compared with the reserves.\<close>

theorem reserve_check_vacuous:
  assumes "range_law T" "walkable (tl_env T) (db (op_world s))" "sums_fit (db (op_world s))" "ledger_ok (db (op_world s))"
    and "0 < k" "reconcileReport T reg k now s = Some (Inr rep, s')" "a \<in> set (rp_assets rep)"
  shows "ar_verdict a = verdictOK \<and> ar_liabilities a \<le> 0"
proof -
  have pays: "distinct (map pay_id (payments (db (op_world s))))" using assms(2) by (simp add: walkable_def)
  from assms(1,2,5,6) obtain m l where r:
      "rep = BuildReport now (fold accumulate (reconcile_rows (db (op_world s))) []) l m" "ledger_backed m reg"
      "\<And>a. get0 l a = (if a \<in> fst ` set m then wrap64 (- held (db (op_world s)) a) else 0)"
      "\<And>a. a \<in> fst ` set m \<Longrightarrow> int64 (held (db (op_world s)) a)"
    by (rule reconcileReport_ok) blast
  note row = report_rows [OF assms(3,4) pays r(2-4)]
  from assms(7) obtain asset where "a = asset_row (fold accumulate (reconcile_rows (db (op_world s))) []) l m asset"
    unfolding r(1) by (auto simp: BuildReport_def Let_def)
  with row [of asset] show ?thesis by simp
qed

subsection \<open>Instances\<close>

definition recon_env :: getenv where
  "recon_env = rail_env(''PAYMENT_RAIL_RECONCILE_TREASURIES'' := ''m'')"

definition treasury0 :: TreasuryEntry where
  "treasury0 = \<lparr>tr_address = ''0x'' @ replicate 40 (CHR ''a''), tr_asset = ''USDC'', tr_token = ''0X'' @ replicate 40 (CHR ''B'')\<rparr>"

definition recon0 :: recon_tool where
  "recon0 = tool.extend (tool0\<lparr>tl_env := env0, tl_getenv := recon_env,
       tl_rpc := (rpc0 SendOk)\<lparr>rpc_CallContract := (\<lambda>n m. Inr (be_bytes 32 40))\<rparr>\<rparr>)
     \<lparr>rt_files = \<lparr>rf_ReadFile = (\<lambda>p. Inr p), rf_parse = (\<lambda>b. Inr [treasury0])\<rparr>, rt_range = (\<lambda>xs. xs), rt_rfc3339 = (\<lambda>t. ''now'')\<rparr>"

definition recon_ops :: ops where
  "recon_ops = \<lparr>op_world = idle (finalized_in ''bh''), op_chain = chain0\<rparr>"

lemma recon0_simps:
  "tl_env recon0 = env0" "tl_getenv recon0 = recon_env" "tl_open_db recon0 d = Inr ()" "tl_dial_chain recon0 d = Inr ()"
  "tl_lib recon0 = lib2" "rt_range recon0 xs = xs" "rt_files recon0 = \<lparr>rf_ReadFile = (\<lambda>p. Inr p), rf_parse = (\<lambda>b. Inr [treasury0])\<rparr>"
  "tl_rpc recon0 = (rpc0 SendOk)\<lparr>rpc_CallContract := (\<lambda>n m. Inr (be_bytes 32 40))\<rparr>"
  by (simp_all add: recon0_def tool.defs tool0_def)

lemma recon_tables:
  "walkable env0 (finalized_in ''bh'')" "reconcile_rows (finalized_in ''bh'') =
     [\<lparr>rr_id = 6, rr_created = 0, rr_status = ''finalized'', rr_asset = ''USDC'', rr_amount = 40\<rparr>]" "sums_fit (finalized_in ''bh'')"
proof -
  show "walkable env0 (finalized_in ''bh'')" by (simp add: walkable_def finalized_in_def linked_def)
  show r: "reconcile_rows (finalized_in ''bh'') =
     [\<lparr>rr_id = 6, rr_created = 0, rr_status = ''finalized'', rr_asset = ''USDC'', rr_amount = 40\<rparr>]"
    by (simp add: reconcile_rows_def finalized_in_def linked_def)
  show "sums_fit (finalized_in ''bh'')" by (simp add: sums_fit_def r int64_def)
qed

lemma recon_loads: "\<exists>cfg. config_Load recon_env = Inr cfg \<and> cfg_ReconcileTreasuries cfg = ''m'' \<and> cfg_ChainRPCURL cfg = ''u''"
proof -
  have "ParseUint ''5'' = Some 5" by (simp add: ParseUint_def unsigned_def digit_val_def)
  then show ?thesis
    by (simp add: config_Load_def Let_def secs_var_def uint_var_def window_var_def recon_env_def rail_env_def defaults_def getEnv_def)
qed

lemma recon_registry: "LoadRegistry (rt_files recon0) ''m'' = Inr [treasury0]"
  by (simp add: recon0_simps LoadRegistry_def) (simp add: treasury0_def Validate_def validateHexAddress_def HasPrefix_def hex_digit_def list_all_iff)

lemma recon_setup: "\<exists>s. reconcile_setup recon0 recon_ops = (Inr [treasury0], s) \<and> db (op_world s) = finalized_in ''bh''"
  using recon_loads
  by (auto simp: reconcile_setup_def recon0_simps buildReconcileRegistry_def recon_registry [unfolded recon0_simps] newBalanceReader_def
      PingContext_def at_world_def reading_run [OF no_faults0] recon_ops_def split: prod.splits)

lemma balance40: "fst (BalanceOf (tl_rpc recon0) lib2 (tr_token treasury0) (tr_address treasury0) c) = Inr 40"
  by (simp add: recon0_simps BalanceOf_def treasury0_def lib2_def lib0_def call_def chk_def map_err_def rpc0_def SetBytes_be_bytes erc20WordLen_def)

lemma recon_report:
  assumes "db (op_world s) = finalized_in ''bh''"
  shows "\<exists>rep s'. reconcileReport recon0 [treasury0] 1000 now s = Some (Inr rep, s') \<and> reserves rep ''USDC'' = 40"
proof -
  from AggregateSettlements_run [of 1000 env0 "op_world s"] recon_tables(1) assms no_faults0 obtain u w where
    a: "AggregateSettlements env0 1000 (op_world s) = Some (Inr u, w)" "db w = finalized_in ''bh''" by auto
  obtain c where b: "treasury_balances (tl_rpc recon0) lib2 [treasury0] [] (s\<lparr>op_world := w\<rparr>) =
      (Inr [(''USDC'', [\<lparr>ab_address = tr_address treasury0, ab_actual = Some 40\<rparr>])], s\<lparr>op_world := w, op_chain := c\<rparr>)"
    using balance40 [of "op_chain s"]
    by (cases "BalanceOf (tl_rpc recon0) lib2 (tr_token treasury0) (tr_address treasury0) (op_chain s)")
      (auto simp: at_chain_def addresses_of_def treasury0_def)
  have "\<exists>x w'. SumNonHouseLiabilities env0 ''USDC'' w = (Inr x, w')"
    by (simp add: SumNonHouseLiabilities_def reading_run [OF no_faults0] a(2) bigint_def int64_def finalized_in_def linked_def bank_def
        no_tables_def signed_amount_def)
  then obtain l w' where l: "sum_liabilities env0 [''USDC''] [] w = (Inr l, w')" by auto
  show ?thesis
    by (simp add: reconcileReport_def recon0_simps a(1) b [unfolded recon0_simps] at_world_def l report_reserves
        addresses_of_def total_actual_def del: treasury_balances.simps sum_liabilities.simps)
qed


lemma recon_run: "\<exists>code out s'. runReconcile recon0 recon_ops = Some ((code, out), s') \<and> code \<noteq> 2"
proof -
  obtain s where s: "reconcile_setup recon0 recon_ops = (Inr [treasury0], s)" "db (op_world s) = finalized_in ''bh''"
    using recon_setup by blast
  obtain a s1 where a: "at_world (time_Now env0) s = (a, s1)" by (rule prod.exhaust)
  obtain now s2 where b: "at_world (time_Now env0) s1 = (now, s2)" by (rule prod.exhaust)
  have "db (op_world s2) = finalized_in ''bh''"
    using a b s(2) by (auto simp: at_world_def time_Now_def)
  from recon_report [OF this, of now] show ?thesis
    using s(1) a b
    by (auto simp: runReconcile_def recon0_simps(1) reconcilePageSize_def reconcileExitCode_def reconcileExitClean_def reconcileExitDiscrepancy_def)
qed


theorem reserve_check_vacuous_witness:
  "\<exists>rep s'. reconcileReport recon0 [treasury0] 1000 0 recon_ops = Some (Inr rep, s') \<and>
     (\<forall>a \<in> set (rp_assets rep). ar_verdict a = verdictOK)"
proof -
  have r: "range_law recon0" by (simp add: range_law_def recon0_simps)
  have t: "db (op_world recon_ops) = finalized_in ''bh''" by (simp add: recon_ops_def)
  from recon_report [OF t] obtain rep s' where "reconcileReport recon0 [treasury0] 1000 0 recon_ops = Some (Inr rep, s')" by blast
  with reserve_check_vacuous [OF r _ _ _ _ this] show ?thesis
    using recon_tables(1,3) finalized_ledger by (auto simp: t recon0_simps(1))
qed

end
