(* ===== verification/Webhook.thy ===== *)
theory Webhook
  imports Outbox Frames
begin

section \<open>Webhooks\<close>

text \<open>
  \<open>internal/webhook\<close>, the HTTP sender and the consume loop of \<open>cmd/webhookd\<close>, and the replay command
  of \<open>cmd/paymentrailctl\<close>. The consumer turns each event on the topic into one delivery row per
  matching subscription; the worker claims due rows under a lease, posts the signed payload and
  records success, a retry with exponential backoff, or a dead letter. The lemmas show that a
  committed message has been fanned out to every matching subscription, each once however often it
  is redelivered, that the retry schedule is bounded and exact, that a delivery is attempted at most
  eight times, and that every request on the wire carries the stored payload under its own
  subscription's signature.
\<close>

subsection \<open>What the service calls\<close>

text \<open>
  \<open>json.Unmarshal\<close> into an envelope (its id and type), \<open>url.Parse\<close> (the scheme of the URL), the
  HTTP round trip (the status code of the response) and the text of an error.
\<close>

record wire =
  unmarshal :: "bytes \<Rightarrow> (string \<times> string) result"
  url_Parse :: "string \<Rightarrow> string result"
  exchange :: "nat \<Rightarrow> Post \<Rightarrow> int result"
  error_text :: "err \<Rightarrow> string"

abbreviation maxAttempts :: int where "maxAttempts \<equiv> 8"
abbreviation second :: int where "second \<equiv> 1000000000"
abbreviation backoffBase :: int where "backoffBase \<equiv> 2 * second"
abbreviation backoffCap :: int where "backoffCap \<equiv> 3600 * second"
abbreviation leaseSeconds :: int where "leaseSeconds \<equiv> 60"
abbreviation claimBatch :: int where "claimBatch \<equiv> 100"

subsection \<open>Signing (sign.go)\<close>

definition xor_pad :: "nat \<Rightarrow> bytes \<Rightarrow> bytes" where
  "xor_pad p key = map (\<lambda>c. char_of (xor (of_char c) p)) key"

text \<open>HMAC (RFC 2104) over a hash with 64-byte blocks: \<open>crypto/hmac\<close> with \<open>sha256.New\<close>.\<close>

definition hmac :: "(bytes \<Rightarrow> bytes) \<Rightarrow> bytes \<Rightarrow> bytes \<Rightarrow> bytes" where
  "hmac H secret msg =
     (let k = (if 64 < length secret then H secret else secret);
          k = k @ replicate (64 - length k) (CHR 0x00)
      in H (xor_pad 0x5c k @ H (xor_pad 0x36 k @ msg)))"

definition Sign :: "(bytes \<Rightarrow> bytes) \<Rightarrow> bytes \<Rightarrow> int \<Rightarrow> bytes \<Rightarrow> string" where
  "Sign H secret t body =
     ''t='' @ itoa t @ '',v1='' @ hex_Encode (hmac H secret (itoa t @ ''.'' @ body))"

subsection \<open>Retry schedule (backoff.go)\<close>

text \<open>The loop for \<open>i = i0, ..., attempts - 1\<close>, with its remaining iterations.\<close>

primrec backoff_loop :: "nat \<Rightarrow> int \<Rightarrow> int" where
  "backoff_loop 0 d = d"
| "backoff_loop (Suc k) d =
     (let d = wrap64 (d * 2) in if backoffCap \<le> d then backoffCap else backoff_loop k d)"

definition backoff :: "int \<Rightarrow> int" where
  "backoff attempts = (let a = (if attempts < 1 then 1 else attempts) in backoff_loop (nat (a - 1)) backoffBase)"

subsection \<open>The consumer (consumer.go, cmd/webhookd/kafka.go)\<close>

definition Handle :: "env \<Rightarrow> wire \<Rightarrow> bytes \<Rightarrow> world \<Rightarrow> unit result \<times> world" where
  "Handle E H value w =
     (case unmarshal H value of
        Inl e \<Rightarrow> (Inl (Joined ErrPoisonMessage e), w)
      | Inr (i, type) \<Rightarrow>
          (case uuid_Parse E i of
             None \<Rightarrow> (Inl (Joined ErrPoisonMessage (OpError ''bad event id'')), w)
           | Some event \<Rightarrow> chk (FanOutDelivery E event type value w) (\<lambda>n w. (Inr (), w))))"

text \<open>
  One iteration of the consume loop at the committed offset \<open>off\<close>: fetch, handle, commit. After a
  transient failure, or a failed commit, the process is restarted and reads from \<open>off\<close> again.
\<close>

definition consume_one :: "env \<Rightarrow> wire \<Rightarrow> nat \<times> world \<Rightarrow> nat \<times> world" where
  "consume_one E H ow =
     (let (off, w) = ow in
      if length (topic w) \<le> off then (off, w)
      else (case Handle E H (msg_value (topic w ! off)) w of
              (Inl e, w) \<Rightarrow>
                if \<not> errorsIs e ErrPoisonMessage \<or> fault E (tick w) then (off, w\<lparr>tick := Suc (tick w)\<rparr>)
                else (Suc off, w\<lparr>tick := Suc (tick w)\<rparr>)
            | (Inr _, w) \<Rightarrow>
                if fault E (tick w) then (off, w\<lparr>tick := Suc (tick w)\<rparr>)
                else (Suc off, w\<lparr>tick := Suc (tick w)\<rparr>)))"

primrec consume_run :: "env \<Rightarrow> wire \<Rightarrow> nat \<Rightarrow> nat \<times> world \<Rightarrow> nat \<times> world" where
  "consume_run E H 0 ow = ow"
| "consume_run E H (Suc n) ow = consume_run E H n (consume_one E H ow)"

subsection \<open>The delivery worker (delivery.go, cmd/webhookd/httpsender.go)\<close>

definition Send :: "wire \<Rightarrow> string \<Rightarrow> bytes \<Rightarrow> string \<Rightarrow> string \<Rightarrow> int \<Rightarrow> world \<Rightarrow> int result \<times> world" where
  "Send H url body sig eventID attempt w =
     (case url_Parse H url of
        Inl e \<Rightarrow> (Inl (OpError ''webhook: subscriber url did not parse''), w)
      | Inr scheme \<Rightarrow>
          if scheme \<noteq> ''http'' \<and> scheme \<noteq> ''https'' then (Inl (OpError ''webhook: unsupported url scheme''), w)
          else (let p = \<lparr>po_url = url, po_body = body, po_sig = sig, po_event = eventID, po_attempt = attempt\<rparr>
                in (exchange H (tick w) p, w\<lparr>tick := Suc (tick w), posts := posts w @ [p]\<rparr>)))"

datatype delivery_outcome = outcomeSucceeded | outcomeRetry | outcomeDeadLetter

definition classify :: "int \<Rightarrow> int result \<Rightarrow> delivery_outcome" where
  "classify newAttempts res =
     (case res of
        Inr code \<Rightarrow> if 200 \<le> code \<and> code < 300 then outcomeSucceeded
                    else if maxAttempts \<le> newAttempts then outcomeDeadLetter else outcomeRetry
      | Inl e \<Rightarrow> if maxAttempts \<le> newAttempts then outcomeDeadLetter else outcomeRetry)"

definition deliveryError :: "wire \<Rightarrow> int result \<Rightarrow> string option" where
  "deliveryError H res =
     (case res of Inl e \<Rightarrow> Some (error_text H e) | Inr code \<Rightarrow> Some (''status '' @ itoa code))"

definition deliver :: "env \<Rightarrow> wire \<Rightarrow> ClaimedDelivery \<Rightarrow> world \<Rightarrow> unit result \<times> world" where
  "deliver E H row w =
     (let newAttempts = wrap32 (cd_attempts row + 1);
          (now, w) = time_Now E w;
          sig = Sign (sha256 E) (cd_secret row) (now div second) (cd_payload row);
          (res, w) = Send H (cd_url row) (cd_payload row) sig (uuid_String E (cd_event row)) newAttempts w;
          statusCode = (case res of Inl e \<Rightarrow> None | Inr code \<Rightarrow> Some (wrap32 code))
      in case classify newAttempts res of
           outcomeSucceeded \<Rightarrow>
             chk (MarkDeliverySucceeded E (cd_id row) newAttempts statusCode w) (\<lambda>_ w. (Inr (), w))
         | outcomeDeadLetter \<Rightarrow>
             chk (MarkDeliveryDeadLettered E (cd_id row) newAttempts statusCode (deliveryError H res) w)
               (\<lambda>_ w. (Inr (), w))
         | outcomeRetry \<Rightarrow>
             (let (now, w) = time_Now E w
              in chk (MarkDeliveryRetry E (cd_id row) newAttempts (now + backoff newAttempts) statusCode
                        (deliveryError H res) w) (\<lambda>_ w. (Inr (), w))))"

primrec deliver_all :: "env \<Rightarrow> wire \<Rightarrow> ClaimedDelivery list \<Rightarrow> world \<Rightarrow> unit result \<times> world" where
  "deliver_all E H [] w = (Inr (), w)"
| "deliver_all E H (row # rows) w = chk (deliver E H row w) (\<lambda>_ w. deliver_all E H rows w)"

definition drainOnce :: "env \<Rightarrow> wire \<Rightarrow> world \<Rightarrow> unit result \<times> world" where
  "drainOnce E H w = chk (ClaimDueDeliveries E leaseSeconds claimBatch w) (\<lambda>rows w. deliver_all E H rows w)"

text \<open>\<open>Run\<close> for \<open>n\<close> ticks: an error is logged and the loop goes on.\<close>

primrec worker_Run :: "env \<Rightarrow> wire \<Rightarrow> nat \<Rightarrow> world \<Rightarrow> world" where
  "worker_Run E H 0 w = w"
| "worker_Run E H (Suc n) w = worker_Run E H n (snd (drainOnce E H w))"

text \<open>The replay command, after its flags: one statement.\<close>

definition runReplayWebhook :: "env \<Rightarrow> string \<Rightarrow> world \<Rightarrow> nat result \<times> world" where
  "runReplayWebhook E subIDFlag w =
     (if subIDFlag = [] then (Inl (OpError ''--subscription-id is required''), w)
      else case uuid_Parse E subIDFlag of
             None \<Rightarrow> (Inl (OpError ''--subscription-id is not a valid uuid''), w)
           | Some sub \<Rightarrow> ReplayDeadLettered E sub w)"

subsection \<open>The retry schedule\<close>

lemma backoff_loop_min:
  assumes "0 < d" "d \<le> backoffCap"
  shows "backoff_loop k d = min (d * 2 ^ k) backoffCap"
  using assms
proof (induction k arbitrary: d)
  case (Suc k)
  have w: "wrap64 (d * 2) = d * 2" using Suc.prems by (intro wrap64_id) (simp add: int64_def)
  show ?case
  proof (cases "backoffCap \<le> d * 2")
    case True
    have "d * 2 * 1 \<le> d * 2 * 2 ^ k" using Suc.prems by (intro mult_left_mono) simp_all
    then have "backoffCap \<le> d * 2 ^ Suc k" using order_trans [OF True] by (simp add: mult.assoc)
    then have "min (d * 2 ^ Suc k) backoffCap = backoffCap" by (rule min_absorb2)
    with True w show ?thesis by (simp only: backoff_loop.simps Let_def if_True)
  next
    case False
    with Suc.IH [of "d * 2"] Suc.prems w show ?thesis by (simp add: Let_def mult.assoc)
  qed
qed simp

lemma backoff_min: "1 \<le> a \<Longrightarrow> backoff a = min (backoffBase * 2 ^ nat (a - 1)) backoffCap"
  unfolding backoff_def Let_def by (simp add: backoff_loop_min)

subsection \<open>Fanning out\<close>

definition delivery_for :: "uuid \<Rightarrow> uuid \<Rightarrow> WebhookDelivery \<Rightarrow> bool" where
  "delivery_for event sub d \<longleftrightarrow> wd_event d = event \<and> wd_sub d = sub"

definition fresh_delivery :: "uuid \<Rightarrow> string \<Rightarrow> bytes \<Rightarrow> WebhookSubscription list \<Rightarrow> WebhookDelivery \<Rightarrow> bool" where
  "fresh_delivery event type doc ss d \<longleftrightarrow> wd_event d = event \<and> wd_type d = type \<and> wd_payload d = doc \<and>
     wd_status d = ''pending'' \<and> wd_attempts d = 0 \<and>
     (\<exists>s \<in> set ss. wd_sub d = ws_id s \<and> ws_active s \<and> type \<in> set (ws_types s))"

definition keyed :: "WebhookDelivery list \<Rightarrow> bool" where
  "keyed ds \<longleftrightarrow> distinct (map wd_id ds) \<and> distinct (map (\<lambda>d. (wd_event d, wd_sub d)) ds)"

lemma fan_out_rows_ok:
  assumes "fan_out_rows E n now event type doc i ss ds = Inr (k, ds')" "set ss \<subseteq> set ss0"
  shows "\<exists>new. ds' = ds @ new \<and> (\<forall>d \<in> set new. fresh_delivery event type doc ss0 d) \<and>
    (keyed ds \<longrightarrow> keyed ds') \<and>
    (\<forall>s \<in> set ss. ws_active s \<and> type \<in> set (ws_types s) \<longrightarrow> (\<exists>d \<in> set ds'. delivery_for event (ws_id s) d))"
  using assms
proof (induction ss arbitrary: i ds)
  case (Cons s ss)
  show ?case
  proof (cases "\<not> (ws_active s \<and> type \<in> set (ws_types s)) \<or> list_ex (\<lambda>d. wd_event d = event \<and> wd_sub d = ws_id s) ds")
    case True
    with Cons.prems have r: "fan_out_rows E n now event type doc i ss ds = Inr (k, ds')" "set ss \<subseteq> set ss0" by simp_all
    from Cons.IH [OF this] obtain new where new: "ds' = ds @ new" "\<forall>d \<in> set new. fresh_delivery event type doc ss0 d"
      "keyed ds \<longrightarrow> keyed ds'"
      "\<forall>s \<in> set ss. ws_active s \<and> type \<in> set (ws_types s) \<longrightarrow> (\<exists>d \<in> set ds'. delivery_for event (ws_id s) d)" by blast
    moreover have "ws_active s \<and> type \<in> set (ws_types s) \<longrightarrow> (\<exists>d \<in> set ds'. delivery_for event (ws_id s) d)"
      using True new(1) by (auto simp: list_ex_iff delivery_for_def)
    ultimately show ?thesis by auto
  next
    case False
    define d where "d = \<lparr>wd_id = fresh E n i, wd_event = event, wd_sub = ws_id s, wd_type = type,
                     wd_payload = doc, wd_status = ''pending'', wd_attempts = 0, wd_next = now,
                     wd_code = None, wd_error = None, wd_created = now, wd_updated = now\<rparr>"
    have u: "\<not> list_ex (\<lambda>d. wd_id d = fresh E n i) ds" using Cons.prems False by auto
    then have r: "fan_out_rows E n now event type doc (Suc i) ss (ds @ [d]) = Inr (k, ds')" "set ss \<subseteq> set ss0"
      using Cons.prems False by (simp_all add: d_def)
    from Cons.IH [OF this] obtain new where new: "ds' = (ds @ [d]) @ new" "\<forall>d \<in> set new. fresh_delivery event type doc ss0 d"
      "keyed (ds @ [d]) \<longrightarrow> keyed ds'"
      "\<forall>s \<in> set ss. ws_active s \<and> type \<in> set (ws_types s) \<longrightarrow> (\<exists>d \<in> set ds'. delivery_for event (ws_id s) d)" by blast
    have "fresh_delivery event type doc ss0 d"
      using False Cons.prems(2) by (auto simp: fresh_delivery_def d_def)
    moreover have "keyed ds \<longrightarrow> keyed (ds @ [d])"
      using u False by (auto simp: keyed_def d_def list_ex_iff)
    moreover have "delivery_for event (ws_id s) d" by (simp add: delivery_for_def d_def)
    ultimately show ?thesis using new by (intro exI [of _ "d # new"]) auto
  qed
qed simp

lemma fan_out_rows_err:
  "fan_out_rows E n now event type doc i ss ds = Inl e \<Longrightarrow> e = unique_violation"
  by (induction ss arbitrary: i ds) (auto split: if_splits)

lemma FanOut_ok:
  assumes "FanOutDelivery E event type value w = (Inr n, w')"
  shows "\<exists>new doc. db w' = (db w)\<lparr>deliveries := deliveries (db w) @ new\<rparr> \<and> jsonb E value = Some doc \<and>
    (\<forall>d \<in> set new. fresh_delivery event type doc (subscriptions (db w)) d) \<and>
    (keyed (deliveries (db w)) \<longrightarrow> keyed (deliveries (db w'))) \<and>
    (\<forall>s \<in> set (subscriptions (db w)). ws_active s \<and> type \<in> set (ws_types s) \<longrightarrow>
       (\<exists>d \<in> set (deliveries (db w')). delivery_for event (ws_id s) d)) \<and> same_outside w w'"
proof -
  from assms obtain doc ds where doc: "jsonb E value = Some doc"
    and f: "fan_out_rows E (tick w) (pg_now E w) event type doc 0 (subscriptions (db w)) (deliveries (db w)) = Inr (n, ds)"
    and w': "w' = w\<lparr>db := (db w)\<lparr>deliveries := ds\<rparr>, tick := Suc (tick w)\<rparr>"
    unfolding FanOutDelivery_def by (elim query_okE) (auto split: option.splits sum.splits)
  from fan_out_rows_ok [OF f subset_refl] obtain new where "ds = deliveries (db w) @ new"
    "\<forall>d \<in> set new. fresh_delivery event type doc (subscriptions (db w)) d"
    "keyed (deliveries (db w)) \<longrightarrow> keyed ds"
    "\<forall>s \<in> set (subscriptions (db w)). ws_active s \<and> type \<in> set (ws_types s) \<longrightarrow>
       (\<exists>d \<in> set ds. delivery_for event (ws_id s) d)" by blast
  with doc w' show ?thesis by (intro exI [of _ new] exI [of _ doc]) simp
qed

text \<open>A message is done with: unreadable, or a delivery exists for every subscription it matches.\<close>

definition fanned :: "env \<Rightarrow> wire \<Rightarrow> tables \<Rightarrow> bytes \<Rightarrow> bool" where
  "fanned E H t value \<longleftrightarrow>
     (case unmarshal H value of
        Inl e \<Rightarrow> True
      | Inr (i, type) \<Rightarrow>
          (case uuid_Parse E i of
             None \<Rightarrow> True
           | Some event \<Rightarrow> \<forall>s \<in> set (subscriptions t). ws_active s \<and> type \<in> set (ws_types s) \<longrightarrow>
               (\<exists>d \<in> set (deliveries t). delivery_for event (ws_id s) d)))"

definition grown :: "tables \<Rightarrow> tables \<Rightarrow> bool" where
  "grown t t' \<longleftrightarrow> subscriptions t' = subscriptions t \<and> set (deliveries t) \<subseteq> set (deliveries t') \<and>
     (keyed (deliveries t) \<longrightarrow> keyed (deliveries t'))"

lemma fanned_grown: "fanned E H t v \<Longrightarrow> grown t t' \<Longrightarrow> fanned E H t' v"
  by (fastforce simp: fanned_def grown_def split: sum.splits prod.splits option.splits)

lemma Handle_ok:
  assumes "Handle E H value w = (r, w')"
  shows "grown (db w) (db w')" "topic w' = topic w" "posts w' = posts w"
    "r = Inr () \<or> (\<exists>e. r = Inl e \<and> errorsIs e ErrPoisonMessage) \<Longrightarrow> fanned E H (db w') value"
proof -
  have "grown (db w) (db w') \<and> topic w' = topic w \<and> posts w' = posts w \<and>
    (r = Inr () \<or> (\<exists>e. r = Inl e \<and> errorsIs e ErrPoisonMessage) \<longrightarrow> fanned E H (db w') value)"
  proof (cases "unmarshal H value")
    case (Inl e)
    with assms show ?thesis by (auto simp: Handle_def grown_def fanned_def)
  next
    case (Inr x)
    obtain i type where x: "x = (i, type)" by (rule prod.exhaust)
    show ?thesis
    proof (cases "uuid_Parse E i")
      case None
      with assms Inr x show ?thesis by (auto simp: Handle_def grown_def fanned_def)
    next
      case (Some event)
      obtain q w1 where f: "FanOutDelivery E event type value w = (q, w1)" by (rule prod.exhaust)
      show ?thesis
      proof (cases q)
        case (Inl e)
        with f have "db w1 = db w" "same_outside w w1" "\<not> errorsIs e ErrPoisonMessage"
          using query_same_outside [of w E]
          by (auto simp: FanOutDelivery_def query_def split: if_splits sum.splits option.splits
              dest!: fan_out_rows_err)
        with f Inl assms Inr x Some show ?thesis by (auto simp: Handle_def grown_def same_outside_def)
      next
        case q: (Inr n)
        from FanOut_ok [OF f [unfolded q]] f q assms Inr x Some show ?thesis
          by (auto simp: Handle_def grown_def fanned_def same_outside_def)
      qed
    qed
  qed
  then show "grown (db w) (db w')" "topic w' = topic w" "posts w' = posts w"
    "r = Inr () \<or> (\<exists>e. r = Inl e \<and> errorsIs e ErrPoisonMessage) \<Longrightarrow> fanned E H (db w') value" by blast+
qed


lemma grown_refl: "grown t t" and grown_trans: "grown t u \<Longrightarrow> grown u v \<Longrightarrow> grown t v"
  by (auto simp: grown_def)

lemma consume_one_ok:
  assumes "consume_one E H (off, w) = (off', w')" "\<forall>i < off. fanned E H (db w) (msg_value (topic w ! i))"
  shows "off \<le> off'" "topic w' = topic w" "grown (db w) (db w')" "off \<le> length (topic w) \<Longrightarrow> off' \<le> length (topic w)"
    "\<forall>i < off'. fanned E H (db w') (msg_value (topic w ! i))"
proof -
  have "off \<le> off' \<and> topic w' = topic w \<and> grown (db w) (db w') \<and> (off \<le> length (topic w) \<longrightarrow> off' \<le> length (topic w)) \<and>
    (off' \<noteq> off \<longrightarrow> off' = Suc off \<and> fanned E H (db w') (msg_value (topic w ! off)))"
  proof (cases "length (topic w) \<le> off")
    case True
    with assms(1) show ?thesis by (auto simp: consume_one_def grown_refl)
  next
    case False
    obtain r w1 where h: "Handle E H (msg_value (topic w ! off)) w = (r, w1)" by (rule prod.exhaust)
    note h' = Handle_ok [OF h]
    show ?thesis
      using assms(1) False h h' by (cases r) (auto simp: consume_one_def split: if_splits)
  qed
  then show "off \<le> off'" "topic w' = topic w" "grown (db w) (db w')" "off \<le> length (topic w) \<Longrightarrow> off' \<le> length (topic w)"
    "\<forall>i < off'. fanned E H (db w') (msg_value (topic w ! i))"
    using assms(2) fanned_grown [of E H "db w" _ "db w'"] by (auto simp: less_Suc_eq)
qed

lemma consume_run_ok:
  assumes "consume_run E H n (off, w) = (off', w')" "\<forall>i < off. fanned E H (db w) (msg_value (topic w ! i))"
  shows "off \<le> off' \<and> topic w' = topic w \<and> grown (db w) (db w') \<and>
    (\<forall>i < off'. fanned E H (db w') (msg_value (topic w ! i)))"
  using assms
proof (induction n arbitrary: off w)
  case (Suc n)
  obtain o1 w1 where s: "consume_one E H (off, w) = (o1, w1)" by (rule prod.exhaust)
  note one = consume_one_ok [OF s Suc.prems(2)]
  have "consume_run E H n (o1, w1) = (off', w')" using Suc.prems(1) s by simp
  from Suc.IH [OF this] one show ?case by (auto intro: grown_trans)
qed (simp add: grown_refl)

text \<open>
  C11. The consumer fans out every message it commits: however often the database, the commit or the
  process fails on the way, after any number of iterations every committed message of the topic is
  unreadable or has a delivery for each active subscription to its type, no delivery was dropped,
  and there is at most one delivery per event and subscription.
\<close>

theorem consumer_fans_out:
  assumes "consume_run E H n (0, w) = (off, w')" "keyed (deliveries (db w))"
  shows "(\<forall>i < off. fanned E H (db w') (msg_value (topic w ! i))) \<and>
    set (deliveries (db w)) \<subseteq> set (deliveries (db w')) \<and> keyed (deliveries (db w'))"
  using consume_run_ok [OF assms(1)] assms(2) by (auto simp: grown_def)

subsection \<open>The worker\<close>

lemma mark_delivery_ok:
  assumes "mark_delivery E hit f w = (Inr n, w')"
  shows "\<exists>now. db w' = (db w)\<lparr>deliveries := update_where hit (f now) (deliveries (db w))\<rparr> \<and> same_outside w w'"
  using assms unfolding mark_delivery_def statement_Inr by auto

lemma mark_delivery_err:
  assumes "mark_delivery E hit f w = (Inl e, w')" shows "db w' = db w \<and> same_outside w w'"
proof
  show "db w' = db w" using assms unfolding mark_delivery_def by (rule query_err_db)
  have "same_outside w (snd (mark_delivery E hit f w))" unfolding mark_delivery_def by (rule query_same_outside)
  then show "same_outside w w'" using assms by simp
qed

text \<open>A recorded attempt: what \<open>deliver\<close> leaves in the row, as a function of the response.\<close>

definition attempted :: "env \<Rightarrow> wire \<Rightarrow> int \<Rightarrow> int result \<Rightarrow> time \<Rightarrow> time \<Rightarrow> WebhookDelivery \<Rightarrow> WebhookDelivery" where
  "attempted E H n res at now d =
     (let code = (case res of Inl e \<Rightarrow> None | Inr c \<Rightarrow> Some (wrap32 c)) in
      case classify n res of
        outcomeSucceeded \<Rightarrow> d\<lparr>wd_status := ''delivered'', wd_attempts := n, wd_code := code, wd_error := None, wd_updated := now\<rparr>
      | outcomeDeadLetter \<Rightarrow> d\<lparr>wd_status := ''dead_letter'', wd_attempts := n, wd_code := code,
          wd_error := deliveryError H res, wd_updated := now\<rparr>
      | outcomeRetry \<Rightarrow> d\<lparr>wd_attempts := n, wd_next := timestamptz E (at + min (backoffBase * 2 ^ nat (n - 1)) backoffCap),
          wd_code := code, wd_error := deliveryError H res, wd_updated := now\<rparr>)"

definition sent :: "env \<Rightarrow> ClaimedDelivery \<Rightarrow> int \<Rightarrow> Post \<Rightarrow> bool" where
  "sent E row n p \<longleftrightarrow> po_url p = cd_url row \<and> po_body p = cd_payload row \<and>
     po_event p = uuid_String E (cd_event row) \<and> po_attempt p = n \<and>
     (\<exists>t. po_sig p = Sign (sha256 E) (cd_secret row) t (cd_payload row))"

lemma Send_ok:
  assumes "Send H url body sig ev n w = (res, w')"
  shows "db w' = db w \<and> topic w' = topic w \<and> (posts w' = posts w \<and> (\<exists>e. res = Inl e) \<or>
    posts w' = posts w @ [\<lparr>po_url = url, po_body = body, po_sig = sig, po_event = ev, po_attempt = n\<rparr>])"
  using assms by (auto simp: Send_def Let_def split: sum.splits if_splits)

lemma marks_attempted:
  assumes "0 < n" and code: "code = (case res of Inl e \<Rightarrow> None | Inr c \<Rightarrow> Some (wrap32 c))"
  shows "classify n res = outcomeSucceeded \<Longrightarrow> MarkDeliverySucceeded E i n code =
      mark_delivery E (\<lambda>d. wd_id d = i) (attempted E H n res at)"
    "classify n res = outcomeDeadLetter \<Longrightarrow> MarkDeliveryDeadLettered E i n code (deliveryError H res) =
      mark_delivery E (\<lambda>d. wd_id d = i) (attempted E H n res at)"
    "classify n res = outcomeRetry \<Longrightarrow> MarkDeliveryRetry E i n (at + backoff n) code (deliveryError H res) =
      mark_delivery E (\<lambda>d. wd_id d = i) (attempted E H n res at)"
  using assms(1) backoff_min [of n]
  by (simp_all add: MarkDeliverySucceeded_def MarkDeliveryDeadLettered_def MarkDeliveryRetry_def
      attempted_def [abs_def] code)

text \<open>One attempt: a request at most, then one statement that records it.\<close>

lemma deliver_shape:
  assumes "0 \<le> cd_attempts row" "cd_attempts row < 2147483647"
  shows "\<exists>res at w1. deliver E H row w =
      chk (mark_delivery E (\<lambda>d. wd_id d = cd_id row) (attempted E H (cd_attempts row + 1) res at) w1) (\<lambda>_ w. (Inr (), w)) \<and>
    db w1 = db w \<and> topic w1 = topic w \<and>
    (posts w1 = posts w \<and> (\<exists>e. res = Inl e) \<or> (\<exists>p. posts w1 = posts w @ [p] \<and> sent E row (cd_attempts row + 1) p))"
proof -
  let ?n = "cd_attempts row + 1" and ?now = "clock E (tick w)" and ?w0 = "w\<lparr>tick := Suc (tick w)\<rparr>"
  let ?sig = "Sign (sha256 E) (cd_secret row) (?now div second) (cd_payload row)"
  have n: "wrap32 ?n = ?n" "0 < ?n" using assms by (simp_all add: wrap32_small)
  obtain res w1 where s: "Send H (cd_url row) (cd_payload row) ?sig (uuid_String E (cd_event row)) ?n ?w0 = (res, w1)"
    by (rule prod.exhaust)
  note s' = Send_ok [OF s]
  have posts: "posts w1 = posts w \<and> (\<exists>e. res = Inl e) \<or> (\<exists>p. posts w1 = posts w @ [p] \<and> sent E row ?n p)"
    using s' by (auto simp: sent_def)
  note m = marks_attempted [where res = res and E = E and i = "cd_id row" and H = H and at = "clock E (tick w1)",
      OF n(2) refl]
  define w2 where "w2 = (if classify ?n res = outcomeRetry then w1\<lparr>tick := Suc (tick w1)\<rparr> else w1)"
  have "deliver E H row w = chk (mark_delivery E (\<lambda>d. wd_id d = cd_id row)
      (attempted E H ?n res (clock E (tick w1))) w2) (\<lambda>_ w. (Inr (), w))"
    using s by (cases "classify ?n res")
      (simp_all add: deliver_def n(1) time_Now_def Let_def w2_def m)
  moreover have "db w2 = db w" "topic w2 = topic w" "posts w2 = posts w1" using s' by (simp_all add: w2_def)
  ultimately show ?thesis
    using posts by (intro exI [of _ res] exI [of _ "clock E (tick w1)"] exI [of _ w2]) simp
qed

lemma deliver_ok:
  assumes "deliver E H row w = (r, w')" "0 \<le> cd_attempts row" "cd_attempts row < 2147483647"
  shows "posts w' = posts w \<or> (\<exists>p. posts w' = posts w @ [p] \<and> sent E row (cd_attempts row + 1) p)" "topic w' = topic w"
    "r = Inl e \<Longrightarrow> db w' = db w"
    "r = Inr u \<Longrightarrow> \<exists>res at now. db w' = (db w)\<lparr>deliveries := update_where (\<lambda>d. wd_id d = cd_id row)
           (attempted E H (cd_attempts row + 1) res at now) (deliveries (db w))\<rparr> \<and>
         (posts w' = posts w \<longrightarrow> (\<exists>e. res = Inl e))"
proof -
  obtain res at w1 where d: "deliver E H row w =
      chk (mark_delivery E (\<lambda>d. wd_id d = cd_id row) (attempted E H (cd_attempts row + 1) res at) w1) (\<lambda>_ w. (Inr (), w))"
    and w1: "db w1 = db w" "topic w1 = topic w"
      "posts w1 = posts w \<and> (\<exists>e. res = Inl e) \<or> (\<exists>p. posts w1 = posts w @ [p] \<and> sent E row (cd_attempts row + 1) p)"
    using deliver_shape [OF assms(2,3)] by blast
  obtain q w2 where m: "mark_delivery E (\<lambda>d. wd_id d = cd_id row) (attempted E H (cd_attempts row + 1) res at) w1 = (q, w2)"
    by (rule prod.exhaust)
  have same: "same_outside w1 w2"
    using m mark_delivery_ok [of E _ _ w1 _ w2] mark_delivery_err [of E _ _ w1 _ w2] by (cases q) blast+
  have w2: "w' = w2" using assms(1) d m by (cases q) simp_all
  with same w1 show "posts w' = posts w \<or> (\<exists>p. posts w' = posts w @ [p] \<and> sent E row (cd_attempts row + 1) p)"
    "topic w' = topic w" by (auto simp: same_outside_def)
  show "db w' = db w" if "r = Inl e"
    using that assms(1) d m mark_delivery_err [of E _ _ w1 _ w2] w1 w2 by (cases q) auto
  show "\<exists>res at now. db w' = (db w)\<lparr>deliveries := update_where (\<lambda>d. wd_id d = cd_id row)
           (attempted E H (cd_attempts row + 1) res at now) (deliveries (db w))\<rparr> \<and>
         (posts w' = posts w \<longrightarrow> (\<exists>e. res = Inl e))" if r: "r = Inr u"
  proof -
    from r assms(1) d m obtain n where "q = Inr n" by (cases q) auto
    from mark_delivery_ok [OF m [unfolded this]] obtain now where
      "db w2 = (db w1)\<lparr>deliveries := update_where (\<lambda>d. wd_id d = cd_id row)
           (attempted E H (cd_attempts row + 1) res at now) (deliveries (db w1))\<rparr>" by blast
    with w1 w2 same show ?thesis
      by (intro exI [of _ res] exI [of _ at] exI [of _ now]) (auto simp: same_outside_def)
  qed
qed

subsection \<open>Batches\<close>

definition delivery_ok :: "WebhookDelivery \<Rightarrow> bool" where
  "delivery_ok d \<longleftrightarrow> wd_status d \<in> {''pending'', ''delivered'', ''dead_letter''} \<and>
     0 \<le> wd_attempts d \<and> wd_attempts d \<le> maxAttempts \<and>
     (wd_status d = ''pending'' \<longrightarrow> wd_attempts d < maxAttempts) \<and>
     (wd_status d = ''dead_letter'' \<longrightarrow> wd_attempts d = maxAttempts)"

definition hooks_ok :: "tables \<Rightarrow> bool" where
  "hooks_ok t \<longleftrightarrow> keyed (deliveries t) \<and> distinct (map ws_id (subscriptions t)) \<and>
     (\<forall>d \<in> set (deliveries t). delivery_ok d)"

definition d_columns :: "WebhookDelivery \<Rightarrow> uuid \<times> uuid \<times> uuid \<times> bytes" where
  "d_columns d = (wd_id d, wd_event d, wd_sub d, wd_payload d)"

definition same_columns :: "tables \<Rightarrow> tables \<Rightarrow> bool" where
  "same_columns t t' \<longleftrightarrow> subscriptions t' = subscriptions t \<and>
     map d_columns (deliveries t') = map d_columns (deliveries t)"

lemma same_columns_refl: "same_columns t t" and
  same_columns_trans: "same_columns t u \<Longrightarrow> same_columns u v \<Longrightarrow> same_columns t v"
  by (simp_all add: same_columns_def)

lemma keyed_columns:
  assumes "map d_columns ds' = map d_columns ds" shows "keyed ds' \<longleftrightarrow> keyed ds"
proof -
  have k: "keyed xs \<longleftrightarrow> distinct (map fst (map d_columns xs)) \<and>
      distinct (map (\<lambda>(i, e, s, b). (e, s)) (map d_columns xs))" for xs
    by (simp add: keyed_def d_columns_def comp_def)
  show ?thesis unfolding k assms ..
qed

text \<open>The row a claim hands to the worker: a pending delivery joined with its subscription.\<close>

definition claims :: "tables \<Rightarrow> ClaimedDelivery \<Rightarrow> bool" where
  "claims t r \<longleftrightarrow> (\<exists>d \<in> set (deliveries t). \<exists>s \<in> set (subscriptions t).
     wd_status d = ''pending'' \<and> wd_sub d = ws_id s \<and>
     cd_id r = wd_id d \<and> cd_event r = wd_event d \<and> cd_attempts r = wd_attempts d \<and> cd_payload r = wd_payload d \<and>
     cd_url r = ws_url s \<and> cd_secret r = ws_secret s)"

text \<open>A request that is what the sender owes the subscriber.\<close>

definition authentic :: "env \<Rightarrow> tables \<Rightarrow> Post \<Rightarrow> bool" where
  "authentic E t p \<longleftrightarrow> (\<exists>d \<in> set (deliveries t). \<exists>s \<in> set (subscriptions t). wd_sub d = ws_id s \<and>
     po_url p = ws_url s \<and> po_body p = wd_payload d \<and> po_event p = uuid_String E (wd_event d) \<and>
     (\<exists>at. po_sig p = Sign (sha256 E) (ws_secret s) at (wd_payload d)))"

lemma authentic_columns:
  assumes "same_columns t t'" "authentic E t' p" shows "authentic E t p"
proof -
  from assms(2) obtain d s at where d: "d \<in> set (deliveries t')" and s: "s \<in> set (subscriptions t')" "wd_sub d = ws_id s"
     "po_url p = ws_url s" "po_body p = wd_payload d" "po_event p = uuid_String E (wd_event d)"
     "po_sig p = Sign (sha256 E) (ws_secret s) at (wd_payload d)" unfolding authentic_def by blast
  have "d_columns d \<in> set (map d_columns (deliveries t))"
    using assms(1) d unfolding same_columns_def by (metis image_eqI set_map)
  then obtain d' where d': "d' \<in> set (deliveries t)" "d_columns d' = d_columns d" by auto
  have "s \<in> set (subscriptions t)" using s(1) assms(1) by (simp add: same_columns_def)
  then show ?thesis
    unfolding authentic_def using s d' by (intro bexI [of _ d'] bexI [of _ s]) (simp_all add: d_columns_def, blast)
qed

lemma attempted_columns: "d_columns (attempted E H n res at now d) = d_columns d"
  by (simp add: attempted_def d_columns_def Let_def split: delivery_outcome.splits)

lemma attempted_delivery_ok:
  assumes "delivery_ok d" "wd_status d = ''pending''" "n = wd_attempts d + 1"
  shows "delivery_ok (attempted E H n res at now d)"
  using assms by (auto simp: attempted_def delivery_ok_def Let_def classify_def split: sum.splits)

lemma set_mark:
  assumes "distinct (map wd_id ds)" "d \<in> set ds"
  shows "set (update_where (\<lambda>x. wd_id x = wd_id d) f ds) = insert (f d) (set ds - {d})"
proof -
  have "inj_on wd_id (set ds)" using assms(1) by (simp add: distinct_map)
  then have "wd_id x = wd_id d \<longleftrightarrow> x = d" if "x \<in> set ds" for x using that assms(2) by (auto simp: inj_on_def)
  then show ?thesis using assms(2) by (auto simp: set_update_where)
qed

lemma deliver_step:
  assumes "deliver E H row w = (r, w')" "hooks_ok (db w)" "claims (db w) row"
  shows "hooks_ok (db w')" "same_columns (db w) (db w')" "topic w' = topic w"
    "\<exists>ps. posts w' = posts w @ ps \<and> (\<forall>p \<in> set ps. authentic E (db w) p)"
    "\<And>row'. claims (db w) row' \<Longrightarrow> cd_id row' \<noteq> cd_id row \<Longrightarrow> claims (db w') row'"
proof -
  from assms(3) obtain d s where d: "d \<in> set (deliveries (db w))" "wd_status d = ''pending''"
    and s: "s \<in> set (subscriptions (db w))" "wd_sub d = ws_id s"
    and row: "cd_id row = wd_id d" "cd_event row = wd_event d" "cd_attempts row = wd_attempts d" "cd_payload row = wd_payload d"
     "cd_url row = ws_url s" "cd_secret row = ws_secret s" unfolding claims_def by blast
  have ok: "delivery_ok d" "keyed (deliveries (db w))" using assms(2) d(1) by (auto simp: hooks_ok_def)
  have att: "0 \<le> cd_attempts row" "cd_attempts row < 2147483647" using ok(1) row(3) by (auto simp: delivery_ok_def)
  note dl = deliver_ok [OF assms(1) att]
  show "topic w' = topic w" by (rule dl(2))
  show "\<exists>ps. posts w' = posts w @ ps \<and> (\<forall>p \<in> set ps. authentic E (db w) p)"
    using dl(1)
  proof (elim disjE exE conjE)
    fix p assume p: "posts w' = posts w @ [p]" "sent E row (cd_attempts row + 1) p"
    have "authentic E (db w) p"
      unfolding authentic_def using p(2) d s row by (intro bexI [of _ d] bexI [of _ s]) (auto simp: sent_def)
    with p(1) show ?thesis by auto
  qed simp
  have "hooks_ok (db w') \<and> same_columns (db w) (db w') \<and>
    (\<forall>row'. claims (db w) row' \<longrightarrow> cd_id row' \<noteq> cd_id row \<longrightarrow> claims (db w') row')"
  proof (cases r)
    case (Inl e)
    with dl(3) assms(2) show ?thesis by (simp add: same_columns_refl)
  next
    case (Inr u)
    from dl(4) [OF this] obtain res at now where
      w': "db w' = (db w)\<lparr>deliveries := update_where (\<lambda>x. wd_id x = wd_id d)
           (attempted E H (wd_attempts d + 1) res at now) (deliveries (db w))\<rparr>" using row by auto
    let ?d = "attempted E H (wd_attempts d + 1) res at now d"
    have ids: "distinct (map wd_id (deliveries (db w)))" using ok(2) by (simp add: keyed_def)
    have set': "set (deliveries (db w')) = insert ?d (set (deliveries (db w)) - {d})"
      unfolding w' using set_mark [OF ids d(1)] by simp
    have sc: "same_columns (db w) (db w')"
      unfolding same_columns_def w' by (simp add: map_key_update_where attempted_columns)
    have "hooks_ok (db w')"
      using assms(2) ok d(2) set' keyed_columns [of "deliveries (db w')" "deliveries (db w)"] sc
        attempted_delivery_ok [OF ok(1) d(2) refl, of E H res at now]
      by (auto simp: hooks_ok_def same_columns_def)
    moreover have "claims (db w') row'" if c: "claims (db w) row'" "cd_id row' \<noteq> cd_id row" for row'
    proof -
      have "subscriptions (db w') = subscriptions (db w)" by (simp add: w')
      then show ?thesis using c row(1) set' unfolding claims_def by auto
    qed
    ultimately show ?thesis using sc by blast
  qed
  then show "hooks_ok (db w')" "same_columns (db w) (db w')"
    "\<And>row'. claims (db w) row' \<Longrightarrow> cd_id row' \<noteq> cd_id row \<Longrightarrow> claims (db w') row'" by blast+
qed

lemma deliver_all_ok:
  assumes "deliver_all E H rows w = (r, w')" "hooks_ok (db w)" "distinct (map cd_id rows)" "\<forall>row \<in> set rows. claims (db w) row"
  shows "hooks_ok (db w') \<and> same_columns (db w) (db w') \<and> topic w' = topic w \<and>
    (\<exists>ps. posts w' = posts w @ ps \<and> (\<forall>p \<in> set ps. authentic E (db w) p))"
  using assms
proof (induction rows arbitrary: w)
  case (Cons row rows)
  obtain q w1 where d: "deliver E H row w = (q, w1)" by (rule prod.exhaust)
  have "claims (db w) row" using Cons.prems by simp
  note st = deliver_step [OF d Cons.prems(2) this]
  show ?case
  proof (cases q)
    case (Inl e)
    with d Cons.prems(1) have "w' = w1" by simp
    with st show ?thesis by blast
  next
    case (Inr u)
    with d Cons.prems(1) have rest: "deliver_all E H rows w1 = (r, w')" by simp
    have new: "cd_id row \<notin> cd_id ` set rows" using Cons.prems(3) by simp
    have cl: "\<forall>row' \<in> set rows. claims (db w1) row'"
    proof
      fix row' assume in': "row' \<in> set rows"
      then have "cd_id row' \<noteq> cd_id row" using new by (auto simp: image_iff)
      then show "claims (db w1) row'" using st(5) Cons.prems(4) in' by simp
    qed
    have "distinct (map cd_id rows)" using Cons.prems(3) by simp
    from Cons.IH [OF rest st(1) this cl] obtain ps' where
      i: "hooks_ok (db w')" "same_columns (db w1) (db w')" "topic w' = topic w1" "posts w' = posts w1 @ ps'"
         "\<forall>p \<in> set ps'. authentic E (db w1) p" by blast
    from st(4) obtain ps where ps: "posts w1 = posts w @ ps" "\<forall>p \<in> set ps. authentic E (db w) p" by blast
    have "\<forall>p \<in> set (ps @ ps'). authentic E (db w) p"
      using ps(2) i(5) authentic_columns [OF st(2)] by auto
    moreover have "posts w' = posts w @ (ps @ ps')" using i(4) ps(1) by simp
    ultimately show ?thesis
      using i(1-3) st(3) same_columns_trans [OF st(2) i(2)] by (intro conjI exI [of _ "ps @ ps'"]) simp_all
  qed
qed (auto simp: same_columns_refl)


text \<open>What a claim returns, and what it leaves.\<close>

definition leased :: "time \<Rightarrow> WebhookDelivery \<Rightarrow> WebhookDelivery" where
  "leased now d = d\<lparr>wd_next := now + leaseSeconds * second, wd_updated := now\<rparr>"

lemma leased_simps [simp]:
  "wd_id (leased now d) = wd_id d" "wd_event (leased now d) = wd_event d" "wd_sub (leased now d) = wd_sub d"
  "wd_payload (leased now d) = wd_payload d" "wd_status (leased now d) = wd_status d"
  "wd_attempts (leased now d) = wd_attempts d" "d_columns (leased now d) = d_columns d"
  "delivery_ok (leased now d) = delivery_ok d"
  by (simp_all add: leased_def d_columns_def delivery_ok_def)

lemma ClaimDue_ok:
  assumes "ClaimDueDeliveries E leaseSeconds k w = (Inr rows, w')" "hooks_ok (db w)"
  shows "hooks_ok (db w')" "same_columns (db w) (db w')" "topic w' = topic w" "posts w' = posts w"
    "distinct (map cd_id rows)" "\<forall>row \<in> set rows. claims (db w') row"
proof -
  let ?now = "pg_now E w" and ?ds = "deliveries (db w)" and ?ss = "subscriptions (db w)"
  from assms(1) obtain ids where ids: "due_ids E (tick w) ?now k (db w) = Inr ids"
    and rows: "rows = concat (map (\<lambda>d. map (\<lambda>s. \<lparr>cd_id = wd_id d, cd_event = wd_event d,
                     cd_attempts = wd_attempts d, cd_payload = wd_payload d, cd_url = ws_url s,
                     cd_secret = ws_secret s\<rparr>) (filter (\<lambda>s. ws_id s = wd_sub d) ?ss))
                 (filter (\<lambda>d. wd_id d \<in> set ids) ?ds))"
    and w': "w' = w\<lparr>db := (db w)\<lparr>deliveries := update_where
       (\<lambda>d. wd_id d \<in> set ids \<and> list_ex (\<lambda>s. ws_id s = wd_sub d) ?ss) (leased ?now) ?ds\<rparr>, tick := Suc (tick w)\<rparr>"
    unfolding ClaimDueDeliveries_def leased_def [abs_def]
    by (elim query_okE) (auto simp: Let_def split: sum.splits)
  have k: "keyed ?ds" "distinct (map ws_id ?ss)" using assms(2) by (simp_all add: hooks_ok_def)
  then have inj: "inj_on wd_id (set ?ds)" by (simp add: keyed_def distinct_map)
  show sc: "same_columns (db w) (db w')" by (simp add: w' same_columns_def map_key_update_where)
  show "topic w' = topic w" "posts w' = posts w" by (simp_all add: w')
  show "hooks_ok (db w')"
    using assms(2) sc keyed_columns [of "deliveries (db w')" ?ds]
    by (auto simp: hooks_ok_def same_columns_def w' set_update_where)
  have "distinct (map wd_id (filter (\<lambda>d. wd_id d \<in> set ids) ?ds))"
    using k(1) by (simp add: keyed_def distinct_map_filter)
  then show "distinct (map cd_id rows)" unfolding rows by (rule distinct_join [OF _ k(2)]) simp
  show "\<forall>row \<in> set rows. claims (db w') row"
  proof
    fix row assume "row \<in> set rows"
    then obtain d s where d: "d \<in> set ?ds" "wd_id d \<in> set ids" and s: "s \<in> set ?ss" "ws_id s = wd_sub d"
      and row: "row = \<lparr>cd_id = wd_id d, cd_event = wd_event d, cd_attempts = wd_attempts d,
        cd_payload = wd_payload d, cd_url = ws_url s, cd_secret = ws_secret s\<rparr>"
      unfolding rows by auto
    have "wd_id d \<in> wd_id ` {x \<in> set ?ds. wd_status x = ''pending''}"
      using d(2) ids by (auto simp: due_ids_def limit_rows_def split: if_splits dest!: in_set_takeD)
    then have "wd_status d = ''pending''" using d(1) inj by (auto simp: inj_on_def)
    moreover have "leased ?now d \<in> set (deliveries (db w'))"
      using d s by (auto simp: w' set_update_where list_ex_iff)
    ultimately show "claims (db w') row"
      unfolding claims_def using s by (intro bexI [of _ "leased ?now d"] bexI [of _ s]) (simp_all add: row w')
  qed
qed

lemma drainOnce_ok:
  assumes "drainOnce E H w = (r, w')" "hooks_ok (db w)"
  shows "hooks_ok (db w') \<and> same_columns (db w) (db w') \<and> topic w' = topic w \<and>
    (\<exists>ps. posts w' = posts w @ ps \<and> (\<forall>p \<in> set ps. authentic E (db w) p))"
proof -
  obtain q w1 where c: "ClaimDueDeliveries E leaseSeconds claimBatch w = (q, w1)" by (rule prod.exhaust)
  show ?thesis
  proof (cases q)
    case (Inl e)
    have "db w1 = db w" using c Inl by (auto simp: ClaimDueDeliveries_def dest: query_err_db)
    moreover have "same_outside w (snd (ClaimDueDeliveries E leaseSeconds claimBatch w))"
      unfolding ClaimDueDeliveries_def by (rule query_same_outside)
    then have "same_outside w w1" using c by simp
    ultimately show ?thesis
      using assms c Inl by (auto simp: drainOnce_def same_columns_refl same_outside_def)
  next
    case (Inr rows)
    note cl = ClaimDue_ok [OF c [unfolded Inr] assms(2)]
    have "deliver_all E H rows w1 = (r, w')" using assms(1) c Inr by (simp add: drainOnce_def)
    from deliver_all_ok [OF this cl(1,5,6)] cl(2,3,4) same_columns_trans [OF cl(2)] authentic_columns [OF cl(2)]
    show ?thesis by (auto simp only: cl(4))
  qed
qed


lemma worker_Run_ok:
  assumes "hooks_ok (db w)"
  shows "hooks_ok (db (worker_Run E H n w)) \<and> same_columns (db w) (db (worker_Run E H n w)) \<and>
    (\<exists>ps. posts (worker_Run E H n w) = posts w @ ps \<and> (\<forall>p \<in> set ps. authentic E (db w) p))"
  using assms
proof (induction n arbitrary: w)
  case (Suc n)
  define w1 where "w1 = snd (drainOnce E H w)"
  have "drainOnce E H w = (fst (drainOnce E H w), w1)" by (simp add: w1_def)
  from drainOnce_ok [OF this Suc.prems] obtain ps where
    d: "hooks_ok (db w1)" "same_columns (db w) (db w1)" "posts w1 = posts w @ ps" "\<forall>p \<in> set ps. authentic E (db w) p" by blast
  from Suc.IH [OF d(1)] obtain ps' where
    i: "hooks_ok (db (worker_Run E H n w1))" "same_columns (db w1) (db (worker_Run E H n w1))"
      "posts (worker_Run E H n w1) = posts w1 @ ps'" "\<forall>p \<in> set ps'. authentic E (db w1) p" by blast
  have "\<forall>p \<in> set (ps @ ps'). authentic E (db w) p" using d(4) i(4) authentic_columns [OF d(2)] by auto
  then show ?case
    using i(1,3) d(3) same_columns_trans [OF d(2) i(2)]
    by (simp add: w1_def [symmetric])
qed (auto simp: same_columns_refl)

definition replayed :: "time \<Rightarrow> WebhookDelivery \<Rightarrow> WebhookDelivery" where
  "replayed now d = d\<lparr>wd_status := ''pending'', wd_attempts := 0, wd_next := now, wd_error := None, wd_updated := now\<rparr>"

lemma replayed_simps: "d_columns (replayed now d) = d_columns d" "delivery_ok (replayed now d)"
  by (simp_all add: replayed_def d_columns_def delivery_ok_def)

lemma Replay_hooks:
  assumes "hooks_ok (db w)" "ReplayDeadLettered E i w = (r, w')" shows "hooks_ok (db w')"
proof (cases r)
  case (Inl e)
  with assms mark_delivery_err [OF assms(2) [unfolded Inl ReplayDeadLettered_def]] show ?thesis by simp
next
  case (Inr n)
  let ?hit = "\<lambda>d. wd_status d = ''dead_letter'' \<and> wd_sub d = i"
  from mark_delivery_ok [OF assms(2) [unfolded Inr ReplayDeadLettered_def]] obtain now where
    w': "db w' = (db w)\<lparr>deliveries := update_where ?hit (replayed now) (deliveries (db w))\<rparr>"
    unfolding replayed_def by blast
  have ds: "deliveries (db w') = update_where ?hit (replayed now) (deliveries (db w))"
    "subscriptions (db w') = subscriptions (db w)" by (simp_all add: w')
  have "keyed (deliveries (db w'))"
    using keyed_columns [of "deliveries (db w')" "deliveries (db w)"] assms(1)
    by (simp add: ds map_key_update_where replayed_simps hooks_ok_def)
  moreover have "\<forall>d \<in> set (deliveries (db w')). delivery_ok d"
    using assms(1) unfolding ds set_update_where hooks_ok_def by (auto simp: replayed_simps)
  ultimately show ?thesis using assms(1) ds(2) by (simp add: hooks_ok_def)
qed

lemma replay_ok:
  assumes "hooks_ok (db w)" shows "hooks_ok (db (snd (runReplayWebhook E sub w)))"
proof -
  have "hooks_ok (db (snd (ReplayDeadLettered E i w)))" for i
    using Replay_hooks [OF assms, of E i "fst (ReplayDeadLettered E i w)"] by simp
  then show ?thesis using assms by (simp add: runReplayWebhook_def split: option.splits)
qed

lemma Handle_hooks:
  assumes "hooks_ok (db w)" "Handle E H v w = (r, w')" shows "hooks_ok (db w')"
proof -
  have fan: "hooks_ok (db w1)" if f: "FanOutDelivery E event type v w = (q, w1)" for event type q w1
  proof (cases q)
    case (Inl e)
    with f have "db w1 = db w" unfolding FanOutDelivery_def by (simp add: query_err_db)
    with assms(1) show ?thesis by simp
  next
    case (Inr n)
    from FanOut_ok [OF f [unfolded Inr]] obtain new doc where
      n: "db w1 = (db w)\<lparr>deliveries := deliveries (db w) @ new\<rparr>"
        "\<forall>d \<in> set new. fresh_delivery event type doc (subscriptions (db w)) d"
        "keyed (deliveries (db w)) \<longrightarrow> keyed (deliveries (db w1))" by blast
    have "\<forall>d \<in> set new. delivery_ok d" using n(2) by (simp add: fresh_delivery_def delivery_ok_def)
    with n(1,3) assms(1) show ?thesis by (auto simp: hooks_ok_def)
  qed
  show ?thesis
    using assms fan by (cases "unmarshal H v")
      (auto simp: Handle_def chk_def split: option.splits prod.splits sum.splits)
qed

lemma consume_one_hooks:
  "hooks_ok (db w) \<Longrightarrow> consume_one E H (off, w) = (off', w') \<Longrightarrow> hooks_ok (db w')"
  using Handle_hooks by (auto simp: consume_one_def split: if_splits prod.splits sum.splits)

lemma consume_run_hooks:
  "hooks_ok (db w) \<Longrightarrow> hooks_ok (db (snd (consume_run E H n (off, w))))"
proof (induction n arbitrary: off w)
  case (Suc n)
  obtain o1 w1 where s: "consume_one E H (off, w) = (o1, w1)" by (rule prod.exhaust)
  from Suc.IH [OF consume_one_hooks [OF Suc.prems s]] s show ?case by simp
qed simp


text \<open>
  C31. Every request the worker puts on the wire, over any number of ticks and whatever fails, is
  authentic: it goes to the URL of a subscription that has a delivery, its body is that delivery's
  stored payload, and its signature is the HMAC of that body under that subscription's secret.
\<close>

theorem worker_posts_authentic:
  assumes "hooks_ok (db w)"
  shows "\<exists>ps. posts (worker_Run E H n w) = posts w @ ps \<and> (\<forall>p \<in> set ps. authentic E (db w) p)"
  using worker_Run_ok [OF assms] by blast

text \<open>
  Deliveries stay within their bounds: the worker, the consumer and the replay command keep at
  most one delivery per event and subscription, at most eight recorded attempts per delivery, fewer
  while it is pending, and exactly eight when it is dead-lettered.
\<close>

theorem webhooks_bounded:
  assumes "hooks_ok (db w)"
  shows "hooks_ok (db (worker_Run E H n w)) \<and> hooks_ok (db (snd (consume_run E H n (off, w)))) \<and>
    hooks_ok (db (snd (runReplayWebhook E sub w)))"
  using worker_Run_ok [OF assms] consume_run_hooks [OF assms] replay_ok [OF assms] by blast


subsection \<open>Instances\<close>

text \<open>A subscriber that answers 500, a subscription to created payments, and an event for it.\<close>

definition wire0 :: wire where
  "wire0 = \<lparr>unmarshal = (\<lambda>b. if b = ''ev'' then Inr (''uuu'', ''payment.created'') else Inl (OpError ''json'')),
     url_Parse = (\<lambda>u. Inr ''https''), exchange = (\<lambda>n p. Inr 500), error_text = (\<lambda>e. ''failed'')\<rparr>"

definition hooks0 :: "WebhookDelivery list \<Rightarrow> tables" where
  "hooks0 ds = no_tables\<lparr>subscriptions := [\<lparr>ws_id = 1, ws_url = ''https://a'', ws_types = [''payment.created''],
     ws_secret = ''s'', ws_active = True, ws_created = 0\<rparr>], deliveries := ds\<rparr>"

definition failing :: WebhookDelivery where
  "failing = \<lparr>wd_id = 2, wd_event = 3, wd_sub = 1, wd_type = ''payment.created'', wd_payload = ''ev'',
     wd_status = ''pending'', wd_attempts = 7, wd_next = 0, wd_code = None, wd_error = None,
     wd_created = 0, wd_updated = 0\<rparr>"

definition failing_claim :: ClaimedDelivery where
  "failing_claim = \<lparr>cd_id = 2, cd_event = 3, cd_attempts = 7, cd_payload = ''ev'', cd_url = ''https://a'', cd_secret = ''s''\<rparr>"

lemma failing_claim_attempts: "cd_attempts failing_claim = 7"
  by (simp add: failing_claim_def)

lemma hooks0_ok: "hooks_ok (hooks0 [failing])" "keyed (deliveries (hooks0 []))"
  by (simp_all add: hooks_ok_def hooks0_def failing_def keyed_def delivery_ok_def)

abbreviation consumed :: "nat \<times> world" where
  "consumed \<equiv> consume_run env0 wire0 1 (0, (idle (hooks0 []))\<lparr>topic := [\<lparr>msg_key = [], msg_value = ''ev''\<rparr>]\<rparr>)"

lemma consumed_one: "fst consumed = 1"
  by (simp add: consume_one_def Handle_def FanOutDelivery_def query_def wire0_def env0_def hooks0_def no_tables_def idle_def)

theorem consumer_fans_out_witness:
  "fst consumed = 1 \<and> fanned env0 wire0 (db (snd consumed)) ''ev'' \<and> keyed (deliveries (db (snd consumed)))"
  using consumer_fans_out [of env0 wire0 1 "(idle (hooks0 []))\<lparr>topic := [\<lparr>msg_key = [], msg_value = ''ev''\<rparr>]\<rparr>"
      "fst consumed" "snd consumed", OF prod.collapse [symmetric]] hooks0_ok(2) consumed_one
  by simp


theorem worker_posts_authentic_witness:
  "\<exists>ps. posts (worker_Run env0 wire0 1 (idle (hooks0 [failing]))) = ps \<and>
     (\<forall>p \<in> set ps. authentic env0 (hooks0 [failing]) p)"
  using worker_posts_authentic [of "idle (hooks0 [failing])" env0 wire0 1] hooks0_ok(1) by simp

theorem webhooks_bounded_witness:
  "hooks_ok (db (worker_Run env0 wire0 3 (idle (hooks0 [failing])))) \<and>
   hooks_ok (db (snd (runReplayWebhook env0 ''u'' (idle (hooks0 [failing])))))"
  using webhooks_bounded [of "idle (hooks0 [failing])" env0 wire0 3 0 "''u''"] hooks0_ok(1) by simp

end
