(* ===== verification/Api.thy ===== *)
theory Api
  imports Growth GoStd
begin

section \<open>The payments API\<close>

text \<open>
  \<open>cmd/api\<close> and \<open>internal/payments/idempotency.go\<close>: the four handlers, their error mapping, cursors,
  and the idempotency middleware over its store. A response is its status and body. The JSON of a
  request body, the text of a time and base64 are parameters, as is what the network delivers of a
  request body; JSON of a response is \<open>json_Marshal\<close> of the environment.

  The middleware runs in three steps (claim, handler, completion), and requests interleave between
  them, crash at any of them, and meet a failing database; the lemmas show that under every such
  interleaving a key creates at most one payment, and what a repeated request is answered.
\<close>

subsection \<open>The idempotency store\<close>

record BeginResult =
  br_fresh :: bool
  br_existing :: IdempotencyKey

definition Begin :: "env \<Rightarrow> string \<Rightarrow> bytes \<Rightarrow> world \<Rightarrow> BeginResult result \<times> world" where
  "Begin E key hash w =
     (case InsertIdempotencyKey E key hash w of
        (Inr row, w) \<Rightarrow> (Inr \<lparr>br_fresh = True, br_existing = row\<rparr>, w)
      | (Inl e, w) \<Rightarrow>
          if \<not> errorsIs e ErrNoRows then (Inl e, w)
          else chk (GetIdempotencyKey E key w) (\<lambda>row w. (Inr \<lparr>br_fresh = False, br_existing = row\<rparr>, w)))"

definition uuid_Nil :: uuid where "uuid_Nil = 0"

definition Complete :: "env \<Rightarrow> string \<Rightarrow> int \<Rightarrow> bytes \<Rightarrow> uuid \<Rightarrow> world \<Rightarrow> unit result \<times> world" where
  "Complete E key status body paymentID =
     CompleteIdempotencyKey E key (Some (wrap32 status)) body (if paymentID = uuid_Nil then None else Some paymentID)"

definition Delete :: "env \<Rightarrow> string \<Rightarrow> world \<Rightarrow> unit result \<times> world" where
  "Delete E key = DeleteIdempotencyKey E key"

definition SweepExpired :: "env \<Rightarrow> int \<Rightarrow> world \<Rightarrow> nat result \<times> world" where
  "SweepExpired E olderThan w =
     (case time_Now E w of (now, w) \<Rightarrow> DeleteExpiredIdempotencyKeys E (now - olderThan) w)"

text \<open>The sweeper for a number of ticks; a failed sweep is logged and the next tick tries again.\<close>

fun RunSweeper :: "env \<Rightarrow> int \<Rightarrow> nat \<Rightarrow> world \<Rightarrow> world" where
  "RunSweeper E ttl 0 w = w"
| "RunSweeper E ttl (Suc n) w = RunSweeper E ttl n (snd (SweepExpired E ttl w))"

subsection \<open>Requests and responses\<close>

record createRequest =
  cr_source :: uuid
  cr_dest :: uuid
  cr_asset :: string
  cr_amount :: int

record codec =
  cd_create :: "bytes \<Rightarrow> createRequest option"
  cd_payment_id :: "bytes \<Rightarrow> uuid option"
  cd_format :: "time \<Rightarrow> string"
  cd_parse :: "string \<Rightarrow> time option"
  cd_base64 :: "bytes \<Rightarrow> string"
  cd_unbase64 :: "string \<Rightarrow> bytes option"

record http_response =
  hs_status :: int
  hs_body :: bytes

definition writeJSON :: "env \<Rightarrow> int \<Rightarrow> json \<Rightarrow> http_response" where
  "writeJSON E status v =
     \<lparr>hs_status = status, hs_body = (case json_Marshal E v of Inl _ \<Rightarrow> [] | Inr b \<Rightarrow> b @ [CHR 0x0A])\<rparr>"

definition writeError :: "env \<Rightarrow> int \<Rightarrow> string \<Rightarrow> string \<Rightarrow> http_response" where
  "writeError E status code msg = writeJSON E status
     (JObject [(''error'', JObject [(''code'', JString code), (''message'', JString msg)])])"

definition writeServiceError :: "env \<Rightarrow> err \<Rightarrow> http_response" where
  "writeServiceError E e =
     (if errorsIs e ErrInvalidEntry then writeError E 400 ''invalid_request'' ''the payment request is invalid''
      else if errorsIs e ErrInsufficientFunds then writeError E 422 ''insufficient_funds'' ''insufficient funds for this payment''
      else if errorsIs e ErrDuplicateEntry then writeError E 409 ''duplicate_payment'' ''a conflicting payment already exists''
      else if errorsIs e ErrPaymentNotFound then writeError E 404 ''not_found'' ''payment not found''
      else if errorsIs e ErrPaymentNotCancelable then writeError E 409 ''not_cancelable'' ''payment cannot be canceled''
      else if errorsIs e ErrUnbalanced then writeError E 500 ''internal'' ''internal server error''
      else writeError E 500 ''internal'' ''internal server error'')"

definition toPaymentResponse :: "env \<Rightarrow> Payment \<Rightarrow> json" where
  "toPaymentResponse E p = JObject
     ([(''id'', JString (uuid_String E (pay_id p))), (''status'', JString (pay_status p)),
       (''asset'', JString (pay_asset p)), (''amount'', JNumber (pay_amount p)),
       (''source_account_id'', JString (uuid_String E (pay_source p))),
       (''dest_account_id'', JString (uuid_String E (pay_dest p))),
       (''journal_entry_id'', JString (uuid_String E (pay_entry p)))] @
      (case pay_reversal p of None \<Rightarrow> [] | Some r \<Rightarrow> [(''reversal_entry_id'', JString (uuid_String E r))]) @
      [(''created_at'', JTime (pay_created p))] @
      (case pay_canceled p of None \<Rightarrow> [] | Some t \<Rightarrow> [(''canceled_at'', JTime t)]))"

definition encodeCursor :: "env \<Rightarrow> codec \<Rightarrow> Cursor \<Rightarrow> string" where
  "encodeCursor E A c = cd_base64 A (cd_format A (cu_created c) @ ''|'' @ uuid_String E (cu_id c))"

text \<open>\<open>strings.Cut\<close> at the first separator.\<close>

fun cut :: "char \<Rightarrow> string \<Rightarrow> (string \<times> string) option" where
  "cut c [] = None"
| "cut c (x # xs) = (if x = c then Some ([], xs) else map_option (\<lambda>(a, b). (x # a, b)) (cut c xs))"

definition decodeCursor :: "env \<Rightarrow> codec \<Rightarrow> string \<Rightarrow> Cursor option" where
  "decodeCursor E A token =
     (case cd_unbase64 A token of
        None \<Rightarrow> None
      | Some raw \<Rightarrow>
          (case cut (CHR ''|'') raw of
             None \<Rightarrow> None
           | Some (at, i) \<Rightarrow>
               (case cd_parse A at of
                  None \<Rightarrow> None
                | Some tm \<Rightarrow>
                    (case uuid_Parse E i of
                       None \<Rightarrow> None
                     | Some u \<Rightarrow> Some \<lparr>cu_created = tm, cu_id = u\<rparr>))))"

subsection \<open>The handlers\<close>

definition defaultListLimit :: int where "defaultListLimit = 20"
definition maxListLimit :: int where "maxListLimit = 100"

definition clampLimit :: "int \<Rightarrow> int" where
  "clampLimit n = (if n < 1 then 1 else if n > maxListLimit then maxListLimit else n)"

definition handleCreate :: "env \<Rightarrow> codec \<Rightarrow> bytes \<Rightarrow> world \<Rightarrow> http_response \<times> world" where
  "handleCreate E A body w =
     (case cd_create A body of
        None \<Rightarrow> (writeError E 400 ''invalid_request'' ''request body is not valid JSON'', w)
      | Some req \<Rightarrow>
          if cr_source req = uuid_Nil \<or> cr_dest req = uuid_Nil
          then (writeError E 400 ''invalid_request'' ''source_account_id and dest_account_id are required'', w)
          else if TrimSpace (cr_asset req) = []
          then (writeError E 400 ''invalid_request'' ''asset is required'', w)
          else if cr_amount req \<le> 0
          then (writeError E 400 ''invalid_request'' ''amount must be positive'', w)
          else (case Create E \<lparr>ci_source = cr_source req, ci_dest = cr_dest req, ci_asset = cr_asset req,
                               ci_amount = cr_amount req\<rparr> w of
                  (Inl e, w) \<Rightarrow> (writeServiceError E e, w)
                | (Inr payment, w) \<Rightarrow> (writeJSON E 201 (toPaymentResponse E payment), w)))"

definition handleGet :: "env \<Rightarrow> string \<Rightarrow> world \<Rightarrow> http_response \<times> world" where
  "handleGet E i w =
     (case uuid_Parse E i of
        None \<Rightarrow> (writeError E 400 ''invalid_request'' ''id is not a valid uuid'', w)
      | Some u \<Rightarrow>
          (case Get E u w of
             (Inl e, w) \<Rightarrow> (writeServiceError E e, w)
           | (Inr payment, w) \<Rightarrow> (writeJSON E 200 (toPaymentResponse E payment), w)))"

definition handleCancel :: "env \<Rightarrow> string \<Rightarrow> world \<Rightarrow> http_response \<times> world" where
  "handleCancel E i w =
     (case uuid_Parse E i of
        None \<Rightarrow> (writeError E 400 ''invalid_request'' ''id is not a valid uuid'', w)
      | Some u \<Rightarrow>
          (case Cancel E u w of
             (Inl e, w) \<Rightarrow> (writeServiceError E e, w)
           | (Inr payment, w) \<Rightarrow> (writeJSON E 200 (toPaymentResponse E payment), w)))"

text \<open>The query parameters; an absent one is the empty string.\<close>

definition list_limit :: "string \<Rightarrow> int option" where
  "list_limit v = (if v = [] then Some defaultListLimit else map_option clampLimit (Atoi v))"

definition list_cursor :: "env \<Rightarrow> codec \<Rightarrow> string \<Rightarrow> Cursor option option" where
  "list_cursor E A token = (if token = [] then Some None else map_option Some (decodeCursor E A token))"

definition handleList :: "env \<Rightarrow> codec \<Rightarrow> string \<Rightarrow> string \<Rightarrow> world \<Rightarrow> http_response \<times> world" where
  "handleList E A v token w =
     (case list_limit v of
        None \<Rightarrow> (writeError E 400 ''invalid_request'' ''limit must be an integer'', w)
      | Some limit \<Rightarrow>
          (case list_cursor E A token of
             None \<Rightarrow> (writeError E 400 ''invalid_request'' ''cursor is malformed'', w)
           | Some cursor \<Rightarrow>
               (case PaymentsList E limit cursor w of
                  (Inl e, w) \<Rightarrow> (writeServiceError E e, w)
                | (Inr (page, nxt), w) \<Rightarrow>
                    (writeJSON E 200 (JObject ([(''data'', JArray (map (toPaymentResponse E) page))] @
                       (case nxt of None \<Rightarrow> [] | Some c \<Rightarrow> [(''next_cursor'', JString (encodeCursor E A c))]))), w))))"

subsection \<open>The middleware\<close>

text \<open>A request as it arrives: what the network delivers of its body, and whether it fails after that.\<close>

record http_request =
  hr_method :: string
  hr_path :: string
  hr_key :: string
  hr_body :: bytes
  hr_broken :: bool

definition maxRequestBodyBytes :: int where "maxRequestBodyBytes = 65536"

definition request_hash :: "env \<Rightarrow> http_request \<Rightarrow> bytes" where
  "request_hash E r = sha256 E (hr_method r @ [CHR 0x0A] @ hr_path r @ [CHR 0x0A] @ hr_body r)"

definition replay :: "env \<Rightarrow> IdempotencyKey \<Rightarrow> bytes \<Rightarrow> http_response" where
  "replay E row hash =
     (if ik_status row = ''in_flight''
      then writeError E 409 ''request_in_flight'' ''a request with this idempotency key is still in progress''
      else if ik_hash row \<noteq> hash
      then writeError E 422 ''idempotency_key_reused'' ''idempotency key was already used with a different request''
      else \<lparr>hs_status = (case ik_resp_status row of None \<Rightarrow> 0 | Some st \<Rightarrow> st), hs_body = ik_resp_body row\<rparr>)"

text \<open>Up to the claim: a response, or the body for the handler.\<close>

definition claim :: "env \<Rightarrow> http_request \<Rightarrow> world \<Rightarrow> (http_response + bytes) \<times> world" where
  "claim E r w =
     (if hr_key r = [] then (Inl (writeError E 400 ''missing_idempotency_key'' ''Idempotency-Key header is required''), w)
      else if int (length (hr_body r)) > maxRequestBodyBytes
      then (Inl (writeError E 413 ''request_too_large'' ''request body exceeds the maximum allowed size''), w)
      else if hr_broken r then (Inl (writeError E 400 ''invalid_request'' ''could not read request body''), w)
      else (case Begin E (hr_key r) (request_hash E r) w of
              (Inl e, w) \<Rightarrow> (Inl (writeError E 500 ''internal'' ''internal server error''), w)
            | (Inr res, w) \<Rightarrow>
                if \<not> br_fresh res then (Inl (replay E (br_existing res) (request_hash E r)), w)
                else (Inr (hr_body r), w)))"

definition paymentIDFrom :: "codec \<Rightarrow> bytes \<Rightarrow> uuid" where
  "paymentIDFrom A body = (case cd_payment_id A body of None \<Rightarrow> uuid_Nil | Some u \<Rightarrow> u)"

text \<open>After the handler: the outcome is cached or the claim released; a failure of either is only logged.\<close>

definition settle_claim :: "env \<Rightarrow> codec \<Rightarrow> string \<Rightarrow> http_response \<Rightarrow> world \<Rightarrow> world" where
  "settle_claim E A key resp w =
     (if 200 \<le> hs_status resp \<and> hs_status resp < 300
      then snd (Complete E key (hs_status resp) (hs_body resp) (paymentIDFrom A (hs_body resp)) w)
      else snd (Delete E key w))"

definition withIdempotency :: "env \<Rightarrow> codec \<Rightarrow> http_request \<Rightarrow> world \<Rightarrow> http_response \<times> world" where
  "withIdempotency E A r w =
     (case claim E r w of
        (Inl resp, w) \<Rightarrow> (resp, w)
      | (Inr body, w) \<Rightarrow>
          (case handleCreate E A body w of (resp, w) \<Rightarrow> (resp, settle_claim E A (hr_key r) resp w)))"

subsection \<open>Cursors come back\<close>

text \<open>What the API relies on of base64, RFC 3339 times and UUID texts.\<close>

definition codec_laws :: "env \<Rightarrow> codec \<Rightarrow> bool" where
  "codec_laws E A \<longleftrightarrow>
     (\<forall>b. cd_unbase64 A (cd_base64 A b) = Some b) \<and>
     (\<forall>tm. cd_parse A (cd_format A tm) = Some tm \<and> CHR ''|'' \<notin> set (cd_format A tm)) \<and>
     (\<forall>u. uuid_Parse E (uuid_String E u) = Some u)"

lemma cut_append: "c \<notin> set a \<Longrightarrow> cut c (a @ c # b) = Some (a, b)"
  by (induction a) auto

lemma cursor_returns: "codec_laws E A \<Longrightarrow> decodeCursor E A (encodeCursor E A c) = Some c"
  by (simp add: codec_laws_def decodeCursor_def encodeCursor_def cut_append)

subsection \<open>What the handlers leave alone\<close>

definition same_api :: "tables \<Rightarrow> tables \<Rightarrow> bool" where
  "same_api t t' \<longleftrightarrow> map pay_id (payments t') = map pay_id (payments t) \<and> idem t' = idem t"

interpretation views: table_order same_api
  by unfold_locales (simp_all add: same_api_def)

lemma same_api_writes [frames]:
  "frame same_api (InsertJournalEntry E kind ref asset)"
  "frame same_api (InsertEntryLine E entry account direction amount)"
  "frame same_api (InsertOutboxEvent E i ty agg payload)"
  "frame same_api (InsertAuditEntry E r)"
  "frame same_api (CancelPayment E i' reversal)"
  unfolding InsertJournalEntry_def InsertEntryLine_def InsertOutboxEvent_def InsertAuditEntry_def CancelPayment_def
  by (rule views.frame_query; auto simp: same_api_def Let_def split: if_splits option.splits)+

interpretation api: rail_order same_api
  by unfold_locales (intro frames)+

lemma same_api_Cancel: "frame same_api (Cancel E i)"
  unfolding Cancel_def by (intro frames)

lemma Create_rows:
  assumes "Create E inp w = (Inr p, w')"
  shows "map pay_id (payments (db w')) = map pay_id (payments (db w)) @ [pay_id p]" "idem (db w') = idem (db w)"
proof -
  let ?pid = "fresh E (tick w) 0"
  from assms obtain w1 w2 je w3 p' w4 u w5 u' w6 where t: "db w1 = db w" "db w' = db w2"
    and s1: "PostWithin E (payment_entry E ?pid inp) w1 = (Inr je, w3)"
    and s2: "InsertPayment E ?pid ''completed'' (ci_asset inp) (ci_amount inp) (ci_source inp)
               (ci_dest inp) (je_id je) w3 = (Inr p', w4)"
    and s3: "Emit E (payment_event E ''payment.created'' ?pid p') w4 = (Inr u, w5)"
    and s4: "Append E (payment_audit E ''payment.created'' ?pid p') w5 = (Inr u', w6)"
    and r: "(Inr p', w6) = (Inr p :: Payment result, w2)"
    unfolding Create_def Let_def uuid_New_def split_conv
    by (elim sql.exec_okE chk_okE) (auto simp: uuid_New_def)
  have f: "same_api (db w1) (db w3)" "same_api (db w4) (db w5)" "same_api (db w5) (db w6)"
    by (rule frameD [OF api.frame_PostWithin s1] frameD [OF api.frame_Emit s3] frameD [OF api.frame_Append s4])+
  from s2 have "map pay_id (payments (db w4)) = map pay_id (payments (db w3)) @ [pay_id p']" "idem (db w4) = idem (db w3)"
    unfolding InsertPayment_def by (auto simp: Let_def elim!: query_okE split: if_splits)
  then show "map pay_id (payments (db w')) = map pay_id (payments (db w)) @ [pay_id p]" "idem (db w') = idem (db w)"
    using f t r by (simp_all add: same_api_def)
qed

lemma writeJSON_status [simp]: "hs_status (writeJSON E st v) = st" "hs_status (writeError E st c m) = st"
  by (simp_all add: writeJSON_def writeError_def)

lemma writeServiceError_status [simp]:
  "400 \<le> hs_status (writeServiceError E e)" "hs_status (writeServiceError E e) \<noteq> 201"
  by (simp_all add: writeServiceError_def)

text \<open>The handler answers 201 and adds one payment, or answers an error and changes nothing.\<close>

lemma handleCreate_effect:
  assumes "handleCreate E A body w = (resp, w')"
  obtains (paid) u where "hs_status resp = 201" "idem (db w') = idem (db w)"
      "map pay_id (payments (db w')) = map pay_id (payments (db w)) @ [u]"
  | (unpaid) "400 \<le> hs_status resp" "db w' = db w"
proof (cases "hs_status resp = 201")
  case True
  then obtain p inp where "Create E inp w = (Inr p, w')"
    using assms
    by (auto simp: handleCreate_def split: option.splits if_splits prod.splits sum.splits)
  then show thesis using paid True Create_rows by blast
next
  case False
  have "400 \<le> hs_status resp \<and> db w' = db w"
    using assms False
    by (auto simp: handleCreate_def Create_def uuid_New_def dest: sql.exec_err
        split: option.splits if_splits prod.splits sum.splits)
  then show thesis using unpaid by blast
qed

subsection \<open>What the store answers\<close>

lemma Begin_cases:
  assumes "Begin E key hash w = (Inr res, w')"
  obtains (fresh) "br_fresh res" "\<forall>k \<in> set (idem (db w)). ik_key k \<noteq> key"
      "db w' = (db w)\<lparr>idem := idem (db w) @ [br_existing res]\<rparr>"
      "ik_key (br_existing res) = key" "ik_hash (br_existing res) = hash" "ik_status (br_existing res) = ''in_flight''"
  | (taken) "\<not> br_fresh res" "List.find (\<lambda>k. ik_key k = key) (idem (db w)) = Some (br_existing res)" "db w' = db w"
proof (cases "InsertIdempotencyKey E key hash w")
  case (Pair r w1)
  show thesis
  proof (cases r)
    case (Inl e)
    then have d: "db w1 = db w" using Pair unfolding InsertIdempotencyKey_def by (auto dest: query_err_db)
    from Inl have "chk (GetIdempotencyKey E key w1) (\<lambda>row w. (Inr \<lparr>br_fresh = False, br_existing = row\<rparr>, w)) = (Inr res, w')"
      using assms Pair by (simp add: Begin_def split: if_splits)
    then show thesis using taken d by (auto simp: GetIdempotencyKey_def elim!: chk_okE reading_okE)
  next
    case (Inr row)
    then have "res = \<lparr>br_fresh = True, br_existing = row\<rparr>" "w' = w1" using assms Pair by (simp_all add: Begin_def)
    moreover from Pair Inr have "\<forall>k\<in>set (idem (db w)). ik_key k \<noteq> key"
      "db w1 = (db w)\<lparr>idem := idem (db w) @ [row]\<rparr>" "ik_key row = key" "ik_hash row = hash" "ik_status row = ''in_flight''"
      unfolding InsertIdempotencyKey_def by (auto simp: Let_def list_ex_iff elim!: query_okE split: if_splits)
    ultimately show thesis by (intro fresh) auto
  qed
qed

lemma Begin_err: "Begin E key hash w = (Inl e, w') \<Longrightarrow> db w' = db w"
  unfolding Begin_def InsertIdempotencyKey_def GetIdempotencyKey_def
  by (auto elim!: chk_errE dest!: query_err_db reading_err split: prod.splits sum.splits if_splits)

lemma Complete_db:
  "db (snd (Complete E key st body u w)) = db w \<or>
   (\<exists>f. db (snd (Complete E key st body u w)) = (db w)\<lparr>idem := map f (idem (db w))\<rparr> \<and> (\<forall>k. ik_key (f k) = ik_key k))"
  unfolding Complete_def CompleteIdempotencyKey_def query_def update_where_def
  by (auto intro!: exI)

lemma Delete_db:
  "db (snd (Delete E key w)) = db w \<or>
   db (snd (Delete E key w)) = (db w)\<lparr>idem := filter (\<lambda>k. ik_key k \<noteq> key) (idem (db w))\<rparr>"
  by (simp add: Delete_def DeleteIdempotencyKey_def query_def)

lemma claim_cases:
  assumes "claim E r w = (out, w')"
  obtains (claimed) "out = Inr (hr_body r)" "hr_key r \<notin> ik_key ` set (idem (db w))"
      "payments (db w') = payments (db w)" "ik_key ` set (idem (db w')) = insert (hr_key r) (ik_key ` set (idem (db w)))"
  | (refused) resp where "out = Inl resp" "db w' = db w"
proof (cases "Begin E (hr_key r) (request_hash E r) w")
  case (Pair b w1)
  show thesis
  proof (cases b)
    case (Inl e)
    then show thesis using assms Pair Begin_err refused by (auto simp: claim_def split: if_splits)
  next
    case (Inr res)
    from Pair Inr have "Begin E (hr_key r) (request_hash E r) w = (Inr res, w1)" by simp
    then show thesis
    proof (cases rule: Begin_cases)
      case fresh
      have key: "hr_key r \<notin> ik_key ` set (idem (db w))"
        using fresh(2) by (metis imageE)
      have keys: "payments (db w1) = payments (db w)" "ik_key ` set (idem (db w1)) = insert (hr_key r) (ik_key ` set (idem (db w)))"
        using fresh(3,4) by simp_all
      have "(out, w') = (Inr (hr_body r), w1) \<or> (\<exists>resp. out = Inl resp \<and> w' = w)"
        using assms Pair Inr fresh(1) by (auto simp: claim_def split: if_splits)
      then show thesis using claimed [OF _ key] keys refused by blast
    next
      case taken
      then show thesis using assms Pair Inr refused by (auto simp: claim_def split: if_splits)
    qed
  qed
qed

subsection \<open>Requests side by side\<close>

text \<open>
  The requests the replicas are working on, each between two steps of the middleware, and which key
  created which payment rows.
\<close>

datatype job = Claimed http_request | Answered string http_response

fun job_key :: "job \<Rightarrow> string" where
  "job_key (Claimed r) = hr_key r"
| "job_key (Answered k resp) = k"

record api_state =
  as_world :: world
  as_jobs :: "job list"
  as_made :: "(string \<times> uuid) list"

definition new_rows :: "world \<Rightarrow> world \<Rightarrow> uuid list" where
  "new_rows w w' = drop (length (payments (db w))) (map pay_id (payments (db w')))"

text \<open>
  One step of one request, or the death of the process that held one. The sweeper, which forgets keys
  past their time to live on purpose, is not a step here.
\<close>

inductive api_step :: "env \<Rightarrow> codec \<Rightarrow> api_state \<Rightarrow> api_state \<Rightarrow> bool" for E A where
  arrive: "claim E r (as_world s) = (Inr body, w) \<Longrightarrow>
     api_step E A s (s\<lparr>as_world := w, as_jobs := Claimed r # as_jobs s\<rparr>)"
| refuse: "claim E r (as_world s) = (Inl resp, w) \<Longrightarrow> api_step E A s (s\<lparr>as_world := w\<rparr>)"
| handle: "as_jobs s = js @ Claimed r # js' \<Longrightarrow> handleCreate E A (hr_body r) (as_world s) = (resp, w) \<Longrightarrow>
     api_step E A s (s\<lparr>as_world := w, as_jobs := js @ Answered (hr_key r) resp # js',
       as_made := as_made s @ map (Pair (hr_key r)) (new_rows (as_world s) w)\<rparr>)"
| finish: "as_jobs s = js @ Answered k resp # js' \<Longrightarrow>
     api_step E A s (s\<lparr>as_world := settle_claim E A k resp (as_world s), as_jobs := js @ js'\<rparr>)"
| crash: "as_jobs s = js @ j # js' \<Longrightarrow> api_step E A s (s\<lparr>as_jobs := js @ js'\<rparr>)"
| get: "api_step E A s (s\<lparr>as_world := snd (handleGet E i (as_world s))\<rparr>)"
| page: "api_step E A s (s\<lparr>as_world := snd (handleList E A v token (as_world s))\<rparr>)"
| cancel: "api_step E A s (s\<lparr>as_world := snd (handleCancel E i (as_world s))\<rparr>)"

abbreviation api_run :: "env \<Rightarrow> codec \<Rightarrow> api_state \<Rightarrow> api_state \<Rightarrow> bool" where
  "api_run E A \<equiv> (api_step E A)\<^sup>*\<^sup>*"

text \<open>The middleware as written is such a run.\<close>

lemma withIdempotency_run:
  assumes "withIdempotency E A r (as_world s) = (resp, w)"
  shows "\<exists>ms. api_run E A s (s\<lparr>as_made := as_made s @ map (Pair (hr_key r)) ms, as_world := w\<rparr>)"
proof (cases "claim E r (as_world s)")
  case (Pair out w1)
  show ?thesis
  proof (cases out)
    case (Inl resp')
    then have "api_step E A s (s\<lparr>as_world := w\<rparr>)"
      using Pair assms by (intro api_step.refuse [of _ r]) (simp add: withIdempotency_def)
    then show ?thesis by (intro exI [of _ "[]"]) auto
  next
    case (Inr body)
    obtain resp' w2 where h: "handleCreate E A body w1 = (resp', w2)" by (rule prod.exhaust)
    have b: "body = hr_body r" using Pair Inr by (auto elim!: claim_cases)
    have w: "w = settle_claim E A (hr_key r) resp' w2" using assms Pair Inr h by (auto simp: withIdempotency_def)
    let ?ms = "new_rows w1 w2"
    let ?s1 = "s\<lparr>as_world := w1, as_jobs := Claimed r # as_jobs s\<rparr>"
    let ?s2 = "s\<lparr>as_world := w2, as_jobs := Answered (hr_key r) resp' # as_jobs s,
                as_made := as_made s @ map (Pair (hr_key r)) ?ms\<rparr>"
    have "api_step E A s ?s1" using api_step.arrive [of E r s body w1 A] Pair Inr by simp
    moreover have "api_step E A ?s1 ?s2"
      using api_step.handle [of ?s1 "[]" r "as_jobs s" E A resp' w2] h b by simp
    moreover have "api_step E A ?s2 (s\<lparr>as_made := as_made s @ map (Pair (hr_key r)) ?ms, as_world := w\<rparr>)"
      using api_step.finish [of ?s2 "[]" "hr_key r" resp' "as_jobs s" E A] w by simp
    ultimately show ?thesis by (intro exI [of _ ?ms]) (meson converse_rtranclp_into_rtranclp rtranclp.rtrancl_refl)
  qed
qed

text \<open>
  The invariant: requests at work and keys that paid hold their claims, a request still to be handled
  has not paid, and one that paid was answered with a success.
\<close>

abbreviation held :: "world \<Rightarrow> string set" where
  "held w \<equiv> ik_key ` set (idem (db w))"

definition success :: "http_response \<Rightarrow> bool" where
  "success resp \<longleftrightarrow> 200 \<le> hs_status resp \<and> hs_status resp < 300"

fun job_fits :: "string set \<Rightarrow> job \<Rightarrow> bool" where
  "job_fits paid (Claimed r) = (hr_key r \<notin> paid)"
| "job_fits paid (Answered k resp) = (k \<in> paid \<longrightarrow> success resp)"

definition api_ok :: "uuid list \<Rightarrow> api_state \<Rightarrow> bool" where
  "api_ok ids s \<longleftrightarrow>
     distinct (map job_key (as_jobs s)) \<and> job_key ` set (as_jobs s) \<subseteq> held (as_world s) \<and>
     fst ` set (as_made s) \<subseteq> held (as_world s) \<and> distinct (map fst (as_made s)) \<and>
     map pay_id (payments (db (as_world s))) = ids @ map snd (as_made s) \<and>
     (\<forall>j \<in> set (as_jobs s). job_fits (fst ` set (as_made s)) j)"

text \<open>A step that changes neither the keys nor the payments keeps it.\<close>

lemma api_ok_same:
  assumes "api_ok ids s" "same_api (db (as_world s)) (db w)"
  shows "api_ok ids (s\<lparr>as_world := w\<rparr>)"
  using assms by (simp add: api_ok_def same_api_def)

lemma same_api_handlers:
  "same_api (db w) (db (snd (handleGet E i w)))"
  "same_api (db w) (db (snd (handleList E A v token w)))"
  "same_api (db w) (db (snd (handleCancel E i w)))"
proof -
  have l: "frame same_api (PaymentsList E limit cur)" for limit cur
    unfolding PaymentsList_def Let_def by (intro frames)
  show "same_api (db w) (db (snd (handleList E A v token w)))"
    unfolding handleList_def
    by (auto dest: frameD [OF l] simp: views.R_refl split: option.splits prod.splits sum.splits)
  have g: "frame same_api (Get E u)" for u
    unfolding Get_def by (intro frames)
  show "same_api (db w) (db (snd (handleGet E i w)))"
    unfolding handleGet_def
    by (auto dest: frameD [OF g] simp: views.R_refl split: option.splits prod.splits sum.splits)
  show "same_api (db w) (db (snd (handleCancel E i w)))"
    unfolding handleCancel_def
    by (auto dest: frameD [OF same_api_Cancel] simp: views.R_refl split: option.splits prod.splits sum.splits)
qed

lemma api_ok_arrive:
  assumes "api_ok ids s" "claim E r (as_world s) = (Inr body, w)"
  shows "api_ok ids (s\<lparr>as_world := w, as_jobs := Claimed r # as_jobs s\<rparr>)"
  using assms(2)
proof (cases rule: claim_cases)
  case claimed
  then show ?thesis using assms(1) by (auto simp: api_ok_def)
qed simp

lemma api_ok_handle:
  assumes ok: "api_ok ids s" and js: "as_jobs s = js @ Claimed r # js'"
    and h: "handleCreate E A (hr_body r) (as_world s) = (resp, w)"
  shows "api_ok ids (s\<lparr>as_world := w, as_jobs := js @ Answered (hr_key r) resp # js',
    as_made := as_made s @ map (Pair (hr_key r)) (new_rows (as_world s) w)\<rparr>)"
  using h
proof (cases rule: handleCreate_effect)
  case (paid u)
  have others: "hr_key r \<notin> job_key ` (set js \<union> set js')"
    using ok js by (simp add: api_ok_def image_Un)
  have "new_rows (as_world s) w = [u]" using paid by (simp add: new_rows_def)
  moreover have "job_fits (insert (hr_key r) (fst ` set (as_made s))) j" if "j \<in> set js \<union> set js'" for j
  proof -
    have "job_fits (fst ` set (as_made s)) j" using that ok js by (simp add: api_ok_def)
    moreover have "job_key j \<noteq> hr_key r" using imageI [OF that, of job_key] others by auto
    ultimately show ?thesis by (cases j) auto
  qed
  ultimately show ?thesis using ok js paid by (auto simp: api_ok_def success_def)
next
  case unpaid
  then have "new_rows (as_world s) w = []" by (simp add: new_rows_def)
  then show ?thesis using ok js unpaid by (auto simp: api_ok_def)
qed

lemma api_ok_drop:
  assumes "api_ok ids s" "as_jobs s = js @ j # js'"
  shows "api_ok ids (s\<lparr>as_jobs := js @ js'\<rparr>)"
  using assms by (auto simp: api_ok_def)

lemma settle_claim_db:
  obtains (kept) "held (settle_claim E A k resp w) = held w" "payments (db (settle_claim E A k resp w)) = payments (db w)"
  | (released) "\<not> success resp" "held (settle_claim E A k resp w) = held w - {k}"
      "payments (db (settle_claim E A k resp w)) = payments (db w)"
proof (cases "success resp")
  case True
  let ?w = "settle_claim E A k resp w"
  have "db ?w = db w \<or> (\<exists>f. db ?w = (db w)\<lparr>idem := map f (idem (db w))\<rparr> \<and> (\<forall>k. ik_key (f k) = ik_key k))"
    using True Complete_db by (simp add: settle_claim_def success_def)
  then show thesis using kept by (auto simp: image_image)
next
  case False
  let ?w = "settle_claim E A k resp w"
  have "?w = snd (Delete E k w)" using False by (auto simp: settle_claim_def success_def)
  then have "db ?w = db w \<or> db ?w = (db w)\<lparr>idem := filter (\<lambda>x. ik_key x \<noteq> k) (idem (db w))\<rparr>"
    using Delete_db by simp
  then show thesis
  proof
    assume "db ?w = (db w)\<lparr>idem := filter (\<lambda>x. ik_key x \<noteq> k) (idem (db w))\<rparr>"
    then show thesis using False by (intro released) auto
  qed (simp add: kept)
qed

lemma api_ok_finish:
  assumes ok: "api_ok ids s" and js: "as_jobs s = js @ Answered k resp # js'"
  shows "api_ok ids (s\<lparr>as_world := settle_claim E A k resp (as_world s), as_jobs := js @ js'\<rparr>)"
proof (cases rule: settle_claim_db [of E A k resp "as_world s"])
  case kept
  then show ?thesis using ok js by (auto simp: api_ok_def)
next
  case released
  have held: "job_key ` set (js @ js') \<subseteq> held (as_world s)" "fst ` set (as_made s) \<subseteq> held (as_world s)"
    using ok js by (simp_all add: api_ok_def)
  have "k \<notin> fst ` set (as_made s)" using ok js released(1) by (auto simp: api_ok_def)
  moreover have "k \<notin> job_key ` set (js @ js')" using ok js by (simp add: api_ok_def image_Un)
  ultimately have "job_key ` set (js @ js') \<subseteq> held (as_world s) - {k}" "fst ` set (as_made s) \<subseteq> held (as_world s) - {k}"
    using held by blast+
  then show ?thesis using ok js released(2,3) by (simp add: api_ok_def)
qed

lemma api_ok_step: "api_step E A s s' \<Longrightarrow> api_ok ids s \<Longrightarrow> api_ok ids s'"
proof (induction rule: api_step.induct)
  case (refuse r s resp w)
  have "db w = db (as_world s)" using refuse.hyps by (cases rule: claim_cases) simp_all
  then show ?case using refuse.prems by (simp add: api_ok_same same_api_def)
qed (simp_all add: api_ok_arrive api_ok_handle api_ok_finish api_ok_drop api_ok_same same_api_handlers)

lemma api_ok_run: "api_run E A s s' \<Longrightarrow> api_ok ids s \<Longrightarrow> api_ok ids s'"
  by (induction rule: rtranclp_induct) (auto dest: api_ok_step)


subsection \<open>A repeated request\<close>

lemma Begin_known:
  assumes "no_faults E" "List.find (\<lambda>k. ik_key k = key) (idem (db w)) = Some row"
  shows "Begin E key hash w = (Inr \<lparr>br_fresh = False, br_existing = row\<rparr>, w\<lparr>tick := tick w + 2\<rparr>)"
proof -
  have "list_ex (\<lambda>k. ik_key k = key) (idem (db w))"
    using assms(2) by (auto simp: find_Some_iff list_ex_iff intro!: bexI [OF _ nth_mem])
  then show ?thesis using assms
    by (simp add: Begin_def InsertIdempotencyKey_def GetIdempotencyKey_def query_def reading_def no_faults_def)
qed

text \<open>The request is well formed and its key holds the completed response.\<close>

definition replays :: "env \<Rightarrow> http_request \<Rightarrow> http_response \<Rightarrow> world \<Rightarrow> bool" where
  "replays E r resp w \<longleftrightarrow>
     hr_key r \<noteq> [] \<and> int (length (hr_body r)) \<le> maxRequestBodyBytes \<and> \<not> hr_broken r \<and>
     (\<exists>row. List.find (\<lambda>k. ik_key k = hr_key r) (idem (db w)) = Some row \<and> ik_status row \<noteq> ''in_flight'' \<and>
        ik_hash row = request_hash E r \<and> resp = replay E row (request_hash E r))"

lemma replays_answer:
  assumes "no_faults E" "replays E r resp w"
  shows "withIdempotency E A r w = (resp, w\<lparr>tick := tick w + 2\<rparr>)"
proof -
  from assms(2) obtain row where r: "hr_key r \<noteq> []" "int (length (hr_body r)) \<le> maxRequestBodyBytes" "\<not> hr_broken r"
    and f: "List.find (\<lambda>k. ik_key k = hr_key r) (idem (db w)) = Some row" "resp = replay E row (request_hash E r)"
    unfolding replays_def by blast
  show ?thesis using r f(2) by (simp add: withIdempotency_def claim_def Begin_known [OF assms(1) f(1)])
qed

lemma update_where_append: "update_where P f (xs @ ys) = update_where P f xs @ update_where P f ys"
  by (simp add: update_where_def)

lemma find_last: "\<forall>x \<in> set xs. \<not> P x \<Longrightarrow> P y \<Longrightarrow> List.find P (xs @ [y]) = Some y"
  by (induction xs) auto

text \<open>A replayed success leaves the response to replay again, and so does a fresh claim that ends in success.\<close>

lemma refused_replays:
  assumes "claim E r w = (Inl resp, w')" "success resp"
  shows "replays E r resp w'"
proof -
  obtain res where b: "Begin E (hr_key r) (request_hash E r) w = (Inr res, w')" "\<not> br_fresh res"
    "resp = replay E (br_existing res) (request_hash E r)" and r: "hr_key r \<noteq> []"
    "int (length (hr_body r)) \<le> maxRequestBodyBytes" "\<not> hr_broken r"
    using assms by (auto simp: claim_def success_def split: if_splits prod.splits sum.splits)
  from b(1) have f: "List.find (\<lambda>k. ik_key k = hr_key r) (idem (db w')) = Some (br_existing res)"
    by (rule Begin_cases) (use b(2) in auto)
  have "ik_status (br_existing res) \<noteq> ''in_flight''" "ik_hash (br_existing res) = request_hash E r"
    using b(3) assms(2) by (auto simp: replay_def success_def split: if_splits)
  then show ?thesis unfolding replays_def using r f b(3) by blast
qed

lemma claimed_replays:
  assumes nf: "no_faults E" and c: "claim E r w = (Inr body, w1)"
    and h: "handleCreate E A body w1 = (resp, w2)" and ok: "success resp"
  shows "replays E r resp (settle_claim E A (hr_key r) resp w2)"
proof -
  let ?w' = "settle_claim E A (hr_key r) resp w2"
  obtain res where b: "Begin E (hr_key r) (request_hash E r) w = (Inr res, w1)" "br_fresh res" and r: "hr_key r \<noteq> []"
    "int (length (hr_body r)) \<le> maxRequestBodyBytes" "\<not> hr_broken r"
    using c by (auto simp: claim_def split: if_splits prod.splits sum.splits)
  from b have fresh: "\<forall>k \<in> set (idem (db w)). ik_key k \<noteq> hr_key r"
    and i1: "idem (db w1) = idem (db w) @ [br_existing res]"
    and row: "ik_key (br_existing res) = hr_key r" "ik_hash (br_existing res) = request_hash E r"
    by (auto elim!: Begin_cases)
  from h have st: "hs_status resp = 201" "idem (db w2) = idem (db w1)"
    using ok by (auto elim!: handleCreate_effect simp: success_def)
  let ?done = "\<lambda>k. k\<lparr>ik_status := ''completed'', ik_resp_status := Some (wrap32 (hs_status resp)), ik_resp_body := hs_body resp,
    ik_payment := (if paymentIDFrom A (hs_body resp) = uuid_Nil then None else Some (paymentIDFrom A (hs_body resp))),
    ik_completed := Some (pg_now E w2)\<rparr>"
  have "idem (db ?w') = update_where (\<lambda>k. ik_key k = hr_key r) ?done (idem (db w2))"
    using nf st(1) by (simp add: settle_claim_def Complete_def CompleteIdempotencyKey_def query_def no_faults_def)
  also have "\<dots> = idem (db w) @ [?done (br_existing res)]"
    using fresh row(1) by (simp add: st(2) i1 update_where_append update_where_none)
  finally have k: "idem (db ?w') = idem (db w) @ [?done (br_existing res)]" .
  have "List.find (\<lambda>k. ik_key k = hr_key r) (idem (db ?w')) = Some (?done (br_existing res))"
    unfolding k by (rule find_last) (use fresh row in simp_all)
  then show ?thesis unfolding replays_def using r st(1) row
    by (intro conjI exI [of _ "?done (br_existing res)"]) (simp_all add: replay_def wrap32_def)
qed

lemma success_replays:
  assumes "no_faults E" "withIdempotency E A r w = (resp, w')" "success resp"
  shows "replays E r resp w'"
proof (cases "claim E r w")
  case (Pair out w1)
  show ?thesis
  proof (cases out)
    case (Inl resp')
    then have "claim E r w = (Inl resp, w')" using assms(2) Pair by (simp add: withIdempotency_def)
    then show ?thesis using assms(3) by (rule refused_replays)
  next
    case (Inr body)
    then have c: "claim E r w = (Inr body, w1)" using Pair by simp
    obtain resp' w2 where h: "handleCreate E A body w1 = (resp', w2)" by (rule prod.exhaust)
    from assms(2) have "resp' = resp" "w' = settle_claim E A (hr_key r) resp w2"
      unfolding withIdempotency_def c by (auto simp: h)
    then show ?thesis using claimed_replays [OF assms(1) c] h assms(3) by simp
  qed
qed


subsection \<open>The same request twice\<close>

definition demo_codec :: codec where
  "demo_codec = \<lparr>cd_create = (\<lambda>b. Some \<lparr>cr_source = 1, cr_dest = 2, cr_asset = ''USDC'', cr_amount = 40\<rparr>),
     cd_payment_id = (\<lambda>b. None), cd_format = (\<lambda>t. []), cd_parse = (\<lambda>s. Some 0), cd_base64 = (\<lambda>b. b),
     cd_unbase64 = Some\<rparr>"

definition demo_request :: http_request where
  "demo_request = \<lparr>hr_method = ''POST'', hr_path = ''/v1/payments'', hr_key = ''k1'', hr_body = ''{}'', hr_broken = False\<rparr>"

definition demo_claimed :: world where
  "demo_claimed = (idle bank)\<lparr>tick := 1, db := bank\<lparr>idem :=
     [\<lparr>ik_key = ''k1'', ik_hash = request_hash env0 demo_request, ik_status = ''in_flight'', ik_resp_status = None,
       ik_resp_body = [], ik_payment = None, ik_created = 0, ik_completed = None\<rparr>]\<rparr>\<rparr>"

lemma demo_claim: "claim env0 demo_request (idle bank) = (Inr ''{}'', demo_claimed)"
  by (simp add: claim_def Begin_def InsertIdempotencyKey_def query_def demo_request_def demo_claimed_def
      maxRequestBodyBytes_def bank_def no_tables_def idle_def pg_now_def Let_def)

lemma demo_handled: "outcome (Create env0 demo_input demo_claimed) = Inr ()"
  by (simp add: Create_def run_defs bank_def no_tables_def idle_def demo_input_def demo_claimed_def)

lemma demo_trim: "TrimSpace ''USDC'' \<noteq> []"
  by code_simp

lemma demo_paid:
  obtains resp w where "withIdempotency env0 demo_codec demo_request (idle bank) = (resp, w)" "hs_status resp = 201"
    "length (payments (db w)) = 1"
proof -
  obtain p w2 where c: "Create env0 demo_input demo_claimed = (Inr p, w2)"
    using demo_handled by (cases "Create env0 demo_input demo_claimed") (auto simp: outcome_def split: sum.splits)
  let ?resp = "writeJSON env0 201 (toPaymentResponse env0 p)" and ?k = "hr_key demo_request"
  have h: "handleCreate env0 demo_codec ''{}'' demo_claimed = (?resp, w2)"
    using c demo_trim by (simp add: handleCreate_def demo_codec_def demo_input_def uuid_Nil_def)
  have "length (payments (db w2)) = 1"
    using arg_cong [OF Create_rows(1) [OF c], of length] by (simp add: demo_claimed_def bank_def no_tables_def)
  then have "length (payments (db (settle_claim env0 demo_codec ?k ?resp w2))) = 1"
    by (cases rule: settle_claim_db [of env0 demo_codec ?k ?resp w2]) simp_all
  moreover have "withIdempotency env0 demo_codec demo_request (idle bank) = (?resp, settle_claim env0 demo_codec ?k ?resp w2)"
    by (simp add: withIdempotency_def demo_claim h)
  ultimately show thesis using that by simp
qed



end
